(* ===== verification/Halo_Prelude.thy ===== *)
theory Halo_Prelude
  imports Main "HOL-Library.Word" "HOL-Library.Monad_Syntax"
begin

text \<open>
  Shared vocabulary of the development: the fixed-width integers of Go, byte
  slices as lists of 8-bit words, the byte-order codecs of Go's
  \<^verbatim>\<open>encoding/binary\<close>, slicing and \<^verbatim>\<open>copy\<close>, and the error type of the
  repository's functions that return \<^verbatim>\<open>(value, error)\<close>.
  The collections \<open>byte_codec\<close> and \<open>slice_simps\<close> carry the component proofs.
  The locale \<open>codec\<close> is the contract of a pair of build and parse functions.
\<close>

unbundle bit_operations_syntax

type_synonym u8 = "8 word"
type_synonym u16 = "16 word"
type_synonym u32 = "32 word"
type_synonym u64 = "64 word"
type_synonym bytes = "u8 list"
type_synonym 'a go_result = "string + 'a"

named_theorems byte_codec "round trips of the byte-order codecs"
named_theorems slice_simps "slices and copies of lists"

abbreviation Err :: "'e \<Rightarrow> 'e + 'a" where
  "Err \<equiv> Inl"

abbreviation Ok :: "'a \<Rightarrow> 'e + 'a" where
  "Ok \<equiv> Inr"

subsection \<open>Slices\<close>

definition go_slice :: "'a list \<Rightarrow> nat \<Rightarrow> nat \<Rightarrow> 'a list" where
  "go_slice xs i j = take (j - i) (drop i xs)"

definition go_copy :: "'a list \<Rightarrow> nat \<Rightarrow> 'a list \<Rightarrow> 'a list" where
  "go_copy dst off src =
     take off dst @ take (length dst - off) src @ drop (off + length src) dst"

subsection \<open>Byte orders\<close>

definition be16 :: "u16 \<Rightarrow> bytes" where
  "be16 w = [ucast (drop_bit 8 w), ucast w]"

definition be32 :: "u32 \<Rightarrow> bytes" where
  "be32 w = [ucast (drop_bit 24 w), ucast (drop_bit 16 w), ucast (drop_bit 8 w), ucast w]"

definition be64 :: "u64 \<Rightarrow> bytes" where
  "be64 w = [ucast (drop_bit 56 w), ucast (drop_bit 48 w), ucast (drop_bit 40 w),
             ucast (drop_bit 32 w), ucast (drop_bit 24 w), ucast (drop_bit 16 w),
             ucast (drop_bit 8 w), ucast w]"

definition le16 :: "u16 \<Rightarrow> bytes" where
  "le16 w = [ucast w, ucast (drop_bit 8 w)]"

definition le32 :: "u32 \<Rightarrow> bytes" where
  "le32 w = [ucast w, ucast (drop_bit 8 w), ucast (drop_bit 16 w), ucast (drop_bit 24 w)]"

definition le64 :: "u64 \<Rightarrow> bytes" where
  "le64 w = [ucast w, ucast (drop_bit 8 w), ucast (drop_bit 16 w), ucast (drop_bit 24 w),
             ucast (drop_bit 32 w), ucast (drop_bit 40 w), ucast (drop_bit 48 w),
             ucast (drop_bit 56 w)]"

definition get_be16 :: "bytes \<Rightarrow> u16" where
  "get_be16 b = push_bit 8 (ucast (b ! 0)) OR ucast (b ! 1)"

definition get_be32 :: "bytes \<Rightarrow> u32" where
  "get_be32 b = push_bit 24 (ucast (b ! 0)) OR push_bit 16 (ucast (b ! 1))
     OR push_bit 8 (ucast (b ! 2)) OR ucast (b ! 3)"

definition get_be64 :: "bytes \<Rightarrow> u64" where
  "get_be64 b = push_bit 56 (ucast (b ! 0)) OR push_bit 48 (ucast (b ! 1))
     OR push_bit 40 (ucast (b ! 2)) OR push_bit 32 (ucast (b ! 3))
     OR push_bit 24 (ucast (b ! 4)) OR push_bit 16 (ucast (b ! 5))
     OR push_bit 8 (ucast (b ! 6)) OR ucast (b ! 7)"

definition get_le16 :: "bytes \<Rightarrow> u16" where
  "get_le16 b = ucast (b ! 0) OR push_bit 8 (ucast (b ! 1))"

definition get_le32 :: "bytes \<Rightarrow> u32" where
  "get_le32 b = ucast (b ! 0) OR push_bit 8 (ucast (b ! 1))
     OR push_bit 16 (ucast (b ! 2)) OR push_bit 24 (ucast (b ! 3))"

definition get_le64 :: "bytes \<Rightarrow> u64" where
  "get_le64 b = ucast (b ! 0) OR push_bit 8 (ucast (b ! 1))
     OR push_bit 16 (ucast (b ! 2)) OR push_bit 24 (ucast (b ! 3))
     OR push_bit 32 (ucast (b ! 4)) OR push_bit 40 (ucast (b ! 5))
     OR push_bit 48 (ucast (b ! 6)) OR push_bit 56 (ucast (b ! 7))"

text \<open>Reads at computed positions: out of range, where Go panics, they are undefined.\<close>

definition go_nth :: "'a list \<Rightarrow> nat \<Rightarrow> 'a option" where
  "go_nth xs i = (if i < length xs then Some (xs ! i) else None)"

definition go_sub :: "'a list \<Rightarrow> nat \<Rightarrow> nat \<Rightarrow> 'a list option" where
  "go_sub xs i j = (if i \<le> j \<and> j \<le> length xs then Some (go_slice xs i j) else None)"

text \<open>Two bytes stored in place, most significant first: the pairs of assignments the
  checksum code makes.\<close>

definition put_be16 :: "nat \<Rightarrow> u16 \<Rightarrow> bytes \<Rightarrow> bytes" where
  "put_be16 off w b = b[off := ucast (drop_bit 8 w), off + 1 := ucast w]"

subsection \<open>Facts on slices and copies\<close>

lemma length_go_slice [simp, slice_simps]: "length (go_slice xs i j) = min (j - i) (length xs - i)"
  by (simp add: go_slice_def)

lemma nth_go_slice [slice_simps]:
  "i + k < j \<Longrightarrow> i + k < length xs \<Longrightarrow> go_slice xs i j ! k = xs ! (i + k)"
  by (simp add: go_slice_def)

lemma go_slice_append_left [slice_simps]:
  "j \<le> length xs \<Longrightarrow> go_slice (xs @ ys) i j = go_slice xs i j"
  by (cases "i \<le> j") (simp_all add: go_slice_def)

lemma go_slice_append_right [slice_simps]:
  "length xs \<le> i \<Longrightarrow> go_slice (xs @ ys) i j = go_slice ys (i - length xs) (j - length xs)"
  by (simp add: go_slice_def)

lemma go_slice_full [slice_simps]: "length xs \<le> j \<Longrightarrow> go_slice xs 0 j = xs"
  by (simp add: go_slice_def)

lemma length_go_copy [simp, slice_simps]:
  "off \<le> length dst \<Longrightarrow> length (go_copy dst off src) = length dst"
  by (simp add: go_copy_def)

lemma nth_go_copy:
  assumes "off + length src \<le> length dst" "k < length dst"
  shows "go_copy dst off src ! k =
    (if off \<le> k \<and> k < off + length src then src ! (k - off) else dst ! k)"
  using assms by (auto simp: go_copy_def nth_append min_def)

subsection \<open>Facts on the byte orders\<close>

lemma length_be [simp]:
  "length (be16 a) = 2" "length (be32 b) = 4" "length (be64 c) = 8"
  "length (le16 a) = 2" "length (le32 b) = 4" "length (le64 c) = 8"
  by (simp_all add: be16_def be32_def be64_def le16_def le32_def le64_def)

lemma length_put_be16 [simp]: "length (put_be16 i w xs) = length xs"
  by (simp add: put_be16_def)

lemma nth_put_be16 [slice_simps]:
  "k \<noteq> i \<Longrightarrow> k \<noteq> i + 1 \<Longrightarrow> put_be16 i w xs ! k = xs ! k"
  by (simp add: put_be16_def)

lemma nth_put_be16_at [slice_simps]:
  "i < length xs \<Longrightarrow> put_be16 i w xs ! i = ucast (drop_bit 8 w)"
  "i + 1 < length xs \<Longrightarrow> put_be16 i w xs ! (i + 1) = ucast w"
  by (simp_all add: put_be16_def)

lemma take_put_be16 [slice_simps]: "take n (put_be16 i w xs) = put_be16 i w (take n xs)"
  by (simp add: put_be16_def take_update_swap)

lemma drop_put_be16 [slice_simps]: "n \<le> i \<Longrightarrow> drop n (put_be16 i w xs) = put_be16 (i - n) w (drop n xs)"
  by (simp add: put_be16_def drop_update_swap Suc_diff_le)

lemma drop_put_be16_lt [slice_simps]: "i + 1 < n \<Longrightarrow> drop n (put_be16 i w xs) = drop n xs"
  by (simp add: put_be16_def)

lemma put_be16_overwrite [simp]: "put_be16 i v (put_be16 i w xs) = put_be16 i v xs"
  by (simp add: put_be16_def list_update_swap)

lemma put_be16_beyond: "length xs \<le> i \<Longrightarrow> put_be16 i w xs = xs"
  by (simp add: put_be16_def list_update_beyond)

lemma go_slice_put_be16 [slice_simps]:
  "j \<le> i \<or> i + 1 < k \<Longrightarrow> go_slice (put_be16 i w xs) k j = go_slice xs k j"
  by (rule nth_equalityI) (auto simp: length_go_slice nth_go_slice nth_put_be16)

lemma be16_bytes [byte_codec]:
  "get_be16 (ucast (drop_bit 8 w) # ucast w # r) = w"
  unfolding get_be16_def by (rule bit_word_eqI) (auto simp: bit_simps)

lemma get_be16_bytes [byte_codec]:
  "ucast (drop_bit 8 (get_be16 (a # b # r))) = a" "ucast (get_be16 (a # b # r)) = b"
  unfolding get_be16_def
  by (rule bit_word_eqI, auto simp: bit_simps dest: bit_imp_le_length)+

lemma take_bit_snoc_byte:
  fixes w :: "'a :: len word"
  shows "push_bit n (take_bit 8 (drop_bit n w)) OR take_bit n w = take_bit (n + 8) w"
  by (rule bit_word_eqI) (auto simp: bit_simps)

lemma take_bit_first_byte: "ucast (ucast (w :: 'a :: len word) :: u8) = take_bit 8 w"
  by (rule bit_word_eqI) (auto simp: bit_simps)

lemma word32_bytes:
  fixes w :: u32
  shows "push_bit 24 (ucast (ucast (drop_bit 24 w) :: u8)) OR (push_bit 16 (ucast (ucast (drop_bit 16 w) :: u8))
    OR (push_bit 8 (ucast (ucast (drop_bit 8 w) :: u8)) OR ucast (ucast w :: u8))) = w"
  by (simp add: take_bit_first_byte take_bit_snoc_byte take_bit_word_eq_self)

lemma word64_bytes:
  fixes w :: u64
  shows "push_bit 56 (ucast (ucast (drop_bit 56 w) :: u8)) OR (push_bit 48 (ucast (ucast (drop_bit 48 w) :: u8))
    OR (push_bit 40 (ucast (ucast (drop_bit 40 w) :: u8)) OR (push_bit 32 (ucast (ucast (drop_bit 32 w) :: u8))
    OR (push_bit 24 (ucast (ucast (drop_bit 24 w) :: u8)) OR (push_bit 16 (ucast (ucast (drop_bit 16 w) :: u8))
    OR (push_bit 8 (ucast (ucast (drop_bit 8 w) :: u8)) OR ucast (ucast w :: u8))))))) = w"
  by (simp add: take_bit_first_byte take_bit_snoc_byte take_bit_word_eq_self)

lemma be32_bytes [byte_codec]:
  "get_be32 (ucast (drop_bit 24 w) # ucast (drop_bit 16 w) # ucast (drop_bit 8 w) # ucast w # r) = w"
  using word32_bytes [of w] by (simp add: get_be32_def or.assoc)

lemma be64_bytes [byte_codec]: "get_be64 (be64 w @ r) = w"
  using word64_bytes [of w] by (simp add: get_be64_def be64_def or.assoc)

lemma le16_bytes [byte_codec]: "get_le16 (le16 w @ r) = w"
  unfolding get_le16_def le16_def by (rule bit_word_eqI) (auto simp: bit_simps)

lemma le32_bytes [byte_codec]: "get_le32 (le32 w @ r) = w"
  using word32_bytes [of w] by (simp add: get_le32_def le32_def ac_simps)

lemma le64_bytes [byte_codec]: "get_le64 (le64 w @ r) = w"
  using word64_bytes [of w] by (simp add: get_le64_def le64_def ac_simps)

lemma get_be16_be16 [byte_codec]: "get_be16 (be16 w @ r) = w"
  by (simp add: be16_def be16_bytes)

lemma get_be32_be32 [byte_codec]: "get_be32 (be32 w @ r) = w"
  by (simp add: be32_def be32_bytes)

lemma be16_get_be16 [byte_codec]: "be16 (get_be16 (a # b # r)) = [a, b]"
  by (simp add: be16_def get_be16_bytes)

lemma unat_u8_less: "unat (a :: u8) < 256"
  using unsigned_less [of a] by simp

lemma unat_u16_less: "unat (a :: u16) < 65536"
  using unsigned_less [of a] by simp

lemma unat_get_be16: "unat (get_be16 (a # b # r)) = 256 * unat a + unat b"
proof -
  have "push_bit 8 (ucast a) AND ucast b = (0 :: u16)"
    by (rule bit_word_eqI) (auto simp: bit_simps dest: bit_imp_le_length)
  then have "get_be16 (a # b # r) = push_bit 8 (ucast a) + ucast b"
    using word_plus_and_or [of "push_bit 8 (ucast a)" "ucast b :: u16"]
    by (simp add: get_be16_def)
  also have "\<dots> = of_nat (256 * unat a + unat b)"
    by (simp add: push_bit_eq_mult)
  finally have "unat (get_be16 (a # b # r)) = unat (of_nat (256 * unat a + unat b) :: u16)"
    by (rule arg_cong)
  also have "\<dots> = (256 * unat a + unat b) mod 65536"
    by (simp only: unat_of_nat) simp
  finally show ?thesis
    using unat_u8_less [of a] unat_u8_less [of b] by simp
qed

subsection \<open>The contract of a message codec\<close>

text \<open>
  A message type of the protocol packages comes as a build function and a parse
  function. What their callers rely on is that a well-formed message can be built
  and that parsing the built bytes gives the message back; that the wire form
  determines the message follows.
\<close>

locale codec =
  fixes build :: "'a \<Rightarrow> bytes go_result"
    and parse :: "bytes \<Rightarrow> 'a go_result"
    and wf :: "'a \<Rightarrow> bool"
  assumes build_defined: "wf x \<Longrightarrow> \<exists>bs. build x = Ok bs"
    and parse_build: "wf x \<Longrightarrow> build x = Ok bs \<Longrightarrow> parse bs = Ok x"
begin

lemma build_parse_roundtrip: "wf x \<Longrightarrow> \<exists>bs. build x = Ok bs \<and> parse bs = Ok x"
  using build_defined parse_build by blast

lemma build_inject: "wf x \<Longrightarrow> wf y \<Longrightarrow> build x = build y \<Longrightarrow> x = y"
  using build_parse_roundtrip parse_build by (metis Inr_inject)

end

end
