(* ===== verification/Proto_Utils.thy ===== *)
theory Proto_Utils
  imports Halo_Prelude
begin

text \<open>
  The shared helpers of the protocol package, \<^verbatim>\<open>src/protocol/utils.go\<close>: the fixed-size
  address arrays, the internet checksum, the conversion between an IPv4 address and its
  32-bit integer, and the two address parsers. The checksum loops keep the 32-bit
  accumulator of the code; the lemmas give its value as a sum of 16-bit words modulo
  65535, which is what every packet theory builds on.
\<close>

subsection \<open>Addresses\<close>

datatype MacAddr = MacAddr u8 u8 u8 u8 u8 u8

datatype Ipv4Addr = Ipv4Addr u8 u8 u8 u8

primrec mac_bytes :: "MacAddr \<Rightarrow> bytes" where
  "mac_bytes (MacAddr a b c d e f) = [a, b, c, d, e, f]"

primrec ip_bytes :: "Ipv4Addr \<Rightarrow> bytes" where
  "ip_bytes (Ipv4Addr a b c d) = [a, b, c, d]"

definition mac_of_bytes :: "bytes \<Rightarrow> MacAddr" where
  "mac_of_bytes b = MacAddr (b ! 0) (b ! 1) (b ! 2) (b ! 3) (b ! 4) (b ! 5)"

definition ip_of_bytes :: "bytes \<Rightarrow> Ipv4Addr" where
  "ip_of_bytes b = Ipv4Addr (b ! 0) (b ! 1) (b ! 2) (b ! 3)"

primrec IpAddrToU :: "Ipv4Addr \<Rightarrow> u32" where
  "IpAddrToU (Ipv4Addr a b c d) =
     0 OR push_bit 24 (ucast a) OR push_bit 16 (ucast b) OR push_bit 8 (ucast c) OR ucast d"

definition UToIpAddr :: "u32 \<Rightarrow> Ipv4Addr" where
  "UToIpAddr u = Ipv4Addr (ucast (drop_bit 24 u)) (ucast (drop_bit 16 u)) (ucast (drop_bit 8 u)) (ucast u)"

subsection \<open>The internet checksum\<close>

text \<open>The accumulation loop, two bytes at a time, with the odd last byte in the high half.\<close>

fun sum_words :: "u32 \<Rightarrow> bytes \<Rightarrow> u32" where
  "sum_words acc (a # b # r) = sum_words (acc + (push_bit 8 (ucast a) + ucast b)) r"
| "sum_words acc [a] = acc + push_bit 8 (ucast a)"
| "sum_words acc [] = acc"

text \<open>One round of the folding loop makes the accumulator smaller.\<close>

lemma unat_fold_round:
  fixes w :: u32
  shows "unat ((w AND 0xffff) + drop_bit 16 w) = unat w mod 65536 + unat w div 65536"
proof -
  have m: "w AND 0xffff = take_bit 16 w"
    using take_bit_eq_mask [of 16 w] by (simp add: mask_eq_exp_minus_1)
  have a: "unat (take_bit 16 w) = unat w mod 65536"
    by (simp only: unsigned_take_bit_eq) (simp add: take_bit_eq_mod)
  have b: "unat (drop_bit 16 w) = unat w div 65536"
    by (simp only: unat_drop_bit_eq) (simp add: drop_bit_eq_div)
  have "unat w < 65536 * 65536"
    using unsigned_less [of w] by simp
  then have "unat w div 65536 < 65536"
    by (simp add: less_mult_imp_div_less)
  moreover have "unat w mod 65536 < 65536"
    by simp
  ultimately show ?thesis
    unfolding m by (subst unat_plus_if') (simp only: a b, simp)
qed

lemma drop_16_zero: "drop_bit 16 (w :: u32) = 0 \<longleftrightarrow> unat w < 65536"
proof -
  have "drop_bit 16 w = 0 \<longleftrightarrow> unat (drop_bit 16 w) = 0"
    by (simp add: unat_eq_zero)
  also have "unat (drop_bit 16 w) = unat w div 65536"
    by (simp only: unat_drop_bit_eq) (simp add: drop_bit_eq_div)
  finally show ?thesis
    by (simp add: div_eq_0_iff)
qed

function fold_carry :: "u32 \<Rightarrow> u32" where
  "fold_carry acc =
     (if drop_bit 16 acc \<noteq> 0 then fold_carry ((acc AND 0xffff) + drop_bit 16 acc) else acc)"
  by pat_completeness auto

termination fold_carry
proof (relation "measure unat")
  fix w :: u32
  assume "drop_bit 16 w \<noteq> 0"
  then have "65536 \<le> unat w"
    by (simp add: drop_16_zero)
  then have "0 < unat w div 65536"
    by (simp add: div_greater_zero_iff)
  then have "unat w mod 65536 + unat w div 65536 < unat w"
    using mult_div_mod_eq [of 65536 "unat w"] by linarith
  then show "((w AND 0xffff) + drop_bit 16 w, w) \<in> measure unat"
    by (simp only: in_measure unat_fold_round)
qed simp

declare fold_carry.simps [simp del]

definition GetCheckSum :: "bytes \<Rightarrow> u16" where
  "GetCheckSum data = ucast (NOT (fold_carry (sum_words 0 data)))"

subsection \<open>The address parsers\<close>

text \<open>
  What the parsers use of the Go library: \<^verbatim>\<open>strings.Split\<close> with a one-byte separator and
  \<^verbatim>\<open>strconv.ParseUint\<close> with an explicit base and width, which accepts one or more digits
  of the base, reports the first invalid byte as a syntax error and a value above the
  maximum as a range error.
\<close>

datatype num_error = ErrSyntax | ErrRange

datatype addr_error = Components string | NumError num_error string

fun split_on :: "char \<Rightarrow> string \<Rightarrow> string list" where
  "split_on sep [] = [[]]"
| "split_on sep (c # s) =
     (if c = sep then [] # split_on sep s
      else (case split_on sep s of [] \<Rightarrow> [[c]] | p # ps \<Rightarrow> (c # p) # ps))"

definition digit_val :: "char \<Rightarrow> nat option" where
  "digit_val c =
     (let n = of_char c :: nat; l = n OR 32 in
      if 48 \<le> n \<and> n \<le> 57 then Some (n - 48)
      else if 97 \<le> l \<and> l \<le> 122 then Some (l - 97 + 10)
      else None)"

fun parse_digits :: "nat \<Rightarrow> nat \<Rightarrow> nat \<Rightarrow> string \<Rightarrow> num_error + nat" where
  "parse_digits base maxVal n [] = Ok n"
| "parse_digits base maxVal n (c # s) =
     (case digit_val c of
        None \<Rightarrow> Err ErrSyntax
      | Some d \<Rightarrow>
          if base \<le> d then Err ErrSyntax
          else if maxVal < n * base + d then Err ErrRange
          else parse_digits base maxVal (n * base + d) s)"

definition ParseUint :: "string \<Rightarrow> nat \<Rightarrow> nat \<Rightarrow> num_error + nat" where
  "ParseUint s base bitSize =
     (if s = [] then Err ErrSyntax else parse_digits base (2 ^ bitSize - 1) 0 s)"

fun parse_components :: "nat \<Rightarrow> string list \<Rightarrow> addr_error + bytes" where
  "parse_components base [] = Ok []"
| "parse_components base (s # ss) =
     (case ParseUint s base 8 of
        Inl e \<Rightarrow> Err (NumError e s)
      | Inr v \<Rightarrow> (case parse_components base ss of
           Inl e \<Rightarrow> Err e
         | Inr vs \<Rightarrow> Ok (of_nat v # vs)))"

definition ParseMacAddr :: "string \<Rightarrow> addr_error + MacAddr" where
  "ParseMacAddr s =
     (let sp = split_on CHR '':'' s in
      if length sp \<noteq> 6 then Err (Components ''mac address must have 6 components'')
      else (case parse_components 16 sp of
              Inl e \<Rightarrow> Err e
            | Inr vs \<Rightarrow> Ok (mac_of_bytes vs)))"

definition ParseIpAddr :: "string \<Rightarrow> addr_error + Ipv4Addr" where
  "ParseIpAddr s =
     (let sp = split_on CHR ''.'' s in
      if length sp \<noteq> 4 then Err (Components ''ipv4 address must have 4 components'')
      else (case parse_components 10 sp of
              Inl e \<Rightarrow> Err e
            | Inr vs \<Rightarrow> Ok (ip_of_bytes vs)))"

subsection \<open>Facts on addresses\<close>

lemma length_mac_bytes [simp]: "length (mac_bytes m) = 6"
  by (cases m) simp

lemma length_ip_bytes [simp]: "length (ip_bytes a) = 4"
  by (cases a) simp

lemma mac_of_bytes_bytes [simp]: "mac_of_bytes (mac_bytes m @ r) = m"
  by (cases m) (simp add: mac_of_bytes_def)

lemma ip_of_bytes_bytes [simp]: "ip_of_bytes (ip_bytes a @ r) = a"
  by (cases a) (simp add: ip_of_bytes_def)

lemma mac_of_bytes_bytes_Nil [simp]: "mac_of_bytes (mac_bytes m) = m"
  using mac_of_bytes_bytes [of m "[]"] by simp

lemma ip_of_bytes_bytes_Nil [simp]: "ip_of_bytes (ip_bytes a) = a"
  using ip_of_bytes_bytes [of a "[]"] by simp

lemma IpAddrToU_get_be32: "IpAddrToU a = get_be32 (ip_bytes a)"
  by (cases a) (simp add: get_be32_def)

lemma IpAddrToU_UToIpAddr [simp]: "IpAddrToU (UToIpAddr u) = u"
  by (simp add: UToIpAddr_def IpAddrToU_get_be32 be32_bytes)

lemma UToIpAddr_IpAddrToU [simp]: "UToIpAddr (IpAddrToU a) = a"
proof (cases a)
  case (Ipv4Addr p q r t)
  have "ucast (drop_bit 24 (IpAddrToU a)) = p" "ucast (drop_bit 16 (IpAddrToU a)) = q"
    "ucast (drop_bit 8 (IpAddrToU a)) = r" "ucast (IpAddrToU a) = t"
    unfolding Ipv4Addr IpAddrToU.simps
    by (rule bit_word_eqI, auto simp: bit_simps dest: bit_imp_le_length)+
  then show ?thesis
    by (simp add: UToIpAddr_def Ipv4Addr)
qed

lemma IpAddrToU_inject [simp]: "IpAddrToU a = IpAddrToU b \<longleftrightarrow> a = b"
  by (metis UToIpAddr_IpAddrToU)

subsection \<open>The value of the checksum\<close>

text \<open>The reference: the sum of the big-endian 16-bit words as a natural number, and its
  one's-complement reduction to 16 bits.\<close>

fun words_sum :: "bytes \<Rightarrow> nat" where
  "words_sum (a # b # r) = 256 * unat a + unat b + words_sum r"
| "words_sum [a] = 256 * unat a"
| "words_sum [] = 0"

definition ones_sum :: "nat \<Rightarrow> nat" where
  "ones_sum s = (if s = 0 then 0 else if s mod 65535 = 0 then 65535 else s mod 65535)"

lemma word16_le: "256 * unat (a :: u8) + unat (b :: u8) \<le> 65535"
proof -
  have "unat a < 256" "unat b < 256"
    by (rule unat_u8_less)+
  then show ?thesis
    by linarith
qed

lemma words_sum_bound: "words_sum d \<le> 65535 * ((length d + 1) div 2)"
proof (induction d rule: words_sum.induct)
  case (1 a b r)
  then show ?case
    using word16_le [of a b] by simp
next
  case (2 a)
  then show ?case
    using word16_le [of a 0] by simp
qed simp

lemma words_sum_append: "even (length p) \<Longrightarrow> words_sum (p @ q) = words_sum p + words_sum q"
  by (induction p rule: words_sum.induct) auto

lemma words_sum_be16: "words_sum (be16 w) = unat w"
proof -
  have "unat w = unat (get_be16 (be16 w @ []))"
    by (simp only: get_be16_be16)
  then show ?thesis
    by (simp add: be16_def unat_get_be16)
qed

lemma u32_of_word16: "push_bit 8 (ucast (a :: u8)) + ucast (b :: u8) = (of_nat (256 * unat a + unat b) :: u32)"
  by (simp add: push_bit_eq_mult)

lemma sum_words_eq: "sum_words s d = s + of_nat (words_sum d)"
proof (induction s d rule: sum_words.induct)
  case (1 acc a b r)
  then show ?case
    by (simp add: u32_of_word16 del: of_nat_add of_nat_mult) (simp add: algebra_simps)
next
  case (2 acc a)
  then show ?case
    by (simp add: push_bit_eq_mult)
qed simp

lemma unat_sum_words: "length d \<le> 131072 \<Longrightarrow> unat (sum_words 0 d) = words_sum d"
proof -
  assume "length d \<le> 131072"
  then have "(length d + 1) div 2 \<le> 65536"
    by linarith
  then have "words_sum d \<le> 65535 * 65536"
    using words_sum_bound [of d] by linarith
  then have "words_sum d < 2 ^ LENGTH(32)"
    by simp
  then show ?thesis
    by (simp only: sum_words_eq add_0 unat_of_nat mod_less)
qed

lemma ones_sum_fold: "ones_sum (s mod 65536 + s div 65536) = ones_sum s"
proof -
  have "s = 65536 * (s div 65536) + s mod 65536"
    by simp
  then have "s = (s mod 65536 + s div 65536) + 65535 * (s div 65536)"
    by linarith
  then have m: "(s mod 65536 + s div 65536) mod 65535 = s mod 65535"
    by (metis mod_mult_self2)
  have "s mod 65536 + s div 65536 = 0 \<longleftrightarrow> s = 0"
    by (metis add_is_0 div_0 mod_0 mult_0_right mult_div_mod_eq)
  then show ?thesis
    by (simp add: ones_sum_def m)
qed

lemma ones_sum_small: "s < 65536 \<Longrightarrow> ones_sum s = s"
  by (cases "s = 65535") (auto simp: ones_sum_def)

lemma ones_sum_le: "ones_sum s \<le> 65535"
  by (simp add: ones_sum_def less_imp_le)

lemma unat_fold_carry: "unat (fold_carry w) = ones_sum (unat w)"
proof (induction w rule: fold_carry.induct)
  case (1 w)
  show ?case
  proof (cases "drop_bit 16 w = 0")
    case True
    then show ?thesis
      by (simp add: fold_carry.simps [of w] ones_sum_small drop_16_zero)
  next
    case False
    then have "unat (fold_carry w) = ones_sum (unat ((w AND 0xffff) + drop_bit 16 w))"
      using 1 by (simp add: fold_carry.simps [of w])
    then show ?thesis
      by (simp only: unat_fold_round ones_sum_fold)
  qed
qed

lemma unat_complement_low16:
  fixes r :: u32
  assumes "unat r \<le> 65535"
  shows "unat (ucast (NOT r) :: u16) = 65535 - unat r"
proof -
  have "(ucast (NOT r) :: u16) = NOT (ucast r)"
    by (rule bit_word_eqI) (auto simp: bit_simps)
  moreover have "unat (NOT (ucast r :: u16)) = 65535 - unat (ucast r :: u16)"
    using unat_sub [of "ucast r" "-1 :: u16"]
    by (simp add: minus_diff_commute not_eq_complement mask_eq_exp_minus_1 unsigned_minus_1_eq_mask)
  moreover have "unat (ucast r :: u16) = unat r"
    using assms by (simp add: unsigned_ucast_eq take_bit_nat_eq_self)
  ultimately show ?thesis
    by simp
qed

lemma unat_GetCheckSum:
  "length d \<le> 131072 \<Longrightarrow> unat (GetCheckSum d) = 65535 - ones_sum (words_sum d)"
  by (simp add: GetCheckSum_def unat_complement_low16 unat_fold_carry ones_sum_le unat_sum_words)

lemma GetCheckSum_zero_iff:
  assumes "length d \<le> 131072"
  shows "GetCheckSum d = 0 \<longleftrightarrow> 0 < words_sum d \<and> 65535 dvd words_sum d"
proof -
  have "GetCheckSum d = 0 \<longleftrightarrow> 65535 - ones_sum (words_sum d) = 0"
    using unat_GetCheckSum [OF assms] by (simp add: unat_eq_zero [symmetric])
  also have "\<dots> \<longleftrightarrow> ones_sum (words_sum d) = 65535"
    using ones_sum_le [of "words_sum d"] by linarith
  also have "\<dots> \<longleftrightarrow> 0 < words_sum d \<and> 65535 dvd words_sum d"
    using mod_less_divisor [of 65535 "words_sum d"] by (auto simp: ones_sum_def mod_eq_0_iff_dvd)
  finally show ?thesis .
qed

text \<open>A message carries a valid checksum once the sum over it with a zeroed field is stored
  in that field, at any even offset.\<close>

lemma checksum_insert_valid:
  assumes "even (length p)" "length p + 2 + length q \<le> 131072"
  shows "GetCheckSum (p @ be16 (GetCheckSum (p @ 0 # 0 # q)) @ q) = 0"
proof -
  let ?s = "words_sum p + words_sum q"
  have z: "unat (GetCheckSum (p @ 0 # 0 # q)) = 65535 - ones_sum ?s"
    using assms by (simp add: unat_GetCheckSum words_sum_append)
  have b: "even (length (be16 w))" for w
    by (simp add: be16_def)
  have t: "words_sum (p @ be16 (GetCheckSum (p @ 0 # 0 # q)) @ q) = ?s + (65535 - ones_sum ?s)"
    using assms by (simp add: words_sum_append b words_sum_be16 z)
  have d: "0 < s + (65535 - ones_sum s) \<and> 65535 dvd s + (65535 - ones_sum s)" for s
  proof (cases "s mod 65535 = 0")
    case True
    then show ?thesis
      by (auto simp: ones_sum_def mod_eq_0_iff_dvd)
  next
    case False
    have "s + (65535 - s mod 65535) = 65535 * (s div 65535) + 65535"
      using mult_div_mod_eq [of 65535 s] mod_less_divisor [of 65535 s] by linarith
    then have "65535 dvd s + (65535 - s mod 65535)"
      by simp
    then show ?thesis
      using False by (auto simp: ones_sum_def)
  qed
  have "length (p @ be16 (GetCheckSum (p @ 0 # 0 # q)) @ q) \<le> 131072"
    using assms by (simp add: be16_def)
  then show ?thesis
    using d [of ?s] by (simp only: GetCheckSum_zero_iff t)
qed

subsection \<open>Writing a checksum field in place\<close>

lemma nth_pair_split:
  "i + 1 < length xs \<Longrightarrow> xs = take i xs @ xs ! i # xs ! (i + 1) # drop (i + 2) xs"
  by (metis Suc_eq_plus1 Suc_lessD add_2_eq_Suc' id_take_nth_drop Cons_nth_drop_Suc)

lemma put_be16_split:
  assumes "i + 1 < length xs"
  shows "put_be16 i w xs = take i xs @ be16 w @ drop (i + 2) xs"
proof -
  have "put_be16 i w xs = put_be16 i w (take i xs @ xs ! i # xs ! (i + 1) # drop (i + 2) xs)"
    using nth_pair_split [OF assms] by simp
  also have "\<dots> = take i xs @ be16 w @ drop (i + 2) xs"
    using assms by (simp add: put_be16_def be16_def list_update_append)
  finally show ?thesis .
qed

lemma checksum_put_valid:
  assumes "even (length p)" "even i" "i + 1 < length xs" "length p + length xs \<le> 131072"
  shows "GetCheckSum (p @ put_be16 i (GetCheckSum (p @ put_be16 i 0 xs)) xs) = 0"
proof -
  have l: "even (length (p @ take i xs))"
    using assms by simp
  have z: "p @ put_be16 i 0 xs = (p @ take i xs) @ 0 # 0 # drop (i + 2) xs"
    using assms by (simp add: put_be16_split be16_def)
  show ?thesis
    unfolding z using checksum_insert_valid [OF l, of "drop (i + 2) xs"] assms
    by (simp add: put_be16_split)
qed

text \<open>A single damaged 16-bit word is noticed, unless all ones became all zeros or the
  other way round, the two representations of zero in one's complement.\<close>

lemma checksum_detects_word:
  assumes "even (length p)" "length p + 2 + length q \<le> 131072"
    and "GetCheckSum (p @ be16 v @ q) = 0" "GetCheckSum (p @ be16 w @ q) = 0"
  shows "v = w \<or> {v, w} = {0, 0xffff}"
proof -
  have b: "even (length (be16 x))" "length (be16 x) = 2" for x
    by (simp_all add: be16_def)
  have "65535 dvd words_sum p + unat x + words_sum q" if "GetCheckSum (p @ be16 x @ q) = 0" for x
  proof -
    have "length (p @ be16 x @ q) \<le> 131072"
      using assms by (simp add: b)
    then have "65535 dvd words_sum (p @ be16 x @ q)"
      using that by (simp only: GetCheckSum_zero_iff)
    then show ?thesis
      using assms by (simp add: words_sum_append b words_sum_be16 add.assoc)
  qed
  from this [OF assms(3)] this [OF assms(4)] obtain k l where
    "words_sum p + unat v + words_sum q = 65535 * k" "words_sum p + unat w + words_sum q = 65535 * l"
    by (elim dvdE)
  moreover have "unat v < 65536" "unat w < 65536"
    by (rule unat_u16_less)+
  ultimately have "unat v = unat w \<or> (unat v = 65535 \<and> unat w = 0) \<or> (unat v = 0 \<and> unat w = 65535)"
    by (cases k l rule: linorder_cases) linarith+
  moreover have "unat (0xffff :: u16) = 65535"
    by simp
  ultimately show ?thesis
    by (auto simp only: word_unat_eq_iff unat_0)
qed

subsection \<open>Reading back printed addresses\<close>

text \<open>The usual text forms: decimal without leading zeros, two lower-case hex digits.\<close>

definition digit_char :: "nat \<Rightarrow> char" where
  "digit_char d = (if d < 10 then char_of (48 + d) else char_of (87 + d))"

fun dec_str :: "nat \<Rightarrow> string" where
  "dec_str n = (if n < 10 then [digit_char n] else dec_str (n div 10) @ [digit_char (n mod 10)])"

declare dec_str.simps [simp del]

definition hex_str :: "u8 \<Rightarrow> string" where
  "hex_str b = [digit_char (unat b div 16), digit_char (unat b mod 16)]"

primrec ip_str :: "Ipv4Addr \<Rightarrow> string" where
  "ip_str (Ipv4Addr a b c d) =
     dec_str (unat a) @ ''.'' @ dec_str (unat b) @ ''.'' @ dec_str (unat c) @ ''.'' @ dec_str (unat d)"

primrec mac_str :: "MacAddr \<Rightarrow> string" where
  "mac_str (MacAddr a b c d e f) =
     hex_str a @ '':'' @ hex_str b @ '':'' @ hex_str c @ '':'' @ hex_str d @ '':'' @ hex_str e @ '':'' @ hex_str f"

lemma split_on_ne: "split_on sep s \<noteq> []"
  by (induction s) (auto split: list.splits)

lemma split_on_field: "sep \<notin> set s \<Longrightarrow> split_on sep (s @ sep # t) = s # split_on sep t"
  by (induction s) (auto split: list.splits)

lemma split_on_last: "sep \<notin> set s \<Longrightarrow> split_on sep s = [s]"
  by (induction s) auto

lemma upto_16: "d < 16 \<Longrightarrow> d \<in> {0, 1, 2, 3, 4, 5, 6, 7, 8, 9, 10, 11, 12, 13, 14, 15 :: nat}"
  by simp presburger

lemma digit_val_char: "d < 16 \<Longrightarrow> digit_val (digit_char d) = Some d"
  by (drule upto_16) (auto simp: digit_val_def digit_char_def)

lemma digit_char_sep: "d < 16 \<Longrightarrow> digit_char d \<noteq> CHR ''.'' \<and> digit_char d \<noteq> CHR '':''"
  by (drule upto_16) (auto simp: digit_char_def char_of_eq_iff)

lemma parse_digits_append:
  "parse_digits base m n (s @ t) =
     (case parse_digits base m n s of Inl e \<Rightarrow> Inl e | Inr k \<Rightarrow> parse_digits base m k t)"
  by (induction base m n s rule: parse_digits.induct) (auto split: option.splits)

lemma parse_dec_str: "n \<le> m \<Longrightarrow> parse_digits 10 m 0 (dec_str n) = Ok n"
proof (induction n rule: dec_str.induct)
  case (1 n)
  show ?case
  proof (cases "n < 10")
    case True
    then show ?thesis
      using 1 by (subst dec_str.simps) (simp add: digit_val_char)
  next
    case False
    then have "parse_digits 10 m 0 (dec_str (n div 10)) = Ok (n div 10)"
      using 1 by simp
    then show ?thesis
      using 1 False by (subst dec_str.simps) (simp add: parse_digits_append digit_val_char)
  qed
qed

lemma dec_str_ne: "dec_str n \<noteq> []"
  by (subst dec_str.simps) simp

lemma dec_str_sep: "CHR ''.'' \<notin> set (dec_str n)"
proof (induction n rule: dec_str.induct)
  case (1 n)
  have "digit_char k \<noteq> CHR ''.''" if "k < 10" for k
    using digit_char_sep [of k] that by simp
  then show ?case
    using 1 by (subst dec_str.simps) (auto dest: sym)
qed

lemma ParseUint_dec: "ParseUint (dec_str (unat (b :: u8))) 10 8 = Ok (unat b)"
proof -
  have "unat b < 256"
    by (rule unat_u8_less)
  then show ?thesis
    by (simp add: ParseUint_def dec_str_ne parse_dec_str)
qed

lemma ParseUint_hex: "ParseUint (hex_str b) 16 8 = Ok (unat b)"
proof -
  have "unat b < 256"
    by (rule unat_u8_less)
  then have "unat b div 16 < 16" "unat b div 16 \<le> 255"
    by auto
  then show ?thesis
    using \<open>unat b < 256\<close> by (simp add: ParseUint_def hex_str_def digit_val_char)
qed

lemma hex_str_sep: "CHR '':'' \<notin> set (hex_str b)"
proof -
  have "unat b < 256"
    by (rule unat_u8_less)
  then have "unat b div 16 < 16" "unat b mod 16 < 16"
    by auto
  then show ?thesis
    using digit_char_sep [of "unat b div 16"] digit_char_sep [of "unat b mod 16"]
    by (auto simp: hex_str_def)
qed

lemma ParseIpAddr_str: "ParseIpAddr (ip_str a) = Ok a"
  by (cases a) (simp add: ParseIpAddr_def split_on_field split_on_last dec_str_sep ParseUint_dec
      ip_of_bytes_def)

lemma ParseMacAddr_str: "ParseMacAddr (mac_str m) = Ok m"
  by (cases m) (simp add: ParseMacAddr_def split_on_field split_on_last hex_str_sep ParseUint_hex
      mac_of_bytes_def)

subsection \<open>Properties\<close>

text \<open>C13: For every buffer of up to 128 KiB the checksum loop of \<^verbatim>\<open>GetCheckSum\<close>, with its 32-bit
  accumulator and carry folding, yields the Internet checksum: the complement of the
  ones'-complement sum of the big-endian 16-bit words, an odd last byte filled up with zero.\<close>

theorem checksum_closed_form:
  "length d \<le> 131072 \<Longrightarrow> unat (GetCheckSum d) = 65535 - ones_sum (words_sum d)"
  by (rule unat_GetCheckSum)

theorem checksum_closed_form_witness:
  "unat (GetCheckSum [0x45, 0, 0xff]) = 65535 - ones_sum (words_sum [0x45, 0, 0xff :: u8])"
  using checksum_closed_form [of "[0x45, 0, 0xff]"] by simp

text \<open>C14: A buffer whose embedded checksum verifies no longer verifies after any change of one
  aligned 16-bit word, except the exchange of the two representations of zero.\<close>

theorem checksum_detects_change:
  assumes "even (length p)" "length p + 2 + length q \<le> 131072"
    and "GetCheckSum (p @ be16 v @ q) = 0" "v \<noteq> w" "{v, w} \<noteq> {0, 0xffff}"
  shows "GetCheckSum (p @ be16 w @ q) \<noteq> 0"
  using checksum_detects_word [OF assms(1,2,3), of w] assms(4,5) by blast

theorem checksum_detects_change_witness:
  "GetCheckSum ([] @ be16 0x1234 @ [0xed, 0xcb]) = 0 \<and> GetCheckSum ([] @ be16 0x1235 @ [0xed, 0xcb]) \<noteq> 0"
proof -
  have "GetCheckSum ([] @ be16 0x1234 @ [0xed, 0xcb]) = 0"
    by (subst GetCheckSum_zero_iff) (simp_all add: be16_def)
  moreover have "{0x1234, 0x1235} \<noteq> {0, 0xffff :: u16}"
    by (simp add: doubleton_eq_iff)
  ultimately show ?thesis
    using checksum_detects_change [of "[]" "[0xed, 0xcb]" "0x1234" "0x1235"] by simp
qed

text \<open>C24: Printing an address and parsing the text gives the address back, for dotted IPv4
  addresses and colon-separated MAC addresses, and the 32-bit integer form of an IPv4
  address is a bijection.\<close>

theorem address_text_roundtrip:
  "ParseIpAddr (ip_str a) = Ok a \<and> ParseMacAddr (mac_str m) = Ok m \<and>
   UToIpAddr (IpAddrToU a) = a \<and> IpAddrToU (UToIpAddr u) = u"
  by (simp add: ParseIpAddr_str ParseMacAddr_str)

end
