(* ===== verification/Link_Packets.thy ===== *)
theory Link_Packets
  imports Proto_Utils
begin

text \<open>
  The link layer of the protocol package: Ethernet frames, \<^verbatim>\<open>src/protocol/ethernet.go\<close>, and
  ARP packets, \<^verbatim>\<open>src/protocol/arp.go\<close>. A build function appends to the buffer it is given, as
  the code does; the buffer is empty in every call the engine makes. The lemmas show
  that the parsers invert the builders, with the padding of short frames, and that both
  packets are determined by their bytes.
\<close>

subsection \<open>Ethernet frames\<close>

definition IEEE_802_3 :: u16 where "IEEE_802_3 = 0x05dc"
definition ETH_PROTO_IPV4 :: u16 where "ETH_PROTO_IPV4 = 0x0800"
definition ETH_PROTO_ARP :: u16 where "ETH_PROTO_ARP = 0x0806"
definition ETH_PROTO_IPV6 :: u16 where "ETH_PROTO_IPV6 = 0x86dd"

definition BROADCAST_MAC_ADDR :: MacAddr where
  "BROADCAST_MAC_ADDR = MacAddr 0xff 0xff 0xff 0xff 0xff 0xff"

record EthFrm =
  eth_Payload :: bytes
  eth_DstMac :: MacAddr
  eth_SrcMac :: MacAddr
  eth_EthProto :: u16

definition ParseEthFrm :: "bytes \<Rightarrow> EthFrm go_result" where
  "ParseEthFrm frm =
     (if length frm < 42 \<or> 1514 < length frm
      then Err ''ethernet frame len must >= 42 and <= 1514 bytes''
      else
        let proto = get_be16 [frm ! 12, frm ! 13] in
        if proto = IEEE_802_3 \<or> proto = ETH_PROTO_IPV4 \<or> proto = ETH_PROTO_ARP \<or> proto = ETH_PROTO_IPV6
        then Ok \<lparr>eth_Payload = drop 14 frm, eth_DstMac = mac_of_bytes (go_slice frm 0 6),
                 eth_SrcMac = mac_of_bytes (go_slice frm 6 12), eth_EthProto = proto\<rparr>
        else Err ''unknown ethernet protocol'')"

definition BuildEthFrm :: "bytes \<Rightarrow> EthFrm \<Rightarrow> bytes go_result" where
  "BuildEthFrm frm packet =
     (if 1500 < length (eth_Payload packet) then Err ''payload len must <= 1500 bytes''
      else
        let frm = frm @ mac_bytes (eth_DstMac packet);
            frm = frm @ mac_bytes (eth_SrcMac packet);
            frm = frm @ [ucast (drop_bit 8 (eth_EthProto packet)), ucast (eth_EthProto packet)];
            frm = frm @ eth_Payload packet
        in Ok (frm @ replicate (60 - length frm) 0))"

subsection \<open>ARP packets\<close>

definition ARP_REQUEST :: u16 where "ARP_REQUEST = 0x0001"
definition ARP_REPLY :: u16 where "ARP_REPLY = 0x0002"

record ArpPkt =
  arp_Option :: u16
  arp_SrcMac :: MacAddr
  arp_SrcAddr :: Ipv4Addr
  arp_DstMac :: MacAddr
  arp_DstAddr :: Ipv4Addr

definition ParseArpPkt :: "bytes \<Rightarrow> ArpPkt go_result" where
  "ParseArpPkt pkt =
     (if length pkt < 28 then Err ''arp packet len < 28 bytes''
      else
        let opt = get_be16 [pkt ! 6, pkt ! 7] in
        if opt = ARP_REQUEST \<or> opt = ARP_REPLY
        then Ok \<lparr>arp_Option = opt, arp_SrcMac = mac_of_bytes (go_slice pkt 8 14),
                 arp_SrcAddr = ip_of_bytes (go_slice pkt 14 18),
                 arp_DstMac = mac_of_bytes (go_slice pkt 18 24),
                 arp_DstAddr = ip_of_bytes (go_slice pkt 24 28)\<rparr>
        else Err ''unknown arp option'')"

definition BuildArpPkt :: "bytes \<Rightarrow> ArpPkt \<Rightarrow> bytes go_result" where
  "BuildArpPkt pkt packet =
     (let pkt = pkt @ [0x00, 0x01, 0x08, 0x00, 0x06, 0x04];
          pkt = pkt @ [ucast (drop_bit 8 (arp_Option packet)), ucast (arp_Option packet)];
          pkt = pkt @ mac_bytes (arp_SrcMac packet);
          pkt = pkt @ ip_bytes (arp_SrcAddr packet);
          pkt = pkt @ mac_bytes (arp_DstMac packet);
          pkt = pkt @ ip_bytes (arp_DstAddr packet)
      in Ok pkt)"

subsection \<open>Round trips\<close>

definition eth_proto_known :: "u16 \<Rightarrow> bool" where
  "eth_proto_known p \<longleftrightarrow> p \<in> {IEEE_802_3, ETH_PROTO_IPV4, ETH_PROTO_ARP, ETH_PROTO_IPV6}"

text \<open>What the receiver sees of a payload: shorter ones are filled up with zeros to 46 bytes.\<close>

definition eth_padded :: "bytes \<Rightarrow> bytes" where
  "eth_padded p = p @ replicate (46 - length p) 0"

lemma length_eth_padded: "length (eth_padded p) = max 46 (length p)"
  by (simp add: eth_padded_def)

lemma BuildEthFrm_bytes:
  "length (eth_Payload f) \<le> 1500 \<Longrightarrow>
   BuildEthFrm [] f = Ok (mac_bytes (eth_DstMac f) @ mac_bytes (eth_SrcMac f) @
     be16 (eth_EthProto f) @ eth_padded (eth_Payload f))"
  by (simp add: BuildEthFrm_def Let_def eth_padded_def be16_def numeral_eq_Suc)

lemma ParseEthFrm_bytes:
  assumes "28 \<le> length p" "length p \<le> 1500" "eth_proto_known t"
  shows "ParseEthFrm (mac_bytes d @ mac_bytes s @ be16 t @ p) =
    Ok \<lparr>eth_Payload = p, eth_DstMac = d, eth_SrcMac = s, eth_EthProto = t\<rparr>"
  using assms
  by (cases d; cases s)
    (simp add: ParseEthFrm_def be16_def be16_bytes eth_proto_known_def go_slice_def mac_of_bytes_def Let_def)

lemma eth_build_parse:
  assumes "length (eth_Payload f) \<le> 1500" "eth_proto_known (eth_EthProto f)"
  shows "\<exists>frm. BuildEthFrm [] f = Ok frm \<and> 60 \<le> length frm \<and> length frm \<le> 1514 \<and>
    ParseEthFrm frm = Ok (f\<lparr>eth_Payload := eth_padded (eth_Payload f)\<rparr>)"
  using assms by (cases f) (simp add: BuildEthFrm_bytes ParseEthFrm_bytes length_eth_padded length_be)

lemma ParseEthFrm_bounds:
  "ParseEthFrm frm = Ok f \<Longrightarrow> eth_proto_known (eth_EthProto f) \<and> 28 \<le> length (eth_Payload f) \<and>
     length (eth_Payload f) \<le> 1500"
  by (auto simp: ParseEthFrm_def eth_proto_known_def Let_def split: if_splits)

lemma arp_parse_build:
  assumes "arp_Option p \<in> {ARP_REQUEST, ARP_REPLY}"
  shows "\<exists>pkt. BuildArpPkt [] p = Ok pkt \<and> length pkt = 28 \<and> ParseArpPkt (pkt @ pad) = Ok p"
  using assms
  by (cases p; cases "arp_SrcMac p"; cases "arp_SrcAddr p"; cases "arp_DstMac p"; cases "arp_DstAddr p")
    (simp add: BuildArpPkt_def ParseArpPkt_def be16_bytes go_slice_def mac_of_bytes_def ip_of_bytes_def Let_def)

interpretation arp_codec: codec "BuildArpPkt []" ParseArpPkt
    "\<lambda>p. arp_Option p \<in> {ARP_REQUEST, ARP_REPLY}"
  by unfold_locales (use arp_parse_build [where pad = "[]"] in force)+

interpretation eth_codec: codec "BuildEthFrm []" ParseEthFrm
    "\<lambda>f. 46 \<le> length (eth_Payload f) \<and> length (eth_Payload f) \<le> 1500 \<and> eth_proto_known (eth_EthProto f)"
  by unfold_locales (use eth_build_parse in \<open>force simp: eth_padded_def\<close>)+

subsection \<open>Properties\<close>

text \<open>C21: An Ethernet frame built from a payload of at most 1500 bytes and a known protocol has
  between 60 and 1514 bytes and is parsed back to the same addresses and protocol, with the
  payload filled up with zeros to 46 bytes.\<close>

theorem eth_roundtrip:
  assumes "length (eth_Payload f) \<le> 1500" "eth_proto_known (eth_EthProto f)"
  shows "\<exists>frm. BuildEthFrm [] f = Ok frm \<and> 60 \<le> length frm \<and> length frm \<le> 1514 \<and>
    ParseEthFrm frm = Ok (f\<lparr>eth_Payload := eth_padded (eth_Payload f)\<rparr>)"
  using assms by (rule eth_build_parse)

theorem eth_roundtrip_witness:
  "\<exists>frm. BuildEthFrm [] \<lparr>eth_Payload = [1, 2, 3], eth_DstMac = BROADCAST_MAC_ADDR, eth_SrcMac = BROADCAST_MAC_ADDR, eth_EthProto = ETH_PROTO_ARP\<rparr> = Ok frm \<and>
    60 \<le> length frm \<and> length frm \<le> 1514 \<and>
    ParseEthFrm frm = Ok \<lparr>eth_Payload = eth_padded [1, 2, 3], eth_DstMac = BROADCAST_MAC_ADDR, eth_SrcMac = BROADCAST_MAC_ADDR,
      eth_EthProto = ETH_PROTO_ARP\<rparr>"
  using eth_roundtrip [of "\<lparr>eth_Payload = [1, 2, 3], eth_DstMac = BROADCAST_MAC_ADDR, eth_SrcMac = BROADCAST_MAC_ADDR,
      eth_EthProto = ETH_PROTO_ARP\<rparr>"]
  by (simp add: eth_proto_known_def)

text \<open>C22: An ARP request or reply is parsed back from its 28 bytes unchanged, whatever padding
  the Ethernet frame appends.\<close>

theorem arp_roundtrip:
  assumes "arp_Option p \<in> {ARP_REQUEST, ARP_REPLY}"
  shows "\<exists>pkt. BuildArpPkt [] p = Ok pkt \<and> length pkt = 28 \<and> ParseArpPkt (pkt @ pad) = Ok p"
  using assms by (rule arp_parse_build)

theorem arp_roundtrip_witness:
  "\<exists>pkt. BuildArpPkt [] \<lparr>arp_Option = ARP_REQUEST, arp_SrcMac = BROADCAST_MAC_ADDR, arp_SrcAddr = Ipv4Addr 10 0 0 1,
      arp_DstMac = BROADCAST_MAC_ADDR, arp_DstAddr = Ipv4Addr 10 0 0 2\<rparr> = Ok pkt \<and> length pkt = 28 \<and>
    ParseArpPkt (pkt @ [7, 7]) = Ok \<lparr>arp_Option = ARP_REQUEST, arp_SrcMac = BROADCAST_MAC_ADDR,
      arp_SrcAddr = Ipv4Addr 10 0 0 1, arp_DstMac = BROADCAST_MAC_ADDR, arp_DstAddr = Ipv4Addr 10 0 0 2\<rparr>"
  by (rule arp_roundtrip) simp

end
