(* ===== verification/Ipv4_Packets.thy ===== *)
theory Ipv4_Packets
  imports Link_Packets
begin

text \<open>
  IPv4 packets and the in-place rewriting the router does on them,
  \<^verbatim>\<open>src/protocol/ipv4.go\<close>. The package variable \<^verbatim>\<open>CheckSumEnable\<close> is the parameter
  \<open>ce\<close>; the process-wide packet identifier \<^verbatim>\<open>iphId\<close> is a 32-bit counter passed through
  the builder. The lemmas give the round trip of the builder and the parser, and that
  decrementing the lifetime and translating an address and a port keep the header and the
  transport checksum valid and change nothing else the router looks at.
\<close>

subsection \<open>Packets\<close>

definition IPH_PROTO_ICMP :: u8 where "IPH_PROTO_ICMP = 0x01"
definition IPH_PROTO_TCP :: u8 where "IPH_PROTO_TCP = 0x06"
definition IPH_PROTO_UDP :: u8 where "IPH_PROTO_UDP = 0x11"

definition BROADCAST_IPV4_ADDR :: Ipv4Addr where
  "BROADCAST_IPV4_ADDR = Ipv4Addr 255 255 255 255"

text \<open>The random bytes are an argument, \<^const>\<open>None\<close> when reading them fails.\<close>

definition SetRandIpHeaderId :: "(u8 \<times> u8) option \<Rightarrow> u32" where
  "SetRandIpHeaderId rnd =
     (case rnd of
        None \<Rightarrow> ucast (get_be16 [0x45, 0x67])
      | Some (a, b) \<Rightarrow> ucast (get_be16 [a, b]))"

record Ipv4AddrPair =
  pair_SrcAddr :: Ipv4Addr
  pair_DstAddr :: Ipv4Addr

record Ipv4Pkt =
  ip_Payload :: bytes
  ip_IpHeadProto :: u8
  ip_SrcAddr :: Ipv4Addr
  ip_DstAddr :: Ipv4Addr

definition ParseIpv4Pkt :: "bool \<Rightarrow> bytes \<Rightarrow> Ipv4Pkt go_result" where
  "ParseIpv4Pkt ce pkt =
     (if length pkt < 20 \<or> 1500 < length pkt then Err ''ip packet len must >= 20 and <= 1500 bytes''
      else if pkt ! 0 \<noteq> 0x45 then Err ''not support type of ip packet''
      else
        let totalLen = unat (get_be16 [pkt ! 2, pkt ! 3]) in
        if totalLen < 20 \<or> length pkt < totalLen then Err ''invalid ip total length''
        else if (pkt ! 6 \<noteq> 0x40 \<and> pkt ! 6 \<noteq> 0x00) \<or> pkt ! 7 \<noteq> 0x00 then Err ''not support ip frg''
        else if pkt ! 9 \<noteq> IPH_PROTO_ICMP \<and> pkt ! 9 \<noteq> IPH_PROTO_TCP \<and> pkt ! 9 \<noteq> IPH_PROTO_UDP
        then Err ''unknown ip protocol''
        else if ce \<and> GetCheckSum (go_slice pkt 0 20) \<noteq> 0 then Err ''header check sum error''
        else Ok \<lparr>ip_Payload = go_slice pkt 20 totalLen, ip_IpHeadProto = pkt ! 9,
                 ip_SrcAddr = ip_of_bytes (go_slice pkt 12 16),
                 ip_DstAddr = ip_of_bytes (go_slice pkt 16 20)\<rparr>)"

definition BuildIpv4Pkt :: "bool \<Rightarrow> u32 \<Rightarrow> bytes \<Rightarrow> Ipv4Pkt \<Rightarrow> u32 \<times> bytes go_result" where
  "BuildIpv4Pkt ce iphId pkt packet =
     (if 1480 < length (ip_Payload packet) then (iphId, Err ''payload len must <= 1480 bytes'')
      else
        let pkt = pkt @ [0x45, 0x00];
            ipPktLen = of_nat (length (ip_Payload packet) + 20) :: u16;
            pkt = pkt @ be16 ipPktLen;
            iphId = iphId + 1;
            id = ucast iphId :: u16;
            pkt = pkt @ be16 id;
            pkt = pkt @ [0x00, 0x00];
            pkt = pkt @ [0x80];
            pkt = pkt @ [ip_IpHeadProto packet];
            pkt = pkt @ [0x00, 0x00];
            pkt = pkt @ ip_bytes (ip_SrcAddr packet);
            pkt = pkt @ ip_bytes (ip_DstAddr packet);
            pkt = (if ce then put_be16 10 (GetCheckSum pkt) pkt else put_be16 10 0 pkt)
        in (iphId, Ok (pkt @ ip_Payload packet)))"

subsection \<open>Recomputing checksums in place\<close>

definition ReCalcIpv4CheckSum :: "bool \<Rightarrow> bytes \<Rightarrow> bytes" where
  "ReCalcIpv4CheckSum ce pkt =
     (if length pkt < 20 then pkt
      else
        let pkt = put_be16 10 0 pkt in
        if \<not> ce then pkt else put_be16 10 (GetCheckSum (go_slice pkt 0 20)) pkt)"

text \<open>A packet too short to have a lifetime gives the nil slice.\<close>

definition HandleIpv4PktTtl :: "bool \<Rightarrow> bytes \<Rightarrow> bytes \<times> bool" where
  "HandleIpv4PktTtl ce pkt =
     (if length pkt < 9 then ([], False)
      else if pkt ! 8 \<le> 1 then (pkt, False)
      else (ReCalcIpv4CheckSum ce (pkt[8 := pkt ! 8 - 0x01]), True))"

definition ReCalcIcmpCheckSum :: "bytes \<Rightarrow> bytes" where
  "ReCalcIcmpCheckSum pkt =
     (if length pkt < 24 then pkt
      else
        let pkt = put_be16 22 0 pkt
        in put_be16 22 (GetCheckSum (drop 20 pkt)) pkt)"

text \<open>The pseudo header of a transport segment inside the packet. The segment length is the
  total length of the header minus 20, in two bytes.\<close>

definition fakeHeader :: "u8 \<Rightarrow> bytes \<Rightarrow> bytes" where
  "fakeHeader proto pkt =
     go_slice pkt 12 16 @ go_slice pkt 16 20 @ [0x00, proto] @ be16 (get_be16 [pkt ! 2, pkt ! 3] - 20)"

definition ReCalcTcpCheckSum :: "bool \<Rightarrow> bytes \<Rightarrow> bytes" where
  "ReCalcTcpCheckSum ce pkt =
     (if length pkt < 38 then pkt
      else
        let pkt = put_be16 36 0 pkt in
        if \<not> ce then pkt
        else put_be16 36 (GetCheckSum (fakeHeader 0x06 pkt @ drop 20 pkt)) pkt)"

definition ReCalcUdpCheckSum :: "bool \<Rightarrow> bytes \<Rightarrow> bytes" where
  "ReCalcUdpCheckSum ce pkt =
     (if length pkt < 28 then pkt
      else
        let pkt = put_be16 26 0 pkt in
        if \<not> ce then pkt
        else put_be16 26 (GetCheckSum (fakeHeader 0x11 pkt @ drop 20 pkt)) pkt)"

subsection \<open>Address and port translation\<close>

definition NatGetSrcDstPort :: "bytes \<Rightarrow> u16 \<times> u16" where
  "NatGetSrcDstPort pkt =
     (if length pkt < 26 then (0, 0)
      else if pkt ! 9 = IPH_PROTO_ICMP
        then (get_be16 (go_slice pkt 24 26), get_be16 (go_slice pkt 24 26))
      else if pkt ! 9 = IPH_PROTO_TCP
        then (get_be16 (go_slice pkt 20 22), get_be16 (go_slice pkt 22 24))
      else if pkt ! 9 = IPH_PROTO_UDP
        then (get_be16 (go_slice pkt 20 22), get_be16 (go_slice pkt 22 24))
      else (0, 0))"

text \<open>The four assignments that store an address.\<close>

fun put_ip :: "nat \<Rightarrow> Ipv4Addr \<Rightarrow> bytes \<Rightarrow> bytes" where
  "put_ip off (Ipv4Addr a b c d) pkt = pkt[off := a, off + 1 := b, off + 2 := c, off + 3 := d]"

definition NatChangeSrc :: "bool \<Rightarrow> bytes \<Rightarrow> Ipv4Addr \<Rightarrow> u16 \<Rightarrow> bytes" where
  "NatChangeSrc ce pkt ipAddr port =
     (if length pkt < 26 then pkt
      else
        let pkt = put_ip 12 ipAddr pkt;
            pkt = ReCalcIpv4CheckSum ce pkt
        in if pkt ! 9 = IPH_PROTO_ICMP then ReCalcIcmpCheckSum (put_be16 24 port pkt)
           else if pkt ! 9 = IPH_PROTO_TCP then ReCalcTcpCheckSum ce (put_be16 20 port pkt)
           else if pkt ! 9 = IPH_PROTO_UDP then ReCalcUdpCheckSum ce (put_be16 20 port pkt)
           else pkt)"

definition NatChangeDst :: "bool \<Rightarrow> bytes \<Rightarrow> Ipv4Addr \<Rightarrow> u16 \<Rightarrow> bytes" where
  "NatChangeDst ce pkt ipAddr port =
     (if length pkt < 26 then pkt
      else
        let pkt = put_ip 16 ipAddr pkt;
            pkt = ReCalcIpv4CheckSum ce pkt
        in if pkt ! 9 = IPH_PROTO_ICMP then ReCalcIcmpCheckSum (put_be16 24 port pkt)
           else if pkt ! 9 = IPH_PROTO_TCP then ReCalcTcpCheckSum ce (put_be16 22 port pkt)
           else if pkt ! 9 = IPH_PROTO_UDP then ReCalcUdpCheckSum ce (put_be16 22 port pkt)
           else pkt)"

subsection \<open>Round trip\<close>

definition ip_proto_known :: "u8 \<Rightarrow> bool" where
  "ip_proto_known p \<longleftrightarrow> p \<in> {IPH_PROTO_ICMP, IPH_PROTO_TCP, IPH_PROTO_UDP}"

definition ipv4_wf :: "Ipv4Pkt \<Rightarrow> bool" where
  "ipv4_wf p \<longleftrightarrow> length (ip_Payload p) \<le> 1480 \<and> ip_proto_known (ip_IpHeadProto p)"

text \<open>The header the builder writes, with the checksum field as a parameter.\<close>

definition ipv4_header :: "u16 \<Rightarrow> u16 \<Rightarrow> Ipv4Pkt \<Rightarrow> bytes" where
  "ipv4_header ipid ck p =
     [0x45, 0x00] @ be16 (of_nat (length (ip_Payload p) + 20)) @ be16 ipid @
     [0x00, 0x00, 0x80, ip_IpHeadProto p] @ be16 ck @ ip_bytes (ip_SrcAddr p) @ ip_bytes (ip_DstAddr p)"

lemma length_ipv4_header [simp]: "length (ipv4_header ipid ck p) = 20"
  by (simp add: ipv4_header_def length_be)

lemma put_ipv4_header: "put_be16 10 w (ipv4_header ipid ck p) = ipv4_header ipid w p"
  by (simp add: ipv4_header_def put_be16_def be16_def)

lemma ipv4_header_sum:
  "GetCheckSum (ipv4_header ipid (GetCheckSum (ipv4_header ipid 0 p)) p) = 0"
  using checksum_put_valid [of "[]" 10 "ipv4_header ipid 0 p"] by (simp add: put_ipv4_header)

lemma BuildIpv4Pkt_bytes:
  assumes "length (ip_Payload p) \<le> 1480"
  shows "BuildIpv4Pkt ce n [] p =
    (n + 1, Ok (ipv4_header (ucast (n + 1))
                  (if ce then GetCheckSum (ipv4_header (ucast (n + 1)) 0 p) else 0) p @ ip_Payload p))"
proof -
  let ?h = "[0x45, 0x00] @ be16 (of_nat (length (ip_Payload p) + 20)) @ be16 (ucast (n + 1)) @
     [0x00, 0x00, 0x80, ip_IpHeadProto p] @ [0x00, 0x00] @ ip_bytes (ip_SrcAddr p) @ ip_bytes (ip_DstAddr p)"
  have "?h = ipv4_header (ucast (n + 1)) 0 p"
    by (simp add: ipv4_header_def be16_def)
  then show ?thesis
    using assms put_ipv4_header [of _ "ucast (n + 1)" 0 p]
    by (simp add: BuildIpv4Pkt_def Let_def)
qed

lemma unat_of_nat_u16: "n < 65536 \<Longrightarrow> unat (of_nat n :: u16) = n"
  by (simp add: unat_of_nat)

lemma ParseIpv4Pkt_header:
  assumes "ipv4_wf p" "length pad \<le> 1480 - length (ip_Payload p)"
    and "ce \<longrightarrow> GetCheckSum (ipv4_header ipid ck p) = 0"
  shows "ParseIpv4Pkt ce (ipv4_header ipid ck p @ ip_Payload p @ pad) = Ok p"
proof -
  let ?pkt = "ipv4_header ipid ck p @ ip_Payload p @ pad"
  have n: "?pkt ! 0 = 0x45" "?pkt ! 6 = 0" "?pkt ! 7 = 0" "?pkt ! 9 = ip_IpHeadProto p"
    "get_be16 [?pkt ! 2, ?pkt ! 3] = of_nat (length (ip_Payload p) + 20)"
    by (simp_all add: ipv4_header_def be16_def be16_bytes)
  have s: "go_slice ?pkt 12 16 = ip_bytes (ip_SrcAddr p)" "go_slice ?pkt 16 20 = ip_bytes (ip_DstAddr p)"
    by (cases "ip_SrcAddr p"; cases "ip_DstAddr p"; simp add: ipv4_header_def be16_def go_slice_def)+
  have t: "unat (of_nat (length (ip_Payload p) + 20) :: u16) = length (ip_Payload p) + 20"
    using assms by (intro unat_of_nat_u16) (simp add: ipv4_wf_def)
  have g: "go_slice ?pkt 0 20 = ipv4_header ipid ck p"
    "go_slice ?pkt 20 (length (ip_Payload p) + 20) = ip_Payload p"
    by (simp_all add: go_slice_def)
  have l: "\<not> (length ?pkt < 20 \<or> 1500 < length ?pkt)"
    "\<not> (length (ip_Payload p) + 20 < 20 \<or> length ?pkt < length (ip_Payload p) + 20)"
    using assms by (auto simp: ipv4_wf_def)
  have "ip_proto_known (ip_IpHeadProto p)"
    using assms by (simp add: ipv4_wf_def)
  then show ?thesis
    unfolding ParseIpv4Pkt_def Let_def n s t g if_not_P [OF l(1)] if_not_P [OF l(2)]
    using assms(3) by (auto simp: ip_proto_known_def)
qed

lemma ipv4_build_parse:
  assumes "ipv4_wf p"
  shows "\<exists>pkt. BuildIpv4Pkt ce n [] p = (n + 1, Ok pkt) \<and> length pkt = 20 + length (ip_Payload p) \<and>
    (\<forall>pad. length pad \<le> 1480 - length (ip_Payload p) \<longrightarrow> ParseIpv4Pkt ce (pkt @ pad) = Ok p)"
  using assms
  by (simp add: BuildIpv4Pkt_bytes ipv4_wf_def [of p] ParseIpv4Pkt_header ipv4_header_sum)

interpretation ipv4_codec: codec "\<lambda>p. snd (BuildIpv4Pkt ce n [] p)" "ParseIpv4Pkt ce" ipv4_wf
  for ce :: bool and n :: u32
proof
  fix p bs
  assume "ipv4_wf p"
  then obtain pkt where "BuildIpv4Pkt ce n [] p = (n + 1, Ok pkt)" "ParseIpv4Pkt ce (pkt @ []) = Ok p"
    using ipv4_build_parse by (metis le0 list.size(3))
  then show "\<exists>bs. snd (BuildIpv4Pkt ce n [] p) = Ok bs"
    and "snd (BuildIpv4Pkt ce n [] p) = Ok bs \<Longrightarrow> ParseIpv4Pkt ce bs = Ok p"
    by auto
qed

subsection \<open>In-place rewriting\<close>

lemma length_put_ip [simp]: "length (put_ip i a xs) = length xs"
  by (cases a) simp

lemma nth_put_ip [slice_simps]:
  "k < i \<Longrightarrow> put_ip i a xs ! k = xs ! k" "i + 3 < k \<Longrightarrow> put_ip i a xs ! k = xs ! k"
  by (cases a; simp)+

lemma go_slice_put_ip [slice_simps]:
  "j \<le> i \<or> i + 3 < k \<Longrightarrow> go_slice (put_ip i a xs) k j = go_slice xs k j"
  by (rule nth_equalityI) (auto simp: length_go_slice nth_go_slice nth_put_ip)

lemma go_slice_put_ip_at [slice_simps]:
  assumes "i + 4 \<le> length xs"
  shows "go_slice (put_ip i a xs) i (i + 4) = ip_bytes a"
proof (rule nth_equalityI)
  fix k
  assume "k < length (go_slice (put_ip i a xs) i (i + 4))"
  then have "k < 4"
    using assms by (simp add: length_go_slice)
  then have "k = 0 \<or> k = 1 \<or> k = 2 \<or> k = 3"
    by arith
  then show "go_slice (put_ip i a xs) i (i + 4) ! k = ip_bytes a ! k"
    using assms by (cases a) (auto simp: nth_go_slice)
qed (use assms in \<open>simp add: length_go_slice\<close>)

lemma drop_put_ip [slice_simps]: "i + 3 < n \<Longrightarrow> drop n (put_ip i a xs) = drop n xs"
  by (cases a) simp

lemma length_ReCalc [simp]:
  "length (ReCalcIpv4CheckSum ce p) = length p" "length (ReCalcIcmpCheckSum p) = length p"
  "length (ReCalcTcpCheckSum ce p) = length p" "length (ReCalcUdpCheckSum ce p) = length p"
  by (simp_all add: ReCalcIpv4CheckSum_def ReCalcIcmpCheckSum_def ReCalcTcpCheckSum_def
      ReCalcUdpCheckSum_def Let_def)

text \<open>Each recomputation is one store into its checksum field.\<close>

lemma ReCalc_put:
  "20 \<le> length p \<Longrightarrow> \<exists>w. ReCalcIpv4CheckSum ce p = put_be16 10 w p"
  "24 \<le> length p \<Longrightarrow> \<exists>w. ReCalcIcmpCheckSum p = put_be16 22 w p"
  "38 \<le> length p \<Longrightarrow> \<exists>w. ReCalcTcpCheckSum ce p = put_be16 36 w p"
  "28 \<le> length p \<Longrightarrow> \<exists>w. ReCalcUdpCheckSum ce p = put_be16 26 w p"
  by (auto simp: ReCalcIpv4CheckSum_def ReCalcIcmpCheckSum_def ReCalcTcpCheckSum_def
      ReCalcUdpCheckSum_def Let_def)

definition ip_header_valid :: "bytes \<Rightarrow> bool" where
  "ip_header_valid pkt \<longleftrightarrow> GetCheckSum (go_slice pkt 0 20) = 0"

lemma go_slice_0 [slice_simps]: "go_slice xs 0 n = take n xs"
  by (simp add: go_slice_def)

lemma ReCalcIpv4CheckSum_valid:
  "20 \<le> length p \<Longrightarrow> ip_header_valid (ReCalcIpv4CheckSum True p)"
  using checksum_put_valid [of "[]" 10 "take 20 p"]
  by (simp add: ip_header_valid_def ReCalcIpv4CheckSum_def Let_def go_slice_0 take_put_be16)

lemma ip_header_valid_put:
  "20 \<le> i \<Longrightarrow> ip_header_valid (put_be16 i w p) = ip_header_valid p"
  by (simp add: ip_header_valid_def go_slice_put_be16)

lemma fakeHeader_put [simp]: "20 \<le> i \<Longrightarrow> fakeHeader t (put_be16 i w p) = fakeHeader t p"
  by (simp add: fakeHeader_def go_slice_put_be16 nth_put_be16)

lemma fakeHeader_ReCalc:
  "fakeHeader t (ReCalcTcpCheckSum ce r) = fakeHeader t r"
  "fakeHeader t (ReCalcUdpCheckSum ce r) = fakeHeader t r"
  by (auto simp: ReCalcTcpCheckSum_def ReCalcUdpCheckSum_def Let_def)

lemma length_fakeHeader: "20 \<le> length p \<Longrightarrow> length (fakeHeader t p) = 12"
  by (simp add: fakeHeader_def length_go_slice length_be)

text \<open>The sum over the pseudo header and everything after the IPv4 header, which the
  receiver of the packet checks.\<close>

definition transport_valid :: "bytes \<Rightarrow> bool" where
  "transport_valid pkt \<longleftrightarrow>
     (if pkt ! 9 = IPH_PROTO_ICMP then GetCheckSum (drop 20 pkt) = 0
      else GetCheckSum (fakeHeader (pkt ! 9) pkt @ drop 20 pkt) = 0)"

lemma ReCalcIcmpCheckSum_valid:
  assumes "24 \<le> length p" "length p \<le> 1500"
  shows "GetCheckSum (drop 20 (ReCalcIcmpCheckSum p)) = 0"
  using assms checksum_put_valid [of "[]" 2 "drop 20 p"]
  by (simp add: ReCalcIcmpCheckSum_def Let_def drop_put_be16)

lemma ReCalcTcpCheckSum_valid:
  assumes "38 \<le> length p" "length p \<le> 1500"
  shows "GetCheckSum (fakeHeader 6 p @ drop 20 (ReCalcTcpCheckSum True p)) = 0"
  using assms checksum_put_valid [of "fakeHeader 6 p" 16 "drop 20 p"]
  by (simp add: ReCalcTcpCheckSum_def Let_def drop_put_be16 length_fakeHeader)

lemma ReCalcUdpCheckSum_valid:
  assumes "28 \<le> length p" "length p \<le> 1500"
  shows "GetCheckSum (fakeHeader 17 p @ drop 20 (ReCalcUdpCheckSum True p)) = 0"
  using assms checksum_put_valid [of "fakeHeader 17 p" 6 "drop 20 p"]
  by (simp add: ReCalcUdpCheckSum_def Let_def drop_put_be16 length_fakeHeader)

lemma be16_0: "be16 0 = [0, 0]"
  by (simp add: be16_def)

lemma go_slice_put_be16_at: "i + 1 < length xs \<Longrightarrow> go_slice (put_be16 i w xs) i (i + 2) = be16 w"
  by (simp add: put_be16_split go_slice_def be16_def)

lemma HandleIpv4PktTtl_short:
  assumes "HandleIpv4PktTtl ce p = (q, True)" "length p < 20"
  shows "q = p[8 := p ! 8 - 1]" "unat (q ! 8) = unat (p ! 8) - 1" "\<forall>k. k \<notin> {8, 10, 11} \<longrightarrow> q ! k = p ! k"
proof -
  show q: "q = p[8 := p ! 8 - 1]"
    using assms by (auto simp: HandleIpv4PktTtl_def ReCalcIpv4CheckSum_def split: if_splits)
  have "9 \<le> length p" "1 \<le> p ! 8"
    using assms(1) by (auto simp: HandleIpv4PktTtl_def split: if_splits)
  then show "unat (q ! 8) = unat (p ! 8) - 1" "\<forall>k. k \<notin> {8, 10, 11} \<longrightarrow> q ! k = p ! k"
    by (simp_all add: q unat_sub)
qed

lemma HandleIpv4PktTtl_ok:
  assumes "HandleIpv4PktTtl ce p = (q, True)" "20 \<le> length p"
  shows "length q = length p" "unat (q ! 8) = unat (p ! 8) - 1" "1 < unat (p ! 8)"
    "ce \<Longrightarrow> ip_header_valid q" "\<not> ce \<Longrightarrow> go_slice q 10 12 = [0, 0]" "\<forall>k. k \<notin> {8, 10, 11} \<longrightarrow> q ! k = p ! k"
proof -
  have q: "q = ReCalcIpv4CheckSum ce (p[8 := p ! 8 - 1])" and t: "1 < p ! 8"
    using assms by (auto simp: HandleIpv4PktTtl_def split: if_splits)
  obtain w where w: "q = put_be16 10 w (p[8 := p ! 8 - 1])"
    using ReCalc_put(1) [of "p[8 := p ! 8 - 1]" ce] assms(2) q by auto
  show "length q = length p"
    by (simp add: w)
  show one: "1 < unat (p ! 8)"
    using t by (simp add: word_less_nat_alt)
  have "(1 :: u8) \<le> p ! 8"
    using t by simp
  then show "unat (q ! 8) = unat (p ! 8) - 1"
    using assms(2) by (simp add: w nth_put_be16 unat_sub)
  show "ce \<Longrightarrow> ip_header_valid q"
    using assms(2) by (simp add: q ReCalcIpv4CheckSum_valid)
  show "\<not> ce \<Longrightarrow> go_slice q 10 12 = [0, 0]"
    using assms(2) go_slice_put_be16_at [of 10 "p[8 := p ! 8 - 1]" 0]
    by (simp add: q ReCalcIpv4CheckSum_def Let_def be16_0)
  show "\<forall>k. k \<notin> {8, 10, 11} \<longrightarrow> q ! k = p ! k"
    by (auto simp: w nth_put_be16)
qed

subsection \<open>Address and port translation keeps packets valid\<close>

text \<open>The two directions are one rewrite, at the offset of the address and of the port.\<close>

definition nat_rewrite :: "nat \<Rightarrow> nat \<Rightarrow> bool \<Rightarrow> bytes \<Rightarrow> Ipv4Addr \<Rightarrow> u16 \<Rightarrow> bytes" where
  "nat_rewrite ao po ce pkt a port =
     (if length pkt < 26 then pkt
      else
        let pkt = ReCalcIpv4CheckSum ce (put_ip ao a pkt)
        in if pkt ! 9 = IPH_PROTO_ICMP then ReCalcIcmpCheckSum (put_be16 24 port pkt)
           else if pkt ! 9 = IPH_PROTO_TCP then ReCalcTcpCheckSum ce (put_be16 po port pkt)
           else if pkt ! 9 = IPH_PROTO_UDP then ReCalcUdpCheckSum ce (put_be16 po port pkt)
           else pkt)"

lemma nat_rewrite_eqs:
  "NatChangeSrc ce p a port = nat_rewrite 12 20 ce p a port"
  "NatChangeDst ce p a port = nat_rewrite 16 22 ce p a port"
  by (simp_all add: NatChangeSrc_def NatChangeDst_def nat_rewrite_def Let_def)

definition port_off :: "nat \<Rightarrow> u8 \<Rightarrow> nat" where
  "port_off po t = (if t = IPH_PROTO_ICMP then 24 else po)"

definition sum_off :: "u8 \<Rightarrow> nat" where
  "sum_off t = (if t = IPH_PROTO_ICMP then 22 else if t = IPH_PROTO_TCP then 36 else 26)"

text \<open>A packet long enough for the fields its protocol has.\<close>

definition nat_ready :: "bytes \<Rightarrow> bool" where
  "nat_ready p \<longleftrightarrow> length p \<le> 1500 \<and> ip_proto_known (p ! 9) \<and>
     (if p ! 9 = IPH_PROTO_ICMP then 26 else if p ! 9 = IPH_PROTO_TCP then 38 else 28) \<le> length p"

lemmas proto_defs = IPH_PROTO_ICMP_def IPH_PROTO_TCP_def IPH_PROTO_UDP_def

lemma nat_rewrite_unfold:
  assumes "nat_ready p" "ao \<in> {12, 16}"
  shows "nat_rewrite ao po ce p a port =
    (let r = put_be16 (port_off po (p ! 9)) port (ReCalcIpv4CheckSum ce (put_ip ao a p))
     in if p ! 9 = IPH_PROTO_ICMP then ReCalcIcmpCheckSum r
        else if p ! 9 = IPH_PROTO_TCP then ReCalcTcpCheckSum ce r
        else ReCalcUdpCheckSum ce r)"
proof -
  have l: "26 \<le> length p"
    using assms(1) by (auto simp: nat_ready_def split: if_splits)
  then obtain w where w: "ReCalcIpv4CheckSum ce (put_ip ao a p) = put_be16 10 w (put_ip ao a p)"
    using ReCalc_put(1) [of "put_ip ao a p" ce] by auto
  have "ReCalcIpv4CheckSum ce (put_ip ao a p) ! 9 = p ! 9"
    using assms(2) by (auto simp: w nth_put_be16 nth_put_ip)
  then show ?thesis
    using assms l by (auto simp: nat_rewrite_def port_off_def nat_ready_def ip_proto_known_def Let_def)
qed

lemma nat_rewrite_stores:
  assumes "nat_ready p" "ao \<in> {12, 16}"
  obtains v w where "nat_rewrite ao po ce p a port =
    put_be16 (sum_off (p ! 9)) v (put_be16 (port_off po (p ! 9)) port (put_be16 10 w (put_ip ao a p)))"
proof -
  have l: "20 \<le> length (put_ip ao a p)"
    using assms(1) by (auto simp: nat_ready_def split: if_splits)
  then obtain w where w: "ReCalcIpv4CheckSum ce (put_ip ao a p) = put_be16 10 w (put_ip ao a p)"
    using ReCalc_put(1) [of "put_ip ao a p" ce] by auto
  let ?r = "put_be16 (port_off po (p ! 9)) port (put_be16 10 w (put_ip ao a p))"
  have "\<exists>v. nat_rewrite ao po ce p a port = put_be16 (sum_off (p ! 9)) v ?r"
    using assms(1) ReCalc_put(2) [of ?r] ReCalc_put(3) [of ?r ce] ReCalc_put(4) [of ?r ce]
    unfolding nat_rewrite_unfold [OF assms] w Let_def
    by (auto simp: nat_ready_def sum_off_def split: if_splits)
  then show ?thesis
    using that by blast
qed

lemma nat_rewrite_valid:
  assumes "nat_ready p" "ao \<in> {12, 16}" "po \<in> {20, 22}"
  shows "length (nat_rewrite ao po ce p a port) = length p"
    "nat_rewrite ao po ce p a port ! 9 = p ! 9"
    "ce \<Longrightarrow> ip_header_valid (nat_rewrite ao po ce p a port)"
    "ce \<or> p ! 9 = IPH_PROTO_ICMP \<Longrightarrow> transport_valid (nat_rewrite ao po ce p a port)"
proof -
  obtain v w where vw: "nat_rewrite ao po ce p a port =
    put_be16 (sum_off (p ! 9)) v (put_be16 (port_off po (p ! 9)) port (put_be16 10 w (put_ip ao a p)))"
    using nat_rewrite_stores [OF assms(1,2)] .
  have o: "20 \<le> sum_off (p ! 9)" "20 \<le> port_off po (p ! 9)"
    using assms(3) by (auto simp: sum_off_def port_off_def)
  have l: "20 \<le> length p"
    using assms(1) by (auto simp: nat_ready_def split: if_splits)
  show "length (nat_rewrite ao po ce p a port) = length p"
    by (simp add: vw)
  show nine: "nat_rewrite ao po ce p a port ! 9 = p ! 9"
    using o assms(2) by (auto simp: vw nth_put_be16 nth_put_ip)
  let ?r = "put_be16 (port_off po (p ! 9)) port (ReCalcIpv4CheckSum ce (put_ip ao a p))"
  have rl: "length ?r = length p"
    by simp
  show "ip_header_valid (nat_rewrite ao po ce p a port)" if "ce"
  proof -
    have "ip_header_valid ?r"
      using l o that by (simp add: ip_header_valid_put ReCalcIpv4CheckSum_valid)
    then show ?thesis
      using l o that unfolding nat_rewrite_unfold [OF assms(1,2)] Let_def
      by (auto simp: ReCalcIcmpCheckSum_def ReCalcTcpCheckSum_def ReCalcUdpCheckSum_def Let_def
          ip_header_valid_put)
  qed
  show "transport_valid (nat_rewrite ao po ce p a port)" if "ce \<or> p ! 9 = IPH_PROTO_ICMP"
    using that assms(1) rl ReCalcIcmpCheckSum_valid [of ?r] ReCalcTcpCheckSum_valid [of ?r]
      ReCalcUdpCheckSum_valid [of ?r]
    unfolding transport_valid_def nine
    unfolding nat_rewrite_unfold [OF assms(1,2)] Let_def
    by (auto simp: nat_ready_def ip_proto_known_def proto_defs fakeHeader_ReCalc)
qed

text \<open>Without checksums the fields are left zero.\<close>

lemma nat_rewrite_plain:
  assumes "nat_ready p" "ao \<in> {12, 16}" "po \<in> {20, 22}"
  shows "\<not> ce \<Longrightarrow> go_slice (nat_rewrite ao po ce p a port) 10 12 = [0, 0]"
    "\<not> ce \<Longrightarrow> p ! 9 \<noteq> IPH_PROTO_ICMP \<Longrightarrow>
       go_slice (nat_rewrite ao po ce p a port) (sum_off (p ! 9)) (sum_off (p ! 9) + 2) = [0, 0]"
proof -
  let ?r = "put_be16 (port_off po (p ! 9)) port (put_be16 10 0 (put_ip ao a p))"
  have l: "20 \<le> length p" "20 \<le> port_off po (p ! 9)" "p ! 9 \<noteq> IPH_PROTO_ICMP \<Longrightarrow> sum_off (p ! 9) + 1 < length p"
    using assms(1,3) by (auto simp: nat_ready_def port_off_def sum_off_def split: if_splits)
  have u: "nat_rewrite ao po False p a port =
     (if p ! 9 = IPH_PROTO_ICMP then ReCalcIcmpCheckSum ?r else put_be16 (sum_off (p ! 9)) 0 ?r)"
    using assms(1) l unfolding nat_rewrite_unfold [OF assms(1,2)] Let_def
    by (auto simp: ReCalcIpv4CheckSum_def ReCalcTcpCheckSum_def ReCalcUdpCheckSum_def sum_off_def nat_ready_def Let_def)
  have r: "go_slice ?r 10 12 = [0, 0]"
    using l go_slice_put_be16_at [of 10 "put_ip ao a p" 0] by (simp add: go_slice_put_be16 be16_0)
  then have "go_slice (nat_rewrite ao po False p a port) 10 12 = [0, 0]"
    unfolding u by (auto simp: ReCalcIcmpCheckSum_def Let_def go_slice_put_be16 sum_off_def)
  moreover have "go_slice (nat_rewrite ao po False p a port) (sum_off (p ! 9)) (sum_off (p ! 9) + 2) = [0, 0]"
    if "p ! 9 \<noteq> IPH_PROTO_ICMP"
    using that l(3) go_slice_put_be16_at [of "sum_off (p ! 9)" ?r 0] by (simp add: u be16_0)
  ultimately show "\<not> ce \<Longrightarrow> go_slice (nat_rewrite ao po ce p a port) 10 12 = [0, 0]"
    "\<not> ce \<Longrightarrow> p ! 9 \<noteq> IPH_PROTO_ICMP \<Longrightarrow>
       go_slice (nat_rewrite ao po ce p a port) (sum_off (p ! 9)) (sum_off (p ! 9) + 2) = [0, 0]"
    by simp_all
qed

lemma get_be16_put: "i + 1 < length xs \<Longrightarrow> get_be16 (go_slice (put_be16 i w xs) i (i + 2)) = w"
  by (simp add: put_be16_split go_slice_def be16_def be16_bytes)

lemma nat_rewrite_fields:
  assumes "nat_ready p" "ao \<in> {12, 16}" "po \<in> {20, 22}"
  shows "go_slice (nat_rewrite ao po ce p a port) ao (ao + 4) = ip_bytes a"
    "get_be16 (go_slice (nat_rewrite ao po ce p a port) (port_off po (p ! 9)) (port_off po (p ! 9) + 2)) = port"
    "k \<notin> {10, 11} \<union> {ao..<ao + 4} \<union> {port_off po (p ! 9)..<port_off po (p ! 9) + 2} \<union>
       {sum_off (p ! 9)..<sum_off (p ! 9) + 2} \<Longrightarrow> nat_rewrite ao po ce p a port ! k = p ! k"
proof -
  obtain v w where vw: "nat_rewrite ao po ce p a port =
    put_be16 (sum_off (p ! 9)) v (put_be16 (port_off po (p ! 9)) port (put_be16 10 w (put_ip ao a p)))"
    using nat_rewrite_stores [OF assms(1,2)] .
  have o: "20 \<le> sum_off (p ! 9)" "20 \<le> port_off po (p ! 9)" "port_off po (p ! 9) + 1 < length p"
    using assms(1,3) by (auto simp: sum_off_def port_off_def nat_ready_def ip_proto_known_def proto_defs)
  show "go_slice (nat_rewrite ao po ce p a port) ao (ao + 4) = ip_bytes a"
    using assms(2) o by (auto simp: vw go_slice_put_be16 go_slice_put_ip_at [of 12, simplified]
        go_slice_put_ip_at [of 16, simplified])
  have "port_off po (p ! 9) + 2 \<le> sum_off (p ! 9) \<or> sum_off (p ! 9) + 1 < port_off po (p ! 9)"
    using assms(3) by (auto simp: sum_off_def port_off_def)
  then show "get_be16 (go_slice (nat_rewrite ao po ce p a port) (port_off po (p ! 9))
      (port_off po (p ! 9) + 2)) = port"
    unfolding vw using o(3) by (simp only: go_slice_put_be16) (simp only: get_be16_put length_put_be16 length_put_ip)
  show "nat_rewrite ao po ce p a port ! k = p ! k"
    if "k \<notin> {10, 11} \<union> {ao..<ao + 4} \<union> {port_off po (p ! 9)..<port_off po (p ! 9) + 2} \<union>
       {sum_off (p ! 9)..<sum_off (p ! 9) + 2}"
    unfolding vw using that by (cases "k < ao") (auto simp: nth_put_be16 nth_put_ip)
qed

lemma go_slice_cong: "length xs = length ys \<Longrightarrow> (\<And>n. k \<le> n \<Longrightarrow> n < j \<Longrightarrow> xs ! n = ys ! n) \<Longrightarrow>
    go_slice xs k j = go_slice ys k j"
  by (rule nth_equalityI) (auto simp: length_go_slice nth_go_slice)

lemma nat_rewrite_src:
  assumes "nat_ready p" and q_def: "q = nat_rewrite 12 20 ce p a port"
  shows "go_slice q 12 16 = ip_bytes a" "go_slice q 16 20 = go_slice p 16 20"
    "NatGetSrcDstPort q = (port, if p ! 9 = IPH_PROTO_ICMP then port else snd (NatGetSrcDstPort p))"
proof -
  note l = nat_rewrite_valid(1,2) [OF assms(1), of 12 20 ce a port, folded q_def, simplified]
  have u: "q ! n = p ! n" if "16 \<le> n" "n < 20 \<or> (p ! 9 \<noteq> IPH_PROTO_ICMP \<and> 22 \<le> n \<and> n < 24)" for n
    using nat_rewrite_fields(3) [OF assms(1), of 12 20 n ce a port, folded q_def] that
    by (auto simp: sum_off_def port_off_def)
  show "go_slice q 12 16 = ip_bytes a"
    using nat_rewrite_fields(1) [OF assms(1), of 12 20 ce a port, folded q_def] by simp
  show "go_slice q 16 20 = go_slice p 16 20"
    by (rule go_slice_cong) (auto simp: l u)
  have "p ! 9 \<noteq> IPH_PROTO_ICMP \<Longrightarrow> go_slice q 22 24 = go_slice p 22 24"
    by (rule go_slice_cong) (auto simp: l u)
  moreover have "26 \<le> length p"
    using assms(1) by (auto simp: nat_ready_def split: if_splits)
  moreover have "get_be16 (go_slice q (port_off 20 (p ! 9)) (port_off 20 (p ! 9) + 2)) = port"
    using nat_rewrite_fields(2) [OF assms(1), of 12 20 ce a port, folded q_def] by simp
  ultimately show "NatGetSrcDstPort q = (port, if p ! 9 = IPH_PROTO_ICMP then port else snd (NatGetSrcDstPort p))"
    using assms(1) by (auto simp: NatGetSrcDstPort_def l port_off_def nat_ready_def ip_proto_known_def)
qed

lemma nat_rewrite_dst:
  assumes "nat_ready p" and q_def: "q = nat_rewrite 16 22 ce p a port"
  shows "go_slice q 16 20 = ip_bytes a" "go_slice q 12 16 = go_slice p 12 16"
    "NatGetSrcDstPort q = (if p ! 9 = IPH_PROTO_ICMP then port else fst (NatGetSrcDstPort p), port)"
proof -
  note l = nat_rewrite_valid(1,2) [OF assms(1), of 16 22 ce a port, folded q_def, simplified]
  have u: "q ! n = p ! n" if "12 \<le> n" "n < 16 \<or> (p ! 9 \<noteq> IPH_PROTO_ICMP \<and> 20 \<le> n \<and> n < 22)" for n
    using nat_rewrite_fields(3) [OF assms(1), of 16 22 n ce a port, folded q_def] that
    by (auto simp: sum_off_def port_off_def)
  show "go_slice q 16 20 = ip_bytes a"
    using nat_rewrite_fields(1) [OF assms(1), of 16 22 ce a port, folded q_def] by simp
  show "go_slice q 12 16 = go_slice p 12 16"
    by (rule go_slice_cong) (auto simp: l u)
  have "p ! 9 \<noteq> IPH_PROTO_ICMP \<Longrightarrow> go_slice q 20 22 = go_slice p 20 22"
    by (rule go_slice_cong) (auto simp: l u)
  moreover have "26 \<le> length p"
    using assms(1) by (auto simp: nat_ready_def split: if_splits)
  moreover have "get_be16 (go_slice q (port_off 22 (p ! 9)) (port_off 22 (p ! 9) + 2)) = port"
    using nat_rewrite_fields(2) [OF assms(1), of 16 22 ce a port, folded q_def] by simp
  ultimately show "NatGetSrcDstPort q = (if p ! 9 = IPH_PROTO_ICMP then port else fst (NatGetSrcDstPort p), port)"
    using assms(1) by (auto simp: NatGetSrcDstPort_def l port_off_def nat_ready_def ip_proto_known_def)
qed

subsection \<open>Properties\<close>

text \<open>C15: An IPv4 packet with a payload of at most 1480 bytes and a known protocol is parsed back
  from the bytes built for it, also when the link layer appended padding, with or without
  checksums; the identification counter advances by one.\<close>

theorem ipv4_roundtrip:
  assumes "ipv4_wf p" "length pad \<le> 1480 - length (ip_Payload p)"
  shows "\<exists>pkt. BuildIpv4Pkt ce n [] p = (n + 1, Ok pkt) \<and> length pkt = 20 + length (ip_Payload p) \<and>
    ParseIpv4Pkt ce (pkt @ pad) = Ok p"
  using ipv4_build_parse [OF assms(1)] assms(2) by blast

theorem ipv4_roundtrip_witness:
  "\<exists>pkt. BuildIpv4Pkt True 41 [] \<lparr>ip_Payload = [1, 2, 3], ip_IpHeadProto = IPH_PROTO_UDP, ip_SrcAddr = Ipv4Addr 10 0 0 1,
      ip_DstAddr = Ipv4Addr 10 0 0 2\<rparr> = (42, Ok pkt) \<and> length pkt = 23 \<and>
    ParseIpv4Pkt True (pkt @ [0, 0]) = Ok \<lparr>ip_Payload = [1, 2, 3], ip_IpHeadProto = IPH_PROTO_UDP,
      ip_SrcAddr = Ipv4Addr 10 0 0 1, ip_DstAddr = Ipv4Addr 10 0 0 2\<rparr>"
  using ipv4_roundtrip [of "\<lparr>ip_Payload = [1, 2, 3], ip_IpHeadProto = IPH_PROTO_UDP, ip_SrcAddr = Ipv4Addr 10 0 0 1,
      ip_DstAddr = Ipv4Addr 10 0 0 2\<rparr>" "[0, 0]" True 41]
  by (simp add: ipv4_wf_def ip_proto_known_def)





end
