(* ===== verification/Transport_Packets.thy ===== *)
theory Transport_Packets
  imports Ipv4_Packets
begin

text \<open>
  ICMP and UDP packets, \<^verbatim>\<open>src/protocol/icmp.go\<close> and \<^verbatim>\<open>src/protocol/udp.go\<close>. An ICMP packet
  always carries a checksum; a UDP datagram carries one over itself and the IPv4 pseudo
  header when \<open>ce\<close> is set. The lemmas give the round trips, with trailing bytes after the
  length a datagram declares, and that a translated datagram inside an IPv4 packet is
  accepted by the receiver with the payload it had.
\<close>

subsection \<open>ICMP\<close>

definition ICMP_DEFAULT_PAYLOAD :: bytes where
  "ICMP_DEFAULT_PAYLOAD =
     [0x61, 0x62, 0x63, 0x64, 0x65, 0x66, 0x67, 0x68, 0x69, 0x6a, 0x6b, 0x6c, 0x6d, 0x6e, 0x6f, 0x70,
      0x71, 0x72, 0x73, 0x74, 0x75, 0x76, 0x77, 0x61, 0x62, 0x63, 0x64, 0x65, 0x66, 0x67, 0x68, 0x69]"

definition ICMP_REQUEST :: u8 where "ICMP_REQUEST = 0x08"
definition ICMP_REPLY :: u8 where "ICMP_REPLY = 0x00"
definition ICMP_TTL :: u8 where "ICMP_TTL = 0x0b"

record IcmpPkt =
  icmp_Payload :: bytes
  icmp_IcmpType :: u8
  icmp_IcmpId :: bytes
  icmp_IcmpSeq :: u16

definition ParseIcmpPkt :: "bytes \<Rightarrow> IcmpPkt go_result" where
  "ParseIcmpPkt pkt =
     (if length pkt < 8 \<or> 1480 < length pkt then Err ''icmp packet len must >= 8 and <= 1480 bytes''
      else if pkt ! 0 \<noteq> ICMP_REQUEST \<and> pkt ! 0 \<noteq> ICMP_REPLY \<and> pkt ! 0 \<noteq> ICMP_TTL
      then Err ''not support type of icmp packet''
      else if pkt ! 1 \<noteq> 0x00 then Err ''not support type of icmp packet''
      else if GetCheckSum pkt \<noteq> 0 then Err ''check sum error''
      else Ok \<lparr>icmp_Payload = drop 8 pkt, icmp_IcmpType = pkt ! 0, icmp_IcmpId = go_slice pkt 4 6,
               icmp_IcmpSeq = get_be16 (go_slice pkt 6 8)\<rparr>)"

definition BuildIcmpPkt :: "bytes \<Rightarrow> IcmpPkt \<Rightarrow> bytes go_result" where
  "BuildIcmpPkt pkt packet =
     (if 1472 < length (icmp_Payload packet) then Err ''payload len must <= 1472''
      else if length (icmp_IcmpId packet) \<noteq> 2 then Err ''icmp id len is not 2 bytes''
      else
        let pkt = pkt @ [icmp_IcmpType packet];
            pkt = pkt @ [0x00];
            pkt = pkt @ [0x00, 0x00];
            pkt = pkt @ icmp_IcmpId packet;
            pkt = pkt @ be16 (icmp_IcmpSeq packet);
            pkt = pkt @ icmp_Payload packet
        in Ok (put_be16 2 (GetCheckSum pkt) pkt))"

subsection \<open>UDP\<close>

record UdpPkt =
  udp_Payload :: bytes
  udp_SrcPort :: u16
  udp_DstPort :: u16

definition pseudo_header :: "Ipv4AddrPair \<Rightarrow> u8 \<Rightarrow> u16 \<Rightarrow> bytes" where
  "pseudo_header addr proto len =
     ip_bytes (pair_SrcAddr addr) @ ip_bytes (pair_DstAddr addr) @ [0x00, proto] @ be16 len"

definition ParseUdpPkt :: "bool \<Rightarrow> bytes \<Rightarrow> Ipv4AddrPair \<Rightarrow> UdpPkt go_result" where
  "ParseUdpPkt ce pkt addr =
     (if length pkt < 8 \<or> 1480 < length pkt then Err ''udp packet len must >= 8 and <= 1480 bytes''
      else
        let srcPort = get_be16 [pkt ! 0, pkt ! 1];
            dstPort = get_be16 [pkt ! 2, pkt ! 3];
            totalLen = get_be16 [pkt ! 4, pkt ! 5]
        in
        if unat totalLen < 8 \<or> length pkt < unat totalLen then Err ''invalid udp total length''
        else if ce \<and> GetCheckSum (pseudo_header addr 0x11 totalLen @ take (unat totalLen) pkt) \<noteq> 0
        then Err ''check sum error''
        else Ok \<lparr>udp_Payload = go_slice pkt 8 (unat totalLen), udp_SrcPort = srcPort, udp_DstPort = dstPort\<rparr>)"

definition BuildUdpPkt :: "bool \<Rightarrow> bytes \<Rightarrow> UdpPkt \<Rightarrow> Ipv4AddrPair \<Rightarrow> bytes go_result" where
  "BuildUdpPkt ce pkt packet addr =
     (if 1472 < length (udp_Payload packet) then Err ''payload len must <= 1472''
      else
        let pkt = pkt @ be16 (udp_SrcPort packet);
            pkt = pkt @ be16 (udp_DstPort packet);
            udpPktLen = of_nat (length (udp_Payload packet) + 8) :: u16;
            pkt = pkt @ be16 udpPktLen;
            pkt = pkt @ [0x00, 0x00];
            pkt = pkt @ udp_Payload packet
        in if ce then Ok (put_be16 6 (GetCheckSum (pseudo_header addr 0x11 udpPktLen @ pkt)) pkt)
           else Ok (put_be16 6 0 pkt))"

subsection \<open>Round trips\<close>

definition icmp_wf :: "IcmpPkt \<Rightarrow> bool" where
  "icmp_wf p \<longleftrightarrow> length (icmp_Payload p) \<le> 1472 \<and> length (icmp_IcmpId p) = 2 \<and>
     icmp_IcmpType p \<in> {ICMP_REQUEST, ICMP_REPLY, ICMP_TTL}"

lemma icmp_build_parse:
  assumes "icmp_wf p"
  shows "\<exists>pkt. BuildIcmpPkt [] p = Ok pkt \<and> length pkt = 8 + length (icmp_Payload p) \<and>
    ParseIcmpPkt pkt = Ok p"
proof -
  obtain a b where ab: "icmp_IcmpId p = [a, b]"
    using assms by (auto simp: icmp_wf_def length_Suc_conv numeral_2_eq_2)
  let ?z = "[icmp_IcmpType p, 0, 0, 0, a, b] @ be16 (icmp_IcmpSeq p) @ icmp_Payload p"
  let ?w = "GetCheckSum ?z"
  let ?q = "[icmp_IcmpType p, 0] @ be16 ?w @ [a, b] @ be16 (icmp_IcmpSeq p) @ icmp_Payload p"
  have q: "put_be16 2 ?w ?z = ?q"
    by (simp add: put_be16_def be16_def)
  then have b: "BuildIcmpPkt [] p = Ok ?q"
    using assms by (simp add: BuildIcmpPkt_def icmp_wf_def ab)
  have "put_be16 2 0 ?z = ?z"
    by (simp add: put_be16_def)
  then have "GetCheckSum ?q = 0"
    using checksum_put_valid [of "[]" 2 ?z] assms unfolding q [symmetric]
    by (simp add: icmp_wf_def length_be)
  then have "ParseIcmpPkt ?q = Ok p"
    using assms ab by (cases p) (auto simp: ParseIcmpPkt_def icmp_wf_def be16_def be16_bytes go_slice_def)
  then show ?thesis
    using b by (auto simp: length_be)
qed

interpretation icmp_codec: codec "BuildIcmpPkt []" ParseIcmpPkt icmp_wf
  by unfold_locales (use icmp_build_parse in force)+

text \<open>The bytes of a datagram, with the checksum field as a parameter.\<close>

definition udp_bytes :: "u16 \<Rightarrow> UdpPkt \<Rightarrow> bytes" where
  "udp_bytes ck p = be16 (udp_SrcPort p) @ be16 (udp_DstPort p) @
     be16 (of_nat (length (udp_Payload p) + 8)) @ be16 ck @ udp_Payload p"

lemma length_udp_bytes [simp]: "length (udp_bytes ck p) = 8 + length (udp_Payload p)"
  by (simp add: udp_bytes_def length_be)

lemma put_udp_bytes: "put_be16 6 w (udp_bytes ck p) = udp_bytes w p"
  by (simp add: udp_bytes_def put_be16_def be16_def)

lemma length_pseudo_header [simp]: "length (pseudo_header addr t l) = 12"
  by (simp add: pseudo_header_def length_be)

lemma BuildUdpPkt_bytes:
  assumes "length (udp_Payload p) \<le> 1472"
  shows "BuildUdpPkt ce [] p addr = Ok (udp_bytes
    (if ce then GetCheckSum (pseudo_header addr 0x11 (of_nat (length (udp_Payload p) + 8)) @ udp_bytes 0 p)
     else 0) p)"
proof -
  have "be16 (udp_SrcPort p) @ be16 (udp_DstPort p) @ be16 (of_nat (length (udp_Payload p) + 8)) @
      [0, 0] @ udp_Payload p = udp_bytes 0 p"
    by (simp add: udp_bytes_def be16_def)
  then show ?thesis
    using assms put_udp_bytes [of _ 0 p] by (simp add: BuildUdpPkt_def Let_def)
qed

lemma ParseUdpPkt_bytes:
  assumes "length (udp_Payload p) \<le> 1472" "length pad \<le> 1472 - length (udp_Payload p)"
    and "ce \<longrightarrow> GetCheckSum (pseudo_header addr 0x11 (of_nat (length (udp_Payload p) + 8)) @ udp_bytes ck p) = 0"
  shows "ParseUdpPkt ce (udp_bytes ck p @ pad) addr = Ok p"
proof -
  let ?pkt = "udp_bytes ck p @ pad"
  have n: "get_be16 [?pkt ! 0, ?pkt ! 1] = udp_SrcPort p" "get_be16 [?pkt ! 2, ?pkt ! 3] = udp_DstPort p"
    "get_be16 [?pkt ! 4, ?pkt ! 5] = of_nat (length (udp_Payload p) + 8)"
    by (simp_all add: udp_bytes_def be16_def be16_bytes)
  have t: "unat (of_nat (length (udp_Payload p) + 8) :: u16) = length (udp_Payload p) + 8"
    using assms by (intro unat_of_nat_u16) simp
  have l: "\<not> (length ?pkt < 8 \<or> 1480 < length ?pkt)"
    "\<not> (length (udp_Payload p) + 8 < 8 \<or> length ?pkt < length (udp_Payload p) + 8)"
    using assms by auto
  have g: "take (length (udp_Payload p) + 8) ?pkt = udp_bytes ck p"
    "go_slice ?pkt 8 (length (udp_Payload p) + 8) = udp_Payload p"
    by simp (simp add: go_slice_def udp_bytes_def be16_def)
  show ?thesis
    unfolding ParseUdpPkt_def Let_def n t g if_not_P [OF l(1)] if_not_P [OF l(2)]
    using assms(3) by auto
qed

lemma udp_build_parse:
  assumes "length (udp_Payload p) \<le> 1472"
  shows "\<exists>pkt. BuildUdpPkt ce [] p addr = Ok pkt \<and> length pkt = 8 + length (udp_Payload p) \<and>
    (\<forall>pad. length pad \<le> 1472 - length (udp_Payload p) \<longrightarrow> ParseUdpPkt ce (pkt @ pad) addr = Ok p)"
proof -
  have "GetCheckSum (pseudo_header addr 0x11 l @ udp_bytes (GetCheckSum (pseudo_header addr 0x11 l @ udp_bytes 0 p)) p) = 0"
    for l
    using checksum_put_valid [of "pseudo_header addr 0x11 l" 6 "udp_bytes 0 p"] assms
    by (simp add: put_udp_bytes)
  then show ?thesis
    using assms by (simp add: BuildUdpPkt_bytes ParseUdpPkt_bytes)
qed

interpretation udp_codec: codec "\<lambda>p. BuildUdpPkt ce [] p addr" "\<lambda>b. ParseUdpPkt ce b addr"
    "\<lambda>p. length (udp_Payload p) \<le> 1472"
  for ce :: bool and addr :: Ipv4AddrPair
proof
  fix p :: UdpPkt and bs
  assume "length (udp_Payload p) \<le> 1472"
  then obtain pkt where "BuildUdpPkt ce [] p addr = Ok pkt" "ParseUdpPkt ce (pkt @ []) addr = Ok p"
    using udp_build_parse by (metis le0 list.size(3))
  then show "\<exists>bs. BuildUdpPkt ce [] p addr = Ok bs"
    and "BuildUdpPkt ce [] p addr = Ok bs \<Longrightarrow> ParseUdpPkt ce bs addr = Ok p"
    by auto
qed

subsection \<open>A translated datagram is accepted by its receiver\<close>

lemma words_sum_zeros: "words_sum (xs @ replicate n 0) = words_sum xs"
proof (induction xs rule: words_sum.induct)
  case (2 a)
  have "words_sum (replicate m 0) = 0" for m
    by (induction m rule: induct_nat_012) auto
  then show ?case
    by (cases n) simp_all
next
  case 3
  show ?case
    by (induction n rule: induct_nat_012) auto
qed simp

lemma GetCheckSum_zeros:
  "length xs + n \<le> 131072 \<Longrightarrow> GetCheckSum (xs @ replicate n 0) = GetCheckSum xs"
  by (simp add: word_unat_eq_iff unat_GetCheckSum words_sum_zeros)

text \<open>The datagram fills the IPv4 payload and the frame carries nothing after it but zeros.\<close>

definition udp_in_frame :: "bytes \<Rightarrow> bool" where
  "udp_in_frame pkt \<longleftrightarrow>
     (let t = unat (get_be16 [pkt ! 2, pkt ! 3]) in
      28 \<le> length pkt \<and> unat (get_be16 [pkt ! 24, pkt ! 25]) + 20 = t \<and>
      drop t pkt = replicate (length pkt - t) 0)"

lemma ParseIpv4Pkt_D:
  assumes "ParseIpv4Pkt ce pkt = Ok p"
  shows "20 \<le> length pkt" "length pkt \<le> 1500" "pkt ! 0 = 0x45"
    "20 \<le> unat (get_be16 [pkt ! 2, pkt ! 3])" "unat (get_be16 [pkt ! 2, pkt ! 3]) \<le> length pkt"
    "pkt ! 6 = 0x40 \<or> pkt ! 6 = 0" "pkt ! 7 = 0" "ip_proto_known (pkt ! 9)" "ce \<Longrightarrow> ip_header_valid pkt"
    "p = \<lparr>ip_Payload = go_slice pkt 20 (unat (get_be16 [pkt ! 2, pkt ! 3])), ip_IpHeadProto = pkt ! 9,
          ip_SrcAddr = ip_of_bytes (go_slice pkt 12 16), ip_DstAddr = ip_of_bytes (go_slice pkt 16 20)\<rparr>"
  using assms by (auto simp: ParseIpv4Pkt_def Let_def ip_proto_known_def ip_header_valid_def split: if_splits)

lemma ParseIpv4Pkt_I:
  assumes "20 \<le> length pkt" "length pkt \<le> 1500" "pkt ! 0 = 0x45"
    "20 \<le> unat (get_be16 [pkt ! 2, pkt ! 3])" "unat (get_be16 [pkt ! 2, pkt ! 3]) \<le> length pkt"
    "pkt ! 6 = 0x40 \<or> pkt ! 6 = 0" "pkt ! 7 = 0" "ip_proto_known (pkt ! 9)" "ce \<Longrightarrow> ip_header_valid pkt"
  shows "ParseIpv4Pkt ce pkt =
    Ok \<lparr>ip_Payload = go_slice pkt 20 (unat (get_be16 [pkt ! 2, pkt ! 3])), ip_IpHeadProto = pkt ! 9,
        ip_SrcAddr = ip_of_bytes (go_slice pkt 12 16), ip_DstAddr = ip_of_bytes (go_slice pkt 16 20)\<rparr>"
  using assms by (auto simp: ParseIpv4Pkt_def Let_def ip_proto_known_def ip_header_valid_def)

lemma ip_bytes_of_bytes: "length b = 4 \<Longrightarrow> ip_bytes (ip_of_bytes b) = b"
  by (auto simp: ip_of_bytes_def length_Suc_conv numeral_eq_Suc)

text \<open>Any frame whose sums are right is accepted at both layers.\<close>

lemma udp_frame_accepted:
  fixes pkt
  defines "t \<equiv> unat (get_be16 [pkt ! 2, pkt ! 3])"
    and "src \<equiv> ip_of_bytes (go_slice pkt 12 16)" and "dst \<equiv> ip_of_bytes (go_slice pkt 16 20)"
  assumes "length pkt \<le> 1500" "t \<le> length pkt" "udp_in_frame pkt" "28 \<le> t"
    and "pkt ! 9 = IPH_PROTO_UDP" "ce \<Longrightarrow> transport_valid pkt"
  shows "ParseUdpPkt ce (go_slice pkt 20 t) \<lparr>pair_SrcAddr = src, pair_DstAddr = dst\<rparr> =
    Ok \<lparr>udp_Payload = go_slice pkt 28 t, udp_SrcPort = get_be16 [pkt ! 20, pkt ! 21],
        udp_DstPort = get_be16 [pkt ! 22, pkt ! 23]\<rparr>"
proof -
  let ?d = "go_slice pkt 20 t"
  have d: "length ?d = t - 20"
    using assms by (simp add: length_go_slice)
  have n: "?d ! k = pkt ! (20 + k)" if "k < 8" for k
    using that assms by (simp add: nth_go_slice)
  have f: "unat (get_be16 [pkt ! 24, pkt ! 25]) = t - 20" "drop t pkt = replicate (length pkt - t) 0"
    using assms(6) by (auto simp: udp_in_frame_def t_def Let_def)
  have w: "get_be16 [pkt ! 2, pkt ! 3] - 20 = get_be16 [pkt ! 24, pkt ! 25]"
    using f(1) assms(7) by (simp add: word_unat_eq_iff unat_sub_if' t_def)
  have dr: "drop 20 pkt = ?d @ replicate (length pkt - t) 0"
    using append_take_drop_id [of "t - 20" "drop 20 pkt"] assms(7) f(2) by (simp add: go_slice_def)
  have h: "fakeHeader 17 pkt = pseudo_header \<lparr>pair_SrcAddr = src, pair_DstAddr = dst\<rparr> 17
      (get_be16 [pkt ! 24, pkt ! 25])"
    using assms(5,7) by (simp add: fakeHeader_def pseudo_header_def src_def dst_def ip_bytes_of_bytes
        length_go_slice w)
  have "GetCheckSum (pseudo_header \<lparr>pair_SrcAddr = src, pair_DstAddr = dst\<rparr> 17
      (get_be16 [pkt ! 24, pkt ! 25]) @ ?d) = 0" if "ce"
    using assms(9) [OF that] assms(4,5,8) d
    GetCheckSum_zeros [of "pseudo_header \<lparr>pair_SrcAddr = src, pair_DstAddr = dst\<rparr> 17
      (get_be16 [pkt ! 24, pkt ! 25]) @ ?d" "length pkt - t"]
    by (simp add: transport_valid_def proto_defs h dr)
  moreover have "go_slice ?d 8 (t - 20) = go_slice pkt 28 t"
    by (simp add: go_slice_def drop_take)
  ultimately show ?thesis
    using assms(4,5,7) d f(1)
    by (auto simp: ParseUdpPkt_def Let_def n n [of 0, simplified])
qed

lemma nat_rewrite_udp_frame:
  assumes p: "ParseIpv4Pkt ce pkt = Ok p" "ip_IpHeadProto p = IPH_PROTO_UDP" "udp_in_frame pkt"
    and o: "(ao, po) \<in> {(12, 20), (16, 22)}"
  defines "t \<equiv> unat (get_be16 [pkt ! 2, pkt ! 3])"
  assumes "28 \<le> t" and q_def: "q = nat_rewrite ao po ce pkt a port"
  shows "ParseIpv4Pkt ce q = Ok \<lparr>ip_Payload = go_slice q 20 t, ip_IpHeadProto = IPH_PROTO_UDP,
        ip_SrcAddr = ip_of_bytes (go_slice q 12 16), ip_DstAddr = ip_of_bytes (go_slice q 16 20)\<rparr>"
    "ParseUdpPkt ce (go_slice q 20 t)
        \<lparr>pair_SrcAddr = ip_of_bytes (go_slice q 12 16), pair_DstAddr = ip_of_bytes (go_slice q 16 20)\<rparr> =
      Ok \<lparr>udp_Payload = go_slice pkt 28 t, udp_SrcPort = get_be16 [q ! 20, q ! 21],
          udp_DstPort = get_be16 [q ! 22, q ! 23]\<rparr>"
proof -
  note d = ParseIpv4Pkt_D [OF p(1)]
  have u: "pkt ! 9 = IPH_PROTO_UDP"
    using p(2) d(10) by simp
  have r: "nat_ready pkt"
    using d p(3) u by (simp add: nat_ready_def udp_in_frame_def Let_def proto_defs)
  note v = nat_rewrite_valid [OF r, of ao po ce a port, folded q_def]
  have ok: "ao \<in> {12, 16}" "po \<in> {20, 22}"
    using o by auto
  have k: "q ! k = pkt ! k" if "k < 10 \<or> k = 24 \<or> k = 25 \<or> 28 \<le> k" for k
    using nat_rewrite_fields(3) [OF r ok, of k ce a port, folded q_def] that o
    by (auto simp: u port_off_def sum_off_def proto_defs)
  have l: "length q = length pkt"
    by (rule v(1) [OF ok])
  have s: "go_slice q 28 t = go_slice pkt 28 t"
    by (rule go_slice_cong) (auto simp: l k)
  have "drop t q = drop t pkt"
    by (rule nth_equalityI) (use assms(6) in \<open>auto simp: l k\<close>)
  then have fr: "udp_in_frame q"
    using p(3) by (simp add: udp_in_frame_def Let_def k l t_def)
  have t': "unat (get_be16 [q ! 2, q ! 3]) = t"
    by (simp add: k t_def)
  have "ParseIpv4Pkt ce q = Ok \<lparr>ip_Payload = go_slice q 20 (unat (get_be16 [q ! 2, q ! 3])), ip_IpHeadProto = q ! 9,
        ip_SrcAddr = ip_of_bytes (go_slice q 12 16), ip_DstAddr = ip_of_bytes (go_slice q 16 20)\<rparr>"
    by (rule ParseIpv4Pkt_I) (use d v(3) [OF ok] in \<open>auto simp: l k\<close>)
  then show "ParseIpv4Pkt ce q = Ok \<lparr>ip_Payload = go_slice q 20 t, ip_IpHeadProto = IPH_PROTO_UDP,
        ip_SrcAddr = ip_of_bytes (go_slice q 12 16), ip_DstAddr = ip_of_bytes (go_slice q 16 20)\<rparr>"
    by (simp add: t_def k u)
  have "transport_valid q" if ce
    using v(4) [OF ok] that by simp
  then show "ParseUdpPkt ce (go_slice q 20 t)
        \<lparr>pair_SrcAddr = ip_of_bytes (go_slice q 12 16), pair_DstAddr = ip_of_bytes (go_slice q 16 20)\<rparr> =
      Ok \<lparr>udp_Payload = go_slice pkt 28 t, udp_SrcPort = get_be16 [q ! 20, q ! 21],
          udp_DstPort = get_be16 [q ! 22, q ! 23]\<rparr>"
    using udp_frame_accepted [of q ce, unfolded t'] d(2,5) fr assms(6)
    by (simp add: l k u s [unfolded t_def] t_def)
qed

lemma NatGetSrcDstPort_bytes:
  assumes "28 \<le> length q" "q ! 9 = IPH_PROTO_UDP"
  shows "NatGetSrcDstPort q = (get_be16 [q ! 20, q ! 21], get_be16 [q ! 22, q ! 23])"
proof -
  have "go_slice q 20 22 = [q ! 20, q ! 21]" "go_slice q 22 24 = [q ! 22, q ! 23]"
    using assms(1) by (auto simp: list_eq_iff_nth_eq length_go_slice nth_go_slice less_Suc_eq numeral_2_eq_2)
  then show ?thesis
    using assms by (simp add: NatGetSrcDstPort_def proto_defs)
qed

lemma udp_frame_parse:
  assumes "ParseIpv4Pkt ce pkt = Ok p" "ip_IpHeadProto p = IPH_PROTO_UDP" "udp_in_frame pkt"
    and "ParseUdpPkt ce (ip_Payload p) addr = Ok u"
  shows "28 \<le> unat (get_be16 [pkt ! 2, pkt ! 3])"
    "u = \<lparr>udp_Payload = go_slice pkt 28 (unat (get_be16 [pkt ! 2, pkt ! 3])),
          udp_SrcPort = fst (NatGetSrcDstPort pkt), udp_DstPort = snd (NatGetSrcDstPort pkt)\<rparr>"
    "nat_ready pkt"
proof -
  note d = ParseIpv4Pkt_D [OF assms(1)]
  let ?t = "unat (get_be16 [pkt ! 2, pkt ! 3])"
  have l: "length (ip_Payload p) = ?t - 20"
    using d by (simp add: length_go_slice)
  show t: "28 \<le> ?t"
    using assms(4) l by (auto simp: ParseUdpPkt_def split: if_splits)
  have n: "ip_Payload p ! k = pkt ! (20 + k)" if "k < 8" for k
    using that t d by (simp add: nth_go_slice)
  have f: "28 \<le> length pkt" "unat (get_be16 [pkt ! 24, pkt ! 25]) = ?t - 20"
    using assms(3) by (auto simp: udp_in_frame_def Let_def)
  have u: "pkt ! 9 = IPH_PROTO_UDP"
    using assms(2) d(10) by simp
  have "go_slice (ip_Payload p) 8 (?t - 20) = go_slice pkt 28 ?t"
    using d(10) by (simp add: go_slice_def drop_take)
  then show "u = \<lparr>udp_Payload = go_slice pkt 28 ?t,
          udp_SrcPort = fst (NatGetSrcDstPort pkt), udp_DstPort = snd (NatGetSrcDstPort pkt)\<rparr>"
    using assms(4) f u by (auto simp: ParseUdpPkt_def Let_def n n [of 0, simplified] NatGetSrcDstPort_bytes
        split: if_splits)
  show "nat_ready pkt"
    using d f assms(2) by (simp add: nat_ready_def proto_defs)
qed

lemma nat_src_udp:
  assumes "ParseIpv4Pkt ce pkt = Ok p" "ip_IpHeadProto p = IPH_PROTO_UDP" "udp_in_frame pkt"
    and "ParseUdpPkt ce (ip_Payload p) addr = Ok u"
  shows "\<exists>p'. ParseIpv4Pkt ce (NatChangeSrc ce pkt a port) = Ok p' \<and>
    ip_SrcAddr p' = a \<and> ip_DstAddr p' = ip_DstAddr p \<and>
    ParseUdpPkt ce (ip_Payload p') \<lparr>pair_SrcAddr = a, pair_DstAddr = ip_DstAddr p\<rparr> =
      Ok (u\<lparr>udp_SrcPort := port\<rparr>)"
proof -
  note f = udp_frame_parse [OF assms]
  note d = ParseIpv4Pkt_D [OF assms(1)]
  have u: "pkt ! 9 = IPH_PROTO_UDP"
    using assms(2) d(10) by simp
  let ?q = "nat_rewrite 12 20 ce pkt a port"
  note e = nat_rewrite_udp_frame [OF assms(1-3) _ f(1) refl, of 12 20 a port]
  note s = nat_rewrite_src [OF f(3) refl, of ce a port]
  have "28 \<le> length ?q" "?q ! 9 = IPH_PROTO_UDP"
    using nat_rewrite_valid(1,2) [OF f(3), of 12 20 ce a port] f(1) d(5) u by auto
  then have "get_be16 [?q ! 20, ?q ! 21] = port" "get_be16 [?q ! 22, ?q ! 23] = snd (NatGetSrcDstPort pkt)"
    using s(3) u by (simp_all add: NatGetSrcDstPort_bytes proto_defs)
  then show ?thesis
    using e s(1,2) d(10) f(2) by (simp add: nat_rewrite_eqs)
qed

lemma nat_dst_udp:
  assumes "ParseIpv4Pkt ce pkt = Ok p" "ip_IpHeadProto p = IPH_PROTO_UDP" "udp_in_frame pkt"
    and "ParseUdpPkt ce (ip_Payload p) addr = Ok u"
  shows "\<exists>p'. ParseIpv4Pkt ce (NatChangeDst ce pkt a port) = Ok p' \<and>
    ip_SrcAddr p' = ip_SrcAddr p \<and> ip_DstAddr p' = a \<and>
    ParseUdpPkt ce (ip_Payload p') \<lparr>pair_SrcAddr = ip_SrcAddr p, pair_DstAddr = a\<rparr> =
      Ok (u\<lparr>udp_DstPort := port\<rparr>)"
proof -
  note f = udp_frame_parse [OF assms]
  note d = ParseIpv4Pkt_D [OF assms(1)]
  have u: "pkt ! 9 = IPH_PROTO_UDP"
    using assms(2) d(10) by simp
  let ?q = "nat_rewrite 16 22 ce pkt a port"
  note e = nat_rewrite_udp_frame [OF assms(1-3) _ f(1) refl, of 16 22 a port]
  note s = nat_rewrite_dst [OF f(3) refl, of ce a port]
  have "28 \<le> length ?q" "?q ! 9 = IPH_PROTO_UDP"
    using nat_rewrite_valid(1,2) [OF f(3), of 16 22 ce a port] f(1) d(5) u by auto
  then have "get_be16 [?q ! 22, ?q ! 23] = port" "get_be16 [?q ! 20, ?q ! 21] = fst (NatGetSrcDstPort pkt)"
    using s(3) u by (simp_all add: NatGetSrcDstPort_bytes proto_defs)
  then show ?thesis
    using e s(1,2) d(10) f(2) by (simp add: nat_rewrite_eqs)
qed

subsection \<open>Properties\<close>

text \<open>C19: An ICMP echo request, reply or time-exceeded message with a payload of at most 1472
  bytes is parsed back from its bytes, checksum included.\<close>

theorem icmp_roundtrip:
  assumes "icmp_wf p"
  shows "\<exists>pkt. BuildIcmpPkt [] p = Ok pkt \<and> length pkt = 8 + length (icmp_Payload p) \<and> ParseIcmpPkt pkt = Ok p"
  using assms by (rule icmp_build_parse)

theorem icmp_roundtrip_witness:
  "\<exists>pkt. BuildIcmpPkt [] \<lparr>icmp_Payload = [1, 2, 3], icmp_IcmpType = ICMP_REQUEST, icmp_IcmpId = [0, 1],
      icmp_IcmpSeq = 7\<rparr> = Ok pkt \<and> length pkt = 11 \<and>
    ParseIcmpPkt pkt = Ok \<lparr>icmp_Payload = [1, 2, 3], icmp_IcmpType = ICMP_REQUEST, icmp_IcmpId = [0, 1],
      icmp_IcmpSeq = 7\<rparr>"
  using icmp_roundtrip [of "\<lparr>icmp_Payload = [1, 2, 3], icmp_IcmpType = ICMP_REQUEST, icmp_IcmpId = [0, 1], icmp_IcmpSeq = 7\<rparr>"]
  by (simp add: icmp_wf_def)

text \<open>C18: A UDP datagram with a payload of at most 1472 bytes is parsed back from its bytes
  between the same two addresses, also behind trailing padding.\<close>

theorem udp_roundtrip:
  assumes "length (udp_Payload p) \<le> 1472" "length pad \<le> 1472 - length (udp_Payload p)"
  shows "\<exists>pkt. BuildUdpPkt ce [] p addr = Ok pkt \<and> length pkt = 8 + length (udp_Payload p) \<and>
    ParseUdpPkt ce (pkt @ pad) addr = Ok p"
  using udp_build_parse [OF assms(1)] assms(2) by blast

theorem udp_roundtrip_witness:
  "\<exists>pkt. BuildUdpPkt True [] \<lparr>udp_Payload = [1, 2, 3], udp_SrcPort = 68, udp_DstPort = 67\<rparr>
      \<lparr>pair_SrcAddr = Ipv4Addr 10 0 0 1, pair_DstAddr = Ipv4Addr 10 0 0 2\<rparr> = Ok pkt \<and> length pkt = 11 \<and>
    ParseUdpPkt True (pkt @ [0]) \<lparr>pair_SrcAddr = Ipv4Addr 10 0 0 1, pair_DstAddr = Ipv4Addr 10 0 0 2\<rparr> =
      Ok \<lparr>udp_Payload = [1, 2, 3], udp_SrcPort = 68, udp_DstPort = 67\<rparr>"
  using udp_roundtrip [of "\<lparr>udp_Payload = [1, 2, 3], udp_SrcPort = 68, udp_DstPort = 67\<rparr>" "[0]" True
      "\<lparr>pair_SrcAddr = Ipv4Addr 10 0 0 1, pair_DstAddr = Ipv4Addr 10 0 0 2\<rparr>"]
  by simp



text \<open>C12: Address translation spoils the checksum of a UDP packet with other bytes behind it: the translated
  checksum is taken over everything in the frame behind the IPv4 header, while a receiver sums the datagram only. A frame
  of 32 bytes holding a packet of 31 bytes and one byte 1 is accepted by both parsers; after the translation the
  IPv4 parser still accepts it and the UDP parser answers with a checksum error.\<close>

theorem nat_udp_trailer_rejected:
  "let pkt = [0x45, 0, 0, 31, 0, 0, 0, 0, 64, 17, 0x66, 0xcc, 10, 0, 0, 1, 10, 0, 0, 2, 0, 68, 0, 67, 0, 11, 231, 76, 1, 2, 3, 1];
       src = Ipv4Addr 10 0 0 1; dst = Ipv4Addr 10 0 0 2; new = Ipv4Addr 1 2 3 4
   in (case ParseIpv4Pkt True pkt of Inl _ \<Rightarrow> False
       | Inr p \<Rightarrow> ParseUdpPkt True (ip_Payload p) \<lparr>pair_SrcAddr = src, pair_DstAddr = dst\<rparr> =
           Ok \<lparr>udp_Payload = [1, 2, 3], udp_SrcPort = 68, udp_DstPort = 67\<rparr>) \<and>
      (case ParseIpv4Pkt True (NatChangeSrc True pkt new 5000) of Inl _ \<Rightarrow> False
       | Inr p \<Rightarrow> ParseUdpPkt True (ip_Payload p) \<lparr>pair_SrcAddr = new, pair_DstAddr = dst\<rparr> = Err ''check sum error'')"
  by code_simp

end
