(* ===== verification/Tcp_Packets.thy ===== *)
theory Tcp_Packets
  imports Transport_Packets
begin

text \<open>
  TCP segments, \<^verbatim>\<open>src/protocol/tcp.go\<close>. The reads of the parser, at fixed offsets and in the option
  loop at offsets read from the segment, are partial here, so that a read out of range, which panics
  in Go, is the value \<^const>\<open>None\<close>. The lemmas show that this never happens, whatever
  the bytes, that the loop ends, and the round trip of the builder and the parser with
  and without the maximum segment size option.
\<close>

definition TCP_FLAGS_URG :: u8 where "TCP_FLAGS_URG = 0x20"
definition TCP_FLAGS_ACK :: u8 where "TCP_FLAGS_ACK = 0x10"
definition TCP_FLAGS_PSH :: u8 where "TCP_FLAGS_PSH = 0x08"
definition TCP_FLAGS_RST :: u8 where "TCP_FLAGS_RST = 0x04"
definition TCP_FLAGS_SYN :: u8 where "TCP_FLAGS_SYN = 0x02"
definition TCP_FLAGS_FIN :: u8 where "TCP_FLAGS_FIN = 0x01"

record TcpPkt =
  tcp_Payload :: bytes
  tcp_SrcPort :: u16
  tcp_DstPort :: u16
  tcp_SeqNum :: u32
  tcp_AckNum :: u32
  tcp_Flags :: u8
  tcp_Window :: u16
  tcp_Mss :: u16

text \<open>A slice literal of several elements, \<^verbatim>\<open>[]byte{pkt[i], pkt[j]}\<close>: each index is checked.\<close>

definition go_nths :: "'a list \<Rightarrow> nat list \<Rightarrow> 'a list option" where
  "go_nths xs js = those (map (go_nth xs) js)"

function tcp_options :: "bytes \<Rightarrow> nat \<Rightarrow> u8 \<Rightarrow> nat \<Rightarrow> u16 \<Rightarrow> u16 go_result option" where
  "tcp_options pkt headerLen flags offset mss =
     (if \<not> offset < headerLen then Some (Ok mss)
      else case go_nth pkt offset of None \<Rightarrow> None | Some kind \<Rightarrow>
        if kind = 0 then Some (Ok mss)
        else if kind = 1 then tcp_options pkt headerLen flags (offset + 1) mss
        else if headerLen < offset + 2 then Some (Err ''invalid tcp option length'')
        else case go_nth pkt (offset + 1) of None \<Rightarrow> None | Some l \<Rightarrow>
          if l < 2 \<or> headerLen < offset + unat l then Some (Err ''invalid tcp option length'')
          else if kind = 2 then
            (if l \<noteq> 4 then Some (Err ''invalid tcp mss option'')
             else case go_sub pkt (offset + 2) (offset + 4) of None \<Rightarrow> None | Some m \<Rightarrow>
               if get_be16 m = 0 then Some (Err ''invalid tcp mss option'')
               else tcp_options pkt headerLen flags (offset + unat l)
                      (if flags AND TCP_FLAGS_SYN \<noteq> 0 then get_be16 m else mss))
          else tcp_options pkt headerLen flags (offset + unat l) mss)"
  by pat_completeness auto

termination tcp_options
  by (relation "measure (\<lambda>(pkt, h, f, off, m). h - off)") (auto simp: word_less_nat_alt)

declare tcp_options.simps [simp del]

definition ParseTcpPkt :: "bool \<Rightarrow> bytes \<Rightarrow> Ipv4AddrPair \<Rightarrow> TcpPkt go_result option" where
  "ParseTcpPkt ce pkt addr =
     (if length pkt < 20 \<or> 1480 < length pkt
      then Some (Err ''tcp packet len must >= 20 and <= 1480 bytes'')
      else do {
        src \<leftarrow> go_nths pkt [0, 1];
        dst \<leftarrow> go_nths pkt [2, 3];
        seqNum \<leftarrow> go_nths pkt [4, 5, 6, 7];
        ackNum \<leftarrow> go_nths pkt [8, 9, 10, 11];
        dataOffset \<leftarrow> go_nth pkt 12;
        let headerLen = unat (drop_bit 4 dataOffset) * 4;
        if headerLen < 20 \<or> length pkt < headerLen then Some (Err ''invalid tcp header length'')
        else do {
          flags \<leftarrow> go_nth pkt 13;
          window \<leftarrow> go_sub pkt 14 16;
          options \<leftarrow> tcp_options pkt headerLen flags 20 0;
          case options of
            Inl e \<Rightarrow> Some (Err e)
          | Inr mss \<Rightarrow>
              if ce \<and> GetCheckSum (pseudo_header addr 0x06 (of_nat (length pkt)) @ pkt) \<noteq> 0
              then Some (Err ''check sum error'')
              else do {
                payload \<leftarrow> go_sub pkt headerLen (length pkt);
                Some (Ok \<lparr>tcp_Payload = payload, tcp_SrcPort = get_be16 src, tcp_DstPort = get_be16 dst,
                  tcp_SeqNum = get_be32 seqNum, tcp_AckNum = get_be32 ackNum, tcp_Flags = flags,
                  tcp_Window = get_be16 window, tcp_Mss = mss\<rparr>)
              }
        }
      })"

definition BuildTcpPkt :: "bool \<Rightarrow> bytes \<Rightarrow> TcpPkt \<Rightarrow> Ipv4AddrPair \<Rightarrow> bytes go_result" where
  "BuildTcpPkt ce pkt packet addr =
     (if length pkt \<noteq> 0 then Err ''tcp output buffer length must be zero''
      else if tcp_Mss packet \<noteq> 0 \<and> tcp_Flags packet AND TCP_FLAGS_SYN = 0
      then Err ''tcp mss option requires SYN''
      else
        let headerLen = (if tcp_Mss packet \<noteq> 0 then 20 + 4 else 20 :: nat) in
        if 1480 - headerLen < length (tcp_Payload packet) then Err ''tcp packet length exceeds 1480 bytes''
        else
          let pkt = pkt @ be16 (tcp_SrcPort packet);
              pkt = pkt @ be16 (tcp_DstPort packet);
              pkt = pkt @ be32 (tcp_SeqNum packet);
              pkt = pkt @ be32 (tcp_AckNum packet);
              pkt = pkt @ [push_bit 4 (of_nat (headerLen div 4)), tcp_Flags packet];
              pkt = pkt @ be16 (tcp_Window packet);
              pkt = pkt @ [0x00, 0x00];
              pkt = pkt @ [0x00, 0x00];
              pkt = (if tcp_Mss packet \<noteq> 0 then pkt @ [2, 4] @ be16 (tcp_Mss packet) else pkt);
              pkt = pkt @ tcp_Payload packet
          in if ce then Ok (put_be16 16 (GetCheckSum (pseudo_header addr 0x06 (of_nat (length pkt)) @ pkt)) pkt)
             else Ok (put_be16 16 0 pkt))"

subsection \<open>The option loop reads inside the header\<close>

lemma tcp_options_total:
  "headerLen \<le> length pkt \<Longrightarrow> tcp_options pkt headerLen flags offset mss \<noteq> None"
proof (induction pkt headerLen flags offset mss rule: tcp_options.induct)
  case (1 pkt headerLen flags offset mss)
  then show ?case
    by (subst tcp_options.simps) (auto simp: go_nth_def go_sub_def word_less_nat_alt split: option.splits)
qed

text \<open>Past the length check every fixed read succeeds.\<close>

lemma ParseTcpPkt_reads:
  assumes "20 \<le> length pkt" "length pkt \<le> 1480"
  defines "h \<equiv> unat (drop_bit 4 (pkt ! 12)) * 4"
  shows "ParseTcpPkt ce pkt addr =
    (if h < 20 \<or> length pkt < h then Some (Err ''invalid tcp header length'')
     else case tcp_options pkt h (pkt ! 13) 20 0 of
       None \<Rightarrow> None
     | Some (Inl e) \<Rightarrow> Some (Err e)
     | Some (Inr mss) \<Rightarrow>
         if ce \<and> GetCheckSum (pseudo_header addr 0x06 (of_nat (length pkt)) @ pkt) \<noteq> 0 then Some (Err ''check sum error'')
         else Some (Ok \<lparr>tcp_Payload = drop h pkt, tcp_SrcPort = get_be16 [pkt ! 0, pkt ! 1],
           tcp_DstPort = get_be16 [pkt ! 2, pkt ! 3], tcp_SeqNum = get_be32 [pkt ! 4, pkt ! 5, pkt ! 6, pkt ! 7],
           tcp_AckNum = get_be32 [pkt ! 8, pkt ! 9, pkt ! 10, pkt ! 11], tcp_Flags = pkt ! 13,
           tcp_Window = get_be16 (go_slice pkt 14 16), tcp_Mss = mss\<rparr>))"
proof -
  have n: "go_nth pkt i = Some (pkt ! i)" if "i < 20" for i
    using that assms(1) by (simp add: go_nth_def)
  have s: "go_sub pkt 14 16 = Some (go_slice pkt 14 16)"
    "go_sub pkt h (length pkt) = Some (drop h pkt)" if "\<not> length pkt < h"
    using that assms(1) by (simp_all add: go_sub_def go_slice_def)
  have h: "unat (drop_bit 4 (pkt ! 12)) < 5 \<longleftrightarrow> h < 20"
    by (simp add: h_def)
  show ?thesis
    using assms(1,2) s by (auto simp: ParseTcpPkt_def go_nths_def n Let_def h_def [symmetric] h split: option.split sum.split)
qed

lemma ParseTcpPkt_total: "\<exists>r. ParseTcpPkt ce pkt addr = Some r"
proof (cases "length pkt < 20 \<or> 1480 < length pkt")
  case False
  then show ?thesis
    using tcp_options_total [of "unat (drop_bit 4 (pkt ! 12)) * 4" pkt "pkt ! 13" 20 0]
    by (auto simp: ParseTcpPkt_reads split: sum.splits)
qed (auto simp: ParseTcpPkt_def)

subsection \<open>Round trip\<close>

definition tcp_wf :: "TcpPkt \<Rightarrow> bool" where
  "tcp_wf p \<longleftrightarrow> (tcp_Mss p \<noteq> 0 \<longrightarrow> tcp_Flags p AND TCP_FLAGS_SYN \<noteq> 0) \<and>
     length (tcp_Payload p) \<le> 1480 - (if tcp_Mss p \<noteq> 0 then 24 else 20)"

definition tcp_bytes :: "u16 \<Rightarrow> TcpPkt \<Rightarrow> bytes" where
  "tcp_bytes ck p = be16 (tcp_SrcPort p) @ be16 (tcp_DstPort p) @ be32 (tcp_SeqNum p) @ be32 (tcp_AckNum p) @
     [if tcp_Mss p \<noteq> 0 then 0x60 else 0x50, tcp_Flags p] @ be16 (tcp_Window p) @ be16 ck @ [0, 0] @
     (if tcp_Mss p \<noteq> 0 then [2, 4] @ be16 (tcp_Mss p) else []) @ tcp_Payload p"

lemma length_tcp_bytes:
  "length (tcp_bytes ck p) = (if tcp_Mss p \<noteq> 0 then 24 else 20) + length (tcp_Payload p)"
  by (simp add: tcp_bytes_def length_be)

lemma put_tcp_bytes: "put_be16 16 w (tcp_bytes ck p) = tcp_bytes w p"
  by (simp add: tcp_bytes_def put_be16_def be16_def be32_def)

lemma BuildTcpPkt_bytes:
  assumes "tcp_wf p"
  shows "BuildTcpPkt ce [] p addr = Ok (tcp_bytes
    (if ce then GetCheckSum (pseudo_header addr 0x06 (of_nat (length (tcp_bytes 0 p))) @ tcp_bytes 0 p)
     else 0) p)"
proof -
  have z: "be16 (tcp_SrcPort p) @ be16 (tcp_DstPort p) @ be32 (tcp_SeqNum p) @ be32 (tcp_AckNum p) @
     (if tcp_Mss p \<noteq> 0 then 0x60 else 0x50) # tcp_Flags p # be16 (tcp_Window p) @ 0 # 0 # 0 # 0 #
     (if tcp_Mss p \<noteq> 0 then 2 # 4 # be16 (tcp_Mss p) @ tcp_Payload p else tcp_Payload p) = tcp_bytes 0 p"
    by (simp add: tcp_bytes_def be16_def)
  show ?thesis
    using assms put_tcp_bytes [of _ 0 p] z
    by (cases "tcp_Mss p = 0") (auto simp: BuildTcpPkt_def tcp_wf_def Let_def)
qed

lemma ParseTcpPkt_bytes:
  assumes "tcp_wf p"
    and "ce \<longrightarrow> GetCheckSum (pseudo_header addr 0x06 (of_nat (length (tcp_bytes ck p))) @ tcp_bytes ck p) = 0"
  shows "ParseTcpPkt ce (tcp_bytes ck p) addr = Some (Ok p)"
proof -
  let ?pkt = "tcp_bytes ck p"
  let ?h = "if tcp_Mss p \<noteq> 0 then 24 else 20 :: nat"
  have n: "get_be16 [?pkt ! 0, ?pkt ! 1] = tcp_SrcPort p" "get_be16 [?pkt ! 2, ?pkt ! 3] = tcp_DstPort p"
    "get_be32 [?pkt ! 4, ?pkt ! 5, ?pkt ! 6, ?pkt ! 7] = tcp_SeqNum p"
    "get_be32 [?pkt ! 8, ?pkt ! 9, ?pkt ! 10, ?pkt ! 11] = tcp_AckNum p"
    "unat (drop_bit 4 (?pkt ! 12)) * 4 = ?h" "?pkt ! 13 = tcp_Flags p"
    "get_be16 (go_slice ?pkt 14 16) = tcp_Window p" "drop ?h ?pkt = tcp_Payload p"
    by (simp_all add: tcp_bytes_def be16_def be32_def be16_bytes be32_bytes go_slice_def)
  have o: "tcp_options ?pkt ?h (tcp_Flags p) 20 0 = Some (Ok (tcp_Mss p))"
  proof (cases "tcp_Mss p = 0")
    case False
    then have "?pkt ! 20 = 2" "?pkt ! 21 = 4" "go_slice ?pkt 22 24 = be16 (tcp_Mss p)" "24 \<le> length ?pkt"
      by (simp_all add: tcp_bytes_def be16_def be32_def go_slice_def length_be)
    moreover have "get_be16 (be16 (tcp_Mss p)) = tcp_Mss p"
      using get_be16_be16 [of "tcp_Mss p" "[]"] by simp
    ultimately show ?thesis
      using False assms(1) by (simp add: tcp_options.simps [of _ _ _ 20] tcp_options.simps [of _ _ _ 24]
          go_nth_def go_sub_def tcp_wf_def)
  qed (simp add: tcp_options.simps)
  have l: "\<not> (length ?pkt < 20 \<or> 1480 < length ?pkt)" "\<not> (?h < 20 \<or> length ?pkt < ?h)"
    using assms(1) by (auto simp: length_tcp_bytes tcp_wf_def)
  show ?thesis
    using l assms(2) by (simp add: ParseTcpPkt_reads n o del: One_nat_def)
qed

lemma tcp_build_parse:
  assumes "tcp_wf p"
  shows "\<exists>pkt. BuildTcpPkt ce [] p addr = Ok pkt \<and> length pkt \<le> 1480 \<and> ParseTcpPkt ce pkt addr = Some (Ok p)"
proof -
  have "GetCheckSum (pseudo_header addr 6 l @ tcp_bytes (GetCheckSum (pseudo_header addr 6 l @ tcp_bytes 0 p)) p) = 0"
    for l
    using checksum_put_valid [of "pseudo_header addr 6 l" 16 "tcp_bytes 0 p"] assms
    by (simp add: put_tcp_bytes length_tcp_bytes tcp_wf_def split: if_splits)
  then show ?thesis
    using assms ParseTcpPkt_bytes [OF assms]
    by (simp add: BuildTcpPkt_bytes length_tcp_bytes) (auto simp: tcp_wf_def)
qed

definition tcp_parsed :: "bool \<Rightarrow> Ipv4AddrPair \<Rightarrow> bytes \<Rightarrow> TcpPkt go_result" where
  "tcp_parsed ce addr b = (case ParseTcpPkt ce b addr of None \<Rightarrow> Err [] | Some r \<Rightarrow> r)"

interpretation tcp_codec: codec "\<lambda>p. BuildTcpPkt ce [] p addr" "tcp_parsed ce addr" tcp_wf
  for ce :: bool and addr :: Ipv4AddrPair
proof
  fix p bs
  assume "tcp_wf p"
  then obtain pkt where "BuildTcpPkt ce [] p addr = Ok pkt" "tcp_parsed ce addr pkt = Ok p"
    using tcp_build_parse [of p ce addr] by (auto simp: tcp_parsed_def)
  then show "\<exists>bs. BuildTcpPkt ce [] p addr = Ok bs"
    and "BuildTcpPkt ce [] p addr = Ok bs \<Longrightarrow> tcp_parsed ce addr bs = Ok p"
    by auto
qed

subsection \<open>Properties\<close>

text \<open>C17: Parsing arbitrary bytes as a TCP segment returns a segment or an error and never reads
  outside the input, whatever its length and whatever the data offset and option lengths claim: an index or
  slice out of range anywhere in the parser would be a panic.\<close>

theorem tcp_parse_total: "\<exists>r. ParseTcpPkt ce pkt addr = Some r"
  by (rule ParseTcpPkt_total)

text \<open>C16: A TCP segment that fits 1480 bytes, with a maximum segment size only on a SYN, is parsed
  back from its bytes between the same two addresses, option and checksum included.\<close>

theorem tcp_roundtrip:
  assumes "tcp_wf p"
  shows "\<exists>pkt. BuildTcpPkt ce [] p addr = Ok pkt \<and> length pkt \<le> 1480 \<and> ParseTcpPkt ce pkt addr = Some (Ok p)"
  using assms by (rule tcp_build_parse)

theorem tcp_roundtrip_witness:
  "\<exists>pkt. BuildTcpPkt True [] \<lparr>tcp_Payload = [], tcp_SrcPort = 1, tcp_DstPort = 80, tcp_SeqNum = 9, tcp_AckNum = 0,
      tcp_Flags = TCP_FLAGS_SYN, tcp_Window = 1000, tcp_Mss = 1200\<rparr>
      \<lparr>pair_SrcAddr = Ipv4Addr 10 0 0 1, pair_DstAddr = Ipv4Addr 10 0 0 2\<rparr> = Ok pkt \<and> length pkt \<le> 1480 \<and>
    ParseTcpPkt True pkt \<lparr>pair_SrcAddr = Ipv4Addr 10 0 0 1, pair_DstAddr = Ipv4Addr 10 0 0 2\<rparr> =
      Some (Ok \<lparr>tcp_Payload = [], tcp_SrcPort = 1, tcp_DstPort = 80, tcp_SeqNum = 9, tcp_AckNum = 0,
      tcp_Flags = TCP_FLAGS_SYN, tcp_Window = 1000, tcp_Mss = 1200\<rparr>)"
  by (rule tcp_roundtrip) (simp add: tcp_wf_def TCP_FLAGS_SYN_def)

end
