(* ===== verification/Dhcp_Packets.thy ===== *)
theory Dhcp_Packets
  imports Transport_Packets
begin

text \<open>
  DHCP packets and their options, \<^verbatim>\<open>src/protocol/dhcp.go\<close>. The option map is a map from the
  option code; the builder ranges over it in an order Go leaves open, so the order is an
  argument and every result below holds for each enumeration of the keys. The parser walks
  the option bytes; what is left of them is the argument of the recursion.
\<close>

definition DhcpClientPort :: u16 where "DhcpClientPort = 68"
definition DhcpServerPort :: u16 where "DhcpServerPort = 67"
definition DhcpOptionSubnetMask :: u8 where "DhcpOptionSubnetMask = 1"
definition DhcpOptionRouter :: u8 where "DhcpOptionRouter = 3"
definition DhcpOptionDomainNameServer :: u8 where "DhcpOptionDomainNameServer = 6"
definition DhcpOptionHostName :: u8 where "DhcpOptionHostName = 12"
definition DhcpOptionReqIpAddr :: u8 where "DhcpOptionReqIpAddr = 50"
definition DhcpOptionIpAddrLeaseTime :: u8 where "DhcpOptionIpAddrLeaseTime = 51"
definition DhcpOptionMsgType :: u8 where "DhcpOptionMsgType = 53"
definition DhcpOptionMsgTypeDiscover :: u8 where "DhcpOptionMsgTypeDiscover = 1"
definition DhcpOptionMsgTypeOffer :: u8 where "DhcpOptionMsgTypeOffer = 2"
definition DhcpOptionMsgTypeRequest :: u8 where "DhcpOptionMsgTypeRequest = 3"
definition DhcpOptionMsgTypeAck :: u8 where "DhcpOptionMsgTypeAck = 5"
definition DhcpOptionMsgTypeNak :: u8 where "DhcpOptionMsgTypeNak = 6"
definition DhcpOptionMsgTypeRelease :: u8 where "DhcpOptionMsgTypeRelease = 7"
definition DhcpOptionServerIdentifier :: u8 where "DhcpOptionServerIdentifier = 54"
definition DhcpOptionParameterRequestList :: u8 where "DhcpOptionParameterRequestList = 55"
definition DhcpOptionRenewalTimeValue :: u8 where "DhcpOptionRenewalTimeValue = 58"
definition DhcpOptionRebindingTimeValue :: u8 where "DhcpOptionRebindingTimeValue = 59"
definition DhcpOptionClientIdentifier :: u8 where "DhcpOptionClientIdentifier = 61"
definition DhcpBootMsgTypeRequest :: u8 where "DhcpBootMsgTypeRequest = 1"
definition DhcpBootMsgTypeReply :: u8 where "DhcpBootMsgTypeReply = 2"

lemmas dhcp_codes = DhcpOptionSubnetMask_def DhcpOptionRouter_def DhcpOptionDomainNameServer_def
  DhcpOptionHostName_def DhcpOptionReqIpAddr_def DhcpOptionIpAddrLeaseTime_def DhcpOptionMsgType_def
  DhcpOptionServerIdentifier_def DhcpOptionParameterRequestList_def DhcpOptionRenewalTimeValue_def
  DhcpOptionRebindingTimeValue_def DhcpOptionClientIdentifier_def

definition DhcpMagicCookie :: bytes where "DhcpMagicCookie = [0x63, 0x82, 0x53, 0x63]"

record DhcpOption =
  opt_Type :: u8
  opt_MsgType :: u8
  opt_IpAddr :: Ipv4Addr
  opt_SubnetMask :: Ipv4Addr
  opt_ServerIpAddr :: Ipv4Addr
  opt_TimeValue :: u32
  opt_HostName :: bytes
  opt_MacAddr :: MacAddr

text \<open>An option of a type with every other field at its zero value.\<close>

definition zero_option :: "u8 \<Rightarrow> DhcpOption" where
  "zero_option t = \<lparr>opt_Type = t, opt_MsgType = 0, opt_IpAddr = Ipv4Addr 0 0 0 0,
     opt_SubnetMask = Ipv4Addr 0 0 0 0, opt_ServerIpAddr = Ipv4Addr 0 0 0 0, opt_TimeValue = 0,
     opt_HostName = [], opt_MacAddr = MacAddr 0 0 0 0 0 0\<rparr>"

type_synonym option_map = "u8 \<rightharpoonup> DhcpOption"

text \<open>The switch over one option's code and data.\<close>

definition dhcp_option_value :: "u8 \<Rightarrow> bytes \<Rightarrow> DhcpOption option" where
  "dhcp_option_value code data =
     (if code = DhcpOptionSubnetMask then
        (if length data \<noteq> 4 then None
         else Some ((zero_option code)\<lparr>opt_SubnetMask := ip_of_bytes data\<rparr>))
      else if code = DhcpOptionRouter \<or> code = DhcpOptionDomainNameServer then
        (if length data < 4 \<or> length data mod 4 \<noteq> 0 then None
         else Some ((zero_option code)\<lparr>opt_IpAddr := ip_of_bytes (take 4 data)\<rparr>))
      else if code = DhcpOptionHostName then
        Some ((zero_option code)\<lparr>opt_HostName := data\<rparr>)
      else if code = DhcpOptionReqIpAddr \<or> code = DhcpOptionServerIdentifier then
        (if length data \<noteq> 4 then None
         else Some ((zero_option code)\<lparr>opt_IpAddr := ip_of_bytes data\<rparr>))
      else if code = DhcpOptionMsgType then
        (if length data \<noteq> 1 then None
         else Some ((zero_option code)\<lparr>opt_MsgType := data ! 0\<rparr>))
      else None)"

function parse_options :: "bytes \<Rightarrow> option_map \<Rightarrow> option_map" where
  "parse_options [] m = m"
| "parse_options (code # r) m =
     (if code = 0xff then m
      else if code = 0 then parse_options r m
      else case r of
        [] \<Rightarrow> m
      | len # d \<Rightarrow>
          if length d < unat len then m
          else parse_options (drop (unat len) d)
                 (case dhcp_option_value code (take (unat len) d) of
                    None \<Rightarrow> m
                  | Some v \<Rightarrow> m(code \<mapsto> v)))"
  by pat_completeness auto

termination parse_options
  by (relation "measure (length \<circ> fst)") auto

definition ParseDhcpOption :: "bytes \<Rightarrow> option_map" where
  "ParseDhcpOption optionData = parse_options optionData Map.empty"

text \<open>The bytes the builder appends for one option.\<close>

definition option_bytes :: "DhcpOption \<Rightarrow> bytes" where
  "option_bytes ov =
     (let t = opt_Type ov in
      if t = DhcpOptionSubnetMask then [t, 0x04] @ ip_bytes (opt_SubnetMask ov)
      else if t = DhcpOptionRouter then [t, 0x04] @ ip_bytes (opt_ServerIpAddr ov)
      else if t = DhcpOptionDomainNameServer then [t, 0x04] @ ip_bytes (opt_ServerIpAddr ov)
      else if t = DhcpOptionReqIpAddr then [t, 0x04] @ ip_bytes (opt_IpAddr ov)
      else if t = DhcpOptionIpAddrLeaseTime then [t, 0x04] @ be32 (opt_TimeValue ov)
      else if t = DhcpOptionMsgType then [t, 0x01, opt_MsgType ov]
      else if t = DhcpOptionServerIdentifier then [t, 0x04] @ ip_bytes (opt_ServerIpAddr ov)
      else if t = DhcpOptionParameterRequestList then [t, 0x03, 0x01, 0x03, 0x06]
      else if t = DhcpOptionRenewalTimeValue then [t, 0x04] @ be32 (opt_TimeValue ov)
      else if t = DhcpOptionRebindingTimeValue then [t, 0x04] @ be32 (opt_TimeValue ov)
      else if t = DhcpOptionClientIdentifier then [t, 0x07, 0x01] @ mac_bytes (opt_MacAddr ov)
      else [])"

definition BuildDhcpOption :: "option_map \<Rightarrow> u8 list \<Rightarrow> bytes" where
  "BuildDhcpOption m order =
     concat (map (\<lambda>k. case m k of None \<Rightarrow> [] | Some ov \<Rightarrow> option_bytes ov) order) @ [0xff]"

record DhcpPkt =
  dhcp_BootMsgType :: u8
  dhcp_TransactionId :: bytes
  dhcp_ClientIpAddr :: Ipv4Addr
  dhcp_YourIpAddr :: Ipv4Addr
  dhcp_ClientMacAddr :: MacAddr
  dhcp_OptionMap :: option_map

definition ParseDhcpPkt :: "bytes \<Rightarrow> DhcpPkt go_result" where
  "ParseDhcpPkt pkt =
     (if length pkt < 240 then Err ''dhcp packet len < 240 bytes''
      else if go_slice pkt 236 240 \<noteq> DhcpMagicCookie then Err ''dhcp magic cookie error''
      else Ok \<lparr>dhcp_BootMsgType = pkt ! 0, dhcp_TransactionId = go_slice pkt 4 8,
               dhcp_ClientIpAddr = ip_of_bytes (go_slice pkt 12 16),
               dhcp_YourIpAddr = ip_of_bytes (go_slice pkt 16 20),
               dhcp_ClientMacAddr = mac_of_bytes (go_slice pkt 28 34),
               dhcp_OptionMap = ParseDhcpOption (drop 240 pkt)\<rparr>)"

definition BuildDhcpPkt :: "bytes \<Rightarrow> DhcpPkt \<Rightarrow> u8 list \<Rightarrow> bytes go_result" where
  "BuildDhcpPkt pkt packet order =
     (if length (dhcp_TransactionId packet) \<noteq> 4 then Err ''transaction id len is not 4 bytes''
      else
        let pkt = pkt @ [dhcp_BootMsgType packet, 0x01, 0x06, 0x00];
            pkt = pkt @ dhcp_TransactionId packet;
            pkt = pkt @ [0x00, 0x00];
            pkt = pkt @ [0x80, 0x00];
            pkt = pkt @ ip_bytes (dhcp_ClientIpAddr packet);
            pkt = pkt @ ip_bytes (dhcp_YourIpAddr packet);
            pkt = pkt @ [0x00, 0x00, 0x00, 0x00];
            pkt = pkt @ [0x00, 0x00, 0x00, 0x00];
            pkt = pkt @ mac_bytes (dhcp_ClientMacAddr packet);
            pkt = pkt @ replicate 10 0;
            pkt = pkt @ replicate 64 0;
            pkt = pkt @ replicate 128 0;
            pkt = pkt @ DhcpMagicCookie
        in Ok (pkt @ BuildDhcpOption (dhcp_OptionMap packet) order))"

subsection \<open>Round trip\<close>

text \<open>What a receiver learns of an option: router, name server and server identifier arrive
  in the address field, and lease times, the request list and the client identifier are
  not read.\<close>

definition wire_view :: "DhcpOption \<Rightarrow> DhcpOption option" where
  "wire_view ov =
     (let t = opt_Type ov; z = zero_option t in
      if t = DhcpOptionSubnetMask then Some (z\<lparr>opt_SubnetMask := opt_SubnetMask ov\<rparr>)
      else if t = DhcpOptionRouter \<or> t = DhcpOptionDomainNameServer \<or> t = DhcpOptionServerIdentifier
      then Some (z\<lparr>opt_IpAddr := opt_ServerIpAddr ov\<rparr>)
      else if t = DhcpOptionReqIpAddr then Some (z\<lparr>opt_IpAddr := opt_IpAddr ov\<rparr>)
      else if t = DhcpOptionMsgType then Some (z\<lparr>opt_MsgType := opt_MsgType ov\<rparr>)
      else None)"

definition view_map :: "option_map \<Rightarrow> option_map" where
  "view_map m k = Option.bind (m k) wire_view"

definition keys_match :: "option_map \<Rightarrow> bool" where
  "keys_match m \<longleftrightarrow> (\<forall>k ov. m k = Some ov \<longrightarrow> opt_Type ov = k)"

lemma parse_option_bytes:
  "parse_options (option_bytes ov @ r) m =
     parse_options r (case wire_view ov of None \<Rightarrow> m | Some v \<Rightarrow> m(opt_Type ov \<mapsto> v))"
  by (simp add: option_bytes_def wire_view_def dhcp_option_value_def Let_def dhcp_codes be32_def length_be)

lemma parse_built_options:
  assumes "keys_match m"
  shows "parse_options (concat (map (\<lambda>k. case m k of None \<Rightarrow> [] | Some ov \<Rightarrow> option_bytes ov) order) @ [0xff]) acc =
    acc ++ (view_map m |` set order)"
proof (induction order arbitrary: acc)
  case (Cons k ks)
  show ?case
  proof (cases "m k")
    case None
    then have "view_map m |` set (k # ks) = view_map m |` set ks"
      by (auto simp: view_map_def restrict_map_def fun_eq_iff)
    then show ?thesis
      using Cons None by simp
  next
    case (Some o')
    then have "opt_Type o' = k"
      using assms by (auto simp: keys_match_def)
    then have "(case wire_view o' of None \<Rightarrow> acc | Some v \<Rightarrow> acc(opt_Type o' \<mapsto> v)) ++ (view_map m |` set ks) =
        acc ++ (view_map m |` set (k # ks))"
      using Some by (auto simp: view_map_def restrict_map_def map_add_def fun_eq_iff split: option.splits)
    then show ?thesis
      using Cons Some by (simp add: parse_option_bytes)
  qed
qed simp

lemma dhcp_options_roundtrip:
  assumes "keys_match m" "dom m \<subseteq> set order"
  shows "ParseDhcpOption (BuildDhcpOption m order) = view_map m"
proof -
  have "view_map m |` set order = view_map m"
    using assms(2) by (auto simp: view_map_def restrict_map_def fun_eq_iff dom_def Option.bind_eq_None_conv
        eq_commute [of None])
  then show ?thesis
    using parse_built_options [OF assms(1), of order Map.empty]
    by (simp add: ParseDhcpOption_def BuildDhcpOption_def)
qed

lemma dhcp_build_parse:
  assumes "length (dhcp_TransactionId p) = 4" "keys_match (dhcp_OptionMap p)" "dom (dhcp_OptionMap p) \<subseteq> set order"
  shows "\<exists>pkt. BuildDhcpPkt [] p order = Ok pkt \<and>
    ParseDhcpPkt pkt = Ok (p\<lparr>dhcp_OptionMap := view_map (dhcp_OptionMap p)\<rparr>)"
proof -
  obtain a b c d where t: "dhcp_TransactionId p = [a, b, c, d]"
    using assms(1) by (auto simp: length_Suc_conv numeral_eq_Suc)
  show ?thesis
    using t dhcp_options_roundtrip [OF assms(2,3)]
    by (cases p; cases "dhcp_ClientIpAddr p"; cases "dhcp_YourIpAddr p"; cases "dhcp_ClientMacAddr p")
      (simp add: BuildDhcpPkt_def ParseDhcpPkt_def Let_def go_slice_def ip_of_bytes_def mac_of_bytes_def
        DhcpMagicCookie_def)
qed

subsection \<open>Properties\<close>

text \<open>C20: A DHCP packet with a four-byte transaction id is parsed back from its bytes whatever
  order the option map is iterated in: every header field survives, and of each option the
  receiver learns what the reader extracts.\<close>

theorem dhcp_roundtrip:
  assumes "length (dhcp_TransactionId p) = 4" "keys_match (dhcp_OptionMap p)" "dom (dhcp_OptionMap p) \<subseteq> set order"
  shows "\<exists>pkt. BuildDhcpPkt [] p order = Ok pkt \<and>
    ParseDhcpPkt pkt = Ok (p\<lparr>dhcp_OptionMap := view_map (dhcp_OptionMap p)\<rparr>)"
  using assms by (rule dhcp_build_parse)

theorem dhcp_roundtrip_witness:
  "\<exists>p pkt. dhcp_TransactionId p = [1, 2, 3, 4] \<and> BuildDhcpPkt [] p [DhcpOptionMsgType] = Ok pkt \<and>
    ParseDhcpPkt pkt = Ok (p\<lparr>dhcp_OptionMap := view_map (dhcp_OptionMap p)\<rparr>) \<and>
    map_option opt_MsgType (view_map (dhcp_OptionMap p) DhcpOptionMsgType) = Some 1"
proof -
  let ?p = "\<lparr>dhcp_BootMsgType = 1, dhcp_TransactionId = [1, 2, 3, 4], dhcp_ClientIpAddr = Ipv4Addr 0 0 0 0,
    dhcp_YourIpAddr = Ipv4Addr 0 0 0 0, dhcp_ClientMacAddr = MacAddr 1 2 3 4 5 6,
    dhcp_OptionMap = [DhcpOptionMsgType \<mapsto> (zero_option DhcpOptionMsgType)\<lparr>opt_MsgType := 1\<rparr>]\<rparr>"
  have "\<exists>pkt. BuildDhcpPkt [] ?p [DhcpOptionMsgType] = Ok pkt \<and>
      ParseDhcpPkt pkt = Ok (?p\<lparr>dhcp_OptionMap := view_map (dhcp_OptionMap ?p)\<rparr>)"
    by (rule dhcp_roundtrip) (simp_all add: keys_match_def zero_option_def)
  moreover have "map_option opt_MsgType (view_map (dhcp_OptionMap ?p) DhcpOptionMsgType) = Some 1"
    by (simp add: view_map_def wire_view_def zero_option_def dhcp_codes)
  ultimately show ?thesis
    by (intro exI [of _ ?p]) auto
qed

end
