(* ===== verification/Static_Allocator.thy ===== *)
theory Static_Allocator
  imports Halo_Prelude
begin

text \<open>
  The allocator over a fixed memory region, \<^verbatim>\<open>src/mem/static_allocator.go\<close>. Block headers lie
  in the region and are linked twice: all blocks in address order, the free ones in a free
  list. The model keeps the headers as a map from addresses, with the 64-bit header word
  and the four pointers of each; reading an address that never held a header is undefined
  (\<^const>\<open>None\<close>), as is a loop that does not end. Addresses are natural numbers: the region
  lies inside the address space, so address arithmetic does not wrap. Sizes are 64-bit words.
  Every operation runs under the allocator's lock and is one step here.
\<close>

type_synonym addr = nat

subsection \<open>Block headers\<close>

definition size_mask :: u64 where "size_mask = 0x7fffffffffffffff"

definition getFree :: "u64 \<Rightarrow> bool" where
  "getFree h \<longleftrightarrow> drop_bit 63 h = 1"

definition setFree :: "bool \<Rightarrow> u64 \<Rightarrow> u64" where
  "setFree free h = (let x = (if free then push_bit 63 1 else 0) in x OR (h AND size_mask))"

definition getSize :: "u64 \<Rightarrow> u64" where
  "getSize h = h AND size_mask"

definition setSize :: "u64 \<Rightarrow> u64 \<Rightarrow> u64" where
  "setSize sz h = (h AND push_bit 63 1) OR (sz AND size_mask)"

record block =
  b_header :: u64
  b_next :: "addr option"
  b_prev :: "addr option"
  freeNext :: "addr option"
  freePrev :: "addr option"

text \<open>Memory that held no header before it is written.\<close>

definition raw_block :: block where
  "raw_block = \<lparr>b_header = 0, b_next = None, b_prev = None, freeNext = None, freePrev = None\<rparr>"

definition blockSize :: u64 where "blockSize = 40"
definition headerSize :: u64 where "headerSize = 24"

record StaticAllocator =
  allocSize :: u64
  freeBlockList :: "addr option"
  blocks :: "addr \<rightharpoonup> block"

subsection \<open>Reading and writing headers\<close>

definition rd :: "StaticAllocator \<Rightarrow> addr \<Rightarrow> block option" where
  "rd h a = blocks h a"

definition upd :: "StaticAllocator \<Rightarrow> addr \<Rightarrow> (block \<Rightarrow> block) \<Rightarrow> StaticAllocator option" where
  "upd h a f = (case blocks h a of None \<Rightarrow> None | Some b \<Rightarrow> Some (h\<lparr>blocks := (blocks h)(a \<mapsto> f b)\<rparr>))"

text \<open>A write through a possibly nil pointer that the code guards with a nil test.\<close>

definition upd_opt :: "StaticAllocator \<Rightarrow> addr option \<Rightarrow> (block \<Rightarrow> block) \<Rightarrow> StaticAllocator option" where
  "upd_opt h p f = (case p of None \<Rightarrow> Some h | Some a \<Rightarrow> upd h a f)"

text \<open>Treat the memory at an address as a header.\<close>

definition as_block :: "StaticAllocator \<Rightarrow> addr \<Rightarrow> StaticAllocator" where
  "as_block h a = (case blocks h a of None \<Rightarrow> h\<lparr>blocks := (blocks h)(a \<mapsto> raw_block)\<rparr> | Some b \<Rightarrow> h)"

subsection \<open>Operations\<close>

definition NewStaticAllocator :: "addr option \<Rightarrow> u64 \<Rightarrow> StaticAllocator option" where
  "NewStaticAllocator memory sz =
     (case memory of
        None \<Rightarrow> None
      | Some m \<Rightarrow>
          if sz < headerSize + blockSize then None
          else
            let b = m + unat headerSize;
                hd = setFree True (setSize (sz - headerSize - blockSize) 0)
            in Some \<lparr>allocSize = headerSize, freeBlockList = Some b,
                 blocks = [b \<mapsto> \<lparr>b_header = hd, b_next = None, b_prev = None, freeNext = None, freePrev = None\<rparr>]\<rparr>)"

definition insertFreeBlock :: "StaticAllocator \<Rightarrow> addr \<Rightarrow> StaticAllocator option" where
  "insertFreeBlock h b =
     do {
       h \<leftarrow> upd h b (freeNext_update (\<lambda>_. freeBlockList h));
       h \<leftarrow> upd_opt h (freeBlockList h) (freePrev_update (\<lambda>_. Some b));
       h \<leftarrow> upd h b (freePrev_update (\<lambda>_. None));
       Some (h\<lparr>freeBlockList := Some b\<rparr>)
     }"

definition removeFreeBlock :: "StaticAllocator \<Rightarrow> addr \<Rightarrow> StaticAllocator option" where
  "removeFreeBlock h b =
     do {
       x \<leftarrow> rd h b;
       h \<leftarrow> (case freePrev x of
               Some p \<Rightarrow> upd h p (freeNext_update (\<lambda>_. freeNext x))
             | None \<Rightarrow> Some (h\<lparr>freeBlockList := freeNext x\<rparr>));
       x \<leftarrow> rd h b;
       h \<leftarrow> upd_opt h (freeNext x) (freePrev_update (\<lambda>_. freePrev x));
       h \<leftarrow> upd h b (freeNext_update (\<lambda>_. None));
       upd h b (freePrev_update (\<lambda>_. None))
     }"

text \<open>Cutting the remainder of a block off as a new free block.\<close>

definition split_block :: "StaticAllocator \<Rightarrow> addr \<Rightarrow> u64 \<Rightarrow> StaticAllocator option" where
  "split_block h b sz =
     do {
       x \<leftarrow> rd h b;
       let nb = b + unat blockSize + unat sz;
       let h = as_block h nb;
       h \<leftarrow> upd h nb (b_header_update (setSize (getSize (b_header x) - sz - blockSize)));
       h \<leftarrow> upd h nb (b_header_update (setFree True));
       h \<leftarrow> upd h nb (b_next_update (\<lambda>_. b_next x));
       h \<leftarrow> upd h nb (b_prev_update (\<lambda>_. Some b));
       h \<leftarrow> upd_opt h (b_next x) (b_prev_update (\<lambda>_. Some nb));
       h \<leftarrow> upd h b (b_next_update (\<lambda>_. Some nb));
       h \<leftarrow> insertFreeBlock h nb;
       upd h b (b_header_update (setSize sz))
     }"

text \<open>The body of the search loop once a block is large enough.\<close>

definition take_block :: "StaticAllocator \<Rightarrow> addr \<Rightarrow> u64 \<Rightarrow> (StaticAllocator \<times> addr option) option" where
  "take_block h b sz =
     do {
       x \<leftarrow> rd h b;
       h \<leftarrow> (if blockSize < getSize (b_header x) - sz then split_block h b sz else Some h);
       h \<leftarrow> removeFreeBlock h b;
       h \<leftarrow> upd h b (b_header_update (setFree False));
       x \<leftarrow> rd h b;
       let h = h\<lparr>allocSize := allocSize h + (blockSize + getSize (b_header x))\<rparr>;
       Some (h, Some (b + unat blockSize))
     }"

partial_function (option) malloc_from ::
  "StaticAllocator \<Rightarrow> addr option \<Rightarrow> u64 \<Rightarrow> (StaticAllocator \<times> addr option) option" where
  "malloc_from h cur sz =
     (case cur of
        None \<Rightarrow> Some (h, None)
      | Some b \<Rightarrow>
          do {
            x \<leftarrow> rd h b;
            if getSize (b_header x) < sz then malloc_from h (freeNext x) sz else take_block h b sz
          })"

declare malloc_from.simps [code]

definition round8 :: "u64 \<Rightarrow> u64" where
  "round8 sz = (sz + 7) AND NOT 7"

definition Malloc :: "StaticAllocator \<Rightarrow> u64 \<Rightarrow> (StaticAllocator \<times> addr option) option" where
  "Malloc h sz =
     (if sz = 0 then Some (h, None) else malloc_from h (freeBlockList h) (round8 sz))"

partial_function (option) merge_next :: "StaticAllocator \<Rightarrow> addr \<Rightarrow> StaticAllocator option" where
  "merge_next h b =
     do {
       x \<leftarrow> rd h b;
       (case b_next x of
          None \<Rightarrow> Some h
        | Some n \<Rightarrow>
            do {
              y \<leftarrow> rd h n;
              if \<not> getFree (b_header y) then Some h
              else do {
                h \<leftarrow> removeFreeBlock h n;
                h \<leftarrow> upd h b (b_header_update (\<lambda>w. setSize (getSize w + getSize (b_header y) + blockSize) w));
                h \<leftarrow> upd h b (b_next_update (\<lambda>_. b_next y));
                h \<leftarrow> upd_opt h (b_next y) (b_prev_update (\<lambda>_. Some b));
                merge_next h b
              }
            })
     }"

declare merge_next.simps [code]

text \<open>Merging into the previous block when that is free; the block to put on the free list.\<close>

definition merge_prev :: "StaticAllocator \<Rightarrow> addr \<Rightarrow> (StaticAllocator \<times> addr) option" where
  "merge_prev h b =
     do {
       x \<leftarrow> rd h b;
       (case b_prev x of
          None \<Rightarrow> Some (h, b)
        | Some p \<Rightarrow>
            do {
              y \<leftarrow> rd h p;
              if \<not> getFree (b_header y) then Some (h, b)
              else do {
                h \<leftarrow> removeFreeBlock h p;
                h \<leftarrow> upd h p (b_header_update (\<lambda>w. setSize (getSize w + getSize (b_header x) + blockSize) w));
                h \<leftarrow> upd h p (b_next_update (\<lambda>_. b_next x));
                h \<leftarrow> upd_opt h (b_next x) (b_prev_update (\<lambda>_. Some p));
                Some (h, p)
              }
            })
     }"

definition Free :: "StaticAllocator \<Rightarrow> addr option \<Rightarrow> (StaticAllocator \<times> bool) option" where
  "Free h p =
     (case p of
        None \<Rightarrow> Some (h, False)
      | Some p \<Rightarrow>
          do {
            let b = p - unat blockSize;
            x \<leftarrow> rd h b;
            if getFree (b_header x) then Some (h, False)
            else do {
              h \<leftarrow> upd h b (b_header_update (setFree True));
              x \<leftarrow> rd h b;
              let h = h\<lparr>allocSize := allocSize h - (blockSize + getSize (b_header x))\<rparr>;
              h \<leftarrow> merge_next h b;
              (h, b) \<leftarrow> merge_prev h b;
              h \<leftarrow> insertFreeBlock h b;
              Some (h, True)
            }
          })"

definition AlignedMalloc :: "StaticAllocator \<Rightarrow> u64 \<Rightarrow> u64 \<Rightarrow> addr option" where
  "AlignedMalloc h sz align = None"

definition AlignedFree :: "StaticAllocator \<Rightarrow> addr option \<Rightarrow> bool" where
  "AlignedFree h p = False"

definition GetAllocSize :: "StaticAllocator \<Rightarrow> u64" where
  "GetAllocSize h = allocSize h"

end
