(* ===== verification/Linked_Segments.thy ===== *)
theory Linked_Segments
  imports Main
begin

text \<open>
  Doubly linked lists in memory, shared by the allocator's block lists and the hash table's
  chains: a segment is a list of addresses whose next and previous pointers agree with it.
\<close>

subsection \<open>Doubly linked segments\<close>

definition first :: "nat list \<Rightarrow> nat option \<Rightarrow> nat option" where
  "first xs n = (case xs of [] \<Rightarrow> n | x # _ \<Rightarrow> Some x)"

definition final :: "nat list \<Rightarrow> nat option \<Rightarrow> nat option" where
  "final xs p = (if xs = [] then p else Some (last xs))"

fun seg :: "(nat \<Rightarrow> nat option) \<Rightarrow> (nat \<Rightarrow> nat option) \<Rightarrow> nat option \<Rightarrow> nat list \<Rightarrow> nat option \<Rightarrow> bool" where
  "seg f g p [] n = True"
| "seg f g p (a # as) n = (g a = p \<and> f a = first as n \<and> seg f g (Some a) as n)"

lemma first_simps [simp]: "first [] n = n" "first (x # xs) n = Some x" "first (xs @ ys) n = first xs (first ys n)"
  by (auto simp: first_def split: list.splits)

lemma final_simps [simp]: "final [] p = p" "final (xs @ [x]) p = Some x" "final (x # xs) p = final xs (Some x)"
  by (auto simp: final_def)

lemma seg_append: "seg f g p (xs @ ys) n \<longleftrightarrow> seg f g p xs (first ys n) \<and> seg f g (final xs p) ys n"
  by (induction xs arbitrary: p) auto

lemma seg_cong: "(\<And>a. a \<in> set xs \<Longrightarrow> f a = f' a \<and> g a = g' a) \<Longrightarrow> seg f g p xs n = seg f' g' p xs n"
  by (induction xs arbitrary: p) auto

lemma seg_fun_upd [simp]:
  "a \<notin> set xs \<Longrightarrow> seg (f(a := v)) g p xs n = seg f g p xs n"
  "a \<notin> set xs \<Longrightarrow> seg f (g(a := v)) p xs n = seg f g p xs n"
  by (rule seg_cong; auto)+

lemma seg_remove:
  assumes "seg f g p (xs @ b # ys) n" "distinct (xs @ b # ys)"
  shows "seg (if xs = [] then f else f(last xs := first ys n))
             (if ys = [] then g else g(hd ys := final xs p)) p (xs @ ys) n"
proof -
  have y: "seg f (if ys = [] then g else g(hd ys := q)) q ys n" for q
    using assms by (cases ys) (auto simp: seg_append)
  have "seg (if xs = [] then f else f(last xs := m)) g p xs m" for m
    using assms by (cases xs rule: rev_cases) (auto simp: seg_append)
  moreover have "hd ys \<notin> set xs" if "ys \<noteq> []"
    using that assms(2) by (cases ys) auto
  moreover have "last xs \<notin> set ys" if "xs \<noteq> []"
    using last_in_set [OF that] assms(2) by auto
  ultimately show ?thesis
    using y by (auto simp: seg_append)
qed

end
