(* ===== verification/Static_Allocator_Inv.thy ===== *)
theory Static_Allocator_Inv
  imports Static_Allocator Linked_Segments
begin

text \<open>
  Correctness of the static allocator. The blocks tile the region in address order and are
  doubly linked in that order; the free list links exactly the blocks whose header says
  free; no two neighbours are free; the byte counter is the size of the allocated blocks
  with their headers. Every operation ends, keeps this invariant and acts on the set of
  allocations as the abstract specification says.
\<close>

subsection \<open>Header words\<close>

lemma size_mask_mask: "size_mask = mask 63"
  by (simp add: size_mask_def mask_eq_exp_minus_1)

lemma bit_free_flag: "bit (9223372036854775808 :: int) n \<longleftrightarrow> n = 63"
  using bit_exp_iff [of 63 n, where 'a = int] by simp

lemma getFree_bit: "getFree h \<longleftrightarrow> bit h 63"
proof
  assume "getFree h"
  then have "bit (drop_bit 63 h) 0"
    by (simp add: getFree_def)
  then show "bit h 63"
    by (simp add: bit_simps)
next
  assume "bit h 63"
  then have "drop_bit 63 h = 1"
    by (intro bit_word_eqI) (auto simp: bit_simps dest: bit_imp_le_length)
  then show "getFree h"
    by (simp add: getFree_def)
qed

lemma getFree_setFree [simp]: "getFree (setFree f h) = f"
  by (auto simp: getFree_bit setFree_def size_mask_mask bit_simps bit_free_flag Let_def)

lemma getFree_setSize [simp]: "getFree (setSize s h) = getFree h"
  by (auto simp: getFree_bit setSize_def size_mask_mask bit_simps bit_free_flag)

lemma getSize_setFree [simp]: "getSize (setFree f h) = getSize h"
  unfolding getSize_def setFree_def size_mask_mask Let_def
  by (rule bit_word_eqI) (auto simp: bit_simps bit_free_flag)

lemma getSize_setSize: "getSize (setSize s h) = take_bit 63 s"
  unfolding getSize_def setSize_def size_mask_mask
  by (rule bit_word_eqI) (auto simp: bit_simps bit_free_flag)

lemma unat_getSize_setSize [simp]: "unat s < 2 ^ 63 \<Longrightarrow> unat (getSize (setSize s h)) = unat s"
  by (simp only: getSize_setSize unsigned_take_bit_eq take_bit_nat_eq_self)

lemma setFree_setSize_any: "setFree f (setSize s h) = setFree f (setSize s h')"
  unfolding setFree_def setSize_def size_mask_mask Let_def
  by (rule bit_word_eqI) (auto simp: bit_simps bit_free_flag)

lemma getSize_less: "unat (getSize h) < 2 ^ 63"
proof -
  have "getSize h = take_bit 63 h"
    by (simp add: getSize_def size_mask_mask take_bit_eq_mask)
  then show ?thesis
    by (simp only: unsigned_take_bit_eq take_bit_nat_less_exp)
qed

subsection \<open>Observing and changing the fields of a header\<close>

definition hdr :: "StaticAllocator \<Rightarrow> addr \<Rightarrow> u64" where "hdr h a = b_header (the (blocks h a))"
definition nx :: "StaticAllocator \<Rightarrow> addr \<Rightarrow> addr option" where "nx h a = b_next (the (blocks h a))"
definition pv :: "StaticAllocator \<Rightarrow> addr \<Rightarrow> addr option" where "pv h a = b_prev (the (blocks h a))"
definition fnx :: "StaticAllocator \<Rightarrow> addr \<Rightarrow> addr option" where "fnx h a = freeNext (the (blocks h a))"
definition fpv :: "StaticAllocator \<Rightarrow> addr \<Rightarrow> addr option" where "fpv h a = freePrev (the (blocks h a))"
definition valid :: "StaticAllocator \<Rightarrow> addr \<Rightarrow> bool" where "valid h a \<longleftrightarrow> blocks h a \<noteq> None"

definition put :: "StaticAllocator \<Rightarrow> addr \<Rightarrow> (block \<Rightarrow> block) \<Rightarrow> StaticAllocator" where
  "put h a f = h\<lparr>blocks := (blocks h)(a \<mapsto> f (the (blocks h a)))\<rparr>"

abbreviation "set_hdr h a v \<equiv> put h a (b_header_update v)"
abbreviation "set_nx h a v \<equiv> put h a (b_next_update (\<lambda>_. v))"
abbreviation "set_pv h a v \<equiv> put h a (b_prev_update (\<lambda>_. v))"
abbreviation "set_fnx h a v \<equiv> put h a (freeNext_update (\<lambda>_. v))"
abbreviation "set_fpv h a v \<equiv> put h a (freePrev_update (\<lambda>_. v))"

lemmas obs_defs = hdr_def nx_def pv_def fnx_def fpv_def valid_def

lemma upd_put: "valid h a \<Longrightarrow> upd h a f = Some (put h a f)"
  by (auto simp: upd_def put_def valid_def)

lemma rd_valid: "valid h a \<Longrightarrow> rd h a = Some (the (blocks h a))"
  by (auto simp: rd_def valid_def)

lemma put_valid [simp]: "valid (put h a f) b \<longleftrightarrow> b = a \<or> valid h b"
  by (simp add: put_def valid_def)

lemma put_other [simp]:
  "allocSize (put h a f) = allocSize h" "freeBlockList (put h a f) = freeBlockList h"
  by (simp_all add: put_def)

lemma put_obs [simp]:
  "hdr (set_hdr h a g) = (hdr h)(a := g (hdr h a))" "nx (set_hdr h a g) = nx h" "pv (set_hdr h a g) = pv h"
  "fnx (set_hdr h a g) = fnx h" "fpv (set_hdr h a g) = fpv h"
  "nx (set_nx h a v) = (nx h)(a := v)" "hdr (set_nx h a v) = hdr h" "pv (set_nx h a v) = pv h"
  "fnx (set_nx h a v) = fnx h" "fpv (set_nx h a v) = fpv h"
  "pv (set_pv h a v) = (pv h)(a := v)" "hdr (set_pv h a v) = hdr h" "nx (set_pv h a v) = nx h"
  "fnx (set_pv h a v) = fnx h" "fpv (set_pv h a v) = fpv h"
  "fnx (set_fnx h a v) = (fnx h)(a := v)" "hdr (set_fnx h a v) = hdr h" "nx (set_fnx h a v) = nx h"
  "pv (set_fnx h a v) = pv h" "fpv (set_fnx h a v) = fpv h"
  "fpv (set_fpv h a v) = (fpv h)(a := v)" "hdr (set_fpv h a v) = hdr h" "nx (set_fpv h a v) = nx h"
  "pv (set_fpv h a v) = pv h" "fnx (set_fpv h a v) = fnx h"
  by (auto simp: put_def obs_defs fun_eq_iff)

lemma list_obs [simp]:
  "hdr (h\<lparr>freeBlockList := l\<rparr>) = hdr h" "nx (h\<lparr>freeBlockList := l\<rparr>) = nx h" "pv (h\<lparr>freeBlockList := l\<rparr>) = pv h"
  "fnx (h\<lparr>freeBlockList := l\<rparr>) = fnx h" "fpv (h\<lparr>freeBlockList := l\<rparr>) = fpv h"
  "valid (h\<lparr>freeBlockList := l\<rparr>) = valid h"
  "hdr (h\<lparr>allocSize := n\<rparr>) = hdr h" "nx (h\<lparr>allocSize := n\<rparr>) = nx h" "pv (h\<lparr>allocSize := n\<rparr>) = pv h"
  "fnx (h\<lparr>allocSize := n\<rparr>) = fnx h" "fpv (h\<lparr>allocSize := n\<rparr>) = fpv h"
  "valid (h\<lparr>allocSize := n\<rparr>) = valid h"
  by (auto simp: obs_defs fun_eq_iff)

lemma as_block_obs:
  "valid (as_block h a) b \<longleftrightarrow> b = a \<or> valid h b"
  "allocSize (as_block h a) = allocSize h" "freeBlockList (as_block h a) = freeBlockList h"
  "b \<noteq> a \<Longrightarrow> hdr (as_block h a) b = hdr h b" "b \<noteq> a \<Longrightarrow> nx (as_block h a) b = nx h b"
  "b \<noteq> a \<Longrightarrow> pv (as_block h a) b = pv h b" "b \<noteq> a \<Longrightarrow> fnx (as_block h a) b = fnx h b"
  "b \<noteq> a \<Longrightarrow> fpv (as_block h a) b = fpv h b"
  by (auto simp: as_block_def obs_defs split: option.splits)

lemma seg_as_block [simp]:
  assumes "c \<notin> set xs"
  shows "seg (nx (as_block h c)) (pv (as_block h c)) p xs n = seg (nx h) (pv h) p xs n"
proof (rule seg_cong)
  fix a
  assume "a \<in> set xs"
  then have "a \<noteq> c"
    using assms by auto
  then show "nx (as_block h c) a = nx h a \<and> pv (as_block h c) a = pv h a"
    by (simp add: as_block_obs)
qed

subsection \<open>The free list\<close>

definition free_list :: "StaticAllocator \<Rightarrow> addr list \<Rightarrow> bool" where
  "free_list h fs \<longleftrightarrow> seg (fnx h) (fpv h) None fs None \<and> distinct fs \<and> freeBlockList h = first fs None \<and>
     (\<forall>a \<in> set fs. valid h a)"

definition same_phys :: "StaticAllocator \<Rightarrow> StaticAllocator \<Rightarrow> bool" where
  "same_phys h h' \<longleftrightarrow> hdr h' = hdr h \<and> nx h' = nx h \<and> pv h' = pv h \<and> allocSize h' = allocSize h \<and>
     valid h' = valid h"

lemma blocks_obs [simp]:
  "b_header (the (blocks h a)) = hdr h a" "b_next (the (blocks h a)) = nx h a"
  "b_prev (the (blocks h a)) = pv h a" "freeNext (the (blocks h a)) = fnx h a"
  "freePrev (the (blocks h a)) = fpv h a"
  by (simp_all add: obs_defs)

lemmas exec = upd_put rd_valid upd_opt_def

lemma insertFreeBlock_ok:
  assumes "free_list h fs" "valid h b" "b \<notin> set fs"
  shows "\<exists>h'. insertFreeBlock h b = Some h' \<and> free_list h' (b # fs) \<and> same_phys h h'"
proof (cases fs)
  case Nil
  then show ?thesis
    using assms by (auto simp: insertFreeBlock_def exec free_list_def same_phys_def fun_eq_iff)
next
  case (Cons f fs')
  then show ?thesis
    using assms by (auto simp: insertFreeBlock_def exec free_list_def same_phys_def fun_eq_iff)
qed

lemma removeFreeBlock_ok:
  assumes "free_list h (us @ b # vs)"
  shows "\<exists>h'. removeFreeBlock h b = Some h' \<and> free_list h' (us @ vs) \<and> same_phys h h'"
proof -
  have s: "seg (fnx h) (fpv h) None (us @ b # vs) None" and d: "distinct (us @ b # vs)"
    and v: "\<forall>a \<in> set (us @ b # vs). valid h a" and l: "freeBlockList h = first (us @ b # vs) None"
    using assms by (auto simp: free_list_def)
  have b: "fpv h b = final us None" "fnx h b = first vs None"
    using s by (auto simp: seg_append)
  note r = seg_remove [OF s d]
  show ?thesis
  proof (cases us rule: rev_cases)
    case Nil
    then show ?thesis
      using r b d v by (cases vs) (auto simp: removeFreeBlock_def exec free_list_def same_phys_def fun_eq_iff)
  next
    case (snoc us' u)
    then show ?thesis
      using r b d v l by (cases vs)
        (auto simp: removeFreeBlock_def exec free_list_def same_phys_def fun_eq_iff seg_append)
  qed
qed

subsection \<open>Blocks in address order\<close>

fun tiles :: "(addr \<Rightarrow> nat) \<Rightarrow> addr \<Rightarrow> addr list \<Rightarrow> addr \<Rightarrow> bool" where
  "tiles f a [] lim \<longleftrightarrow> a = lim"
| "tiles f a (b # bs) lim \<longleftrightarrow> a = b \<and> tiles f (b + 40 + f b) bs lim"

lemma tiles_append: "tiles f a (xs @ ys) lim \<longleftrightarrow> (\<exists>m. tiles f a xs m \<and> tiles f m ys lim)"
  by (induction xs arbitrary: a) auto

lemma tiles_cong: "(\<And>a. a \<in> set xs \<Longrightarrow> f a = g a) \<Longrightarrow> tiles f a xs lim = tiles g a xs lim"
  by (induction xs arbitrary: a) auto

lemma tiles_bounds: "tiles f a xs lim \<Longrightarrow> a \<le> lim \<and> (\<forall>b \<in> set xs. a \<le> b \<and> b + 40 + f b \<le> lim)"
  by (induction xs arbitrary: a) force+

lemma tiles_apart:
  assumes "tiles f a xs lim" "b \<in> set xs" "c \<in> set xs" "b < c"
  shows "b + 40 + f b \<le> c"
  using assms
proof (induction xs arbitrary: a)
  case (Cons x xs)
  show ?case
  proof (cases "b = x")
    case True
    then show ?thesis
      using Cons tiles_bounds [of f "x + 40 + f x" xs lim] by auto
  next
    case False
    moreover have "c \<noteq> x"
      using False Cons tiles_bounds [of f "x + 40 + f x" xs lim] by force
    ultimately show ?thesis
      using Cons by auto
  qed
qed simp

lemma tiles_distinct: "tiles f a xs lim \<Longrightarrow> distinct xs"
proof (induction xs arbitrary: a)
  case (Cons x xs)
  then show ?case
    using tiles_bounds [of f "x + 40 + f x" xs lim] by force
qed simp

definition bsz :: "StaticAllocator \<Rightarrow> addr \<Rightarrow> nat" where
  "bsz h a = unat (getSize (hdr h a))"

definition phys :: "addr \<Rightarrow> addr \<Rightarrow> StaticAllocator \<Rightarrow> addr list \<Rightarrow> bool" where
  "phys base lim h ps \<longleftrightarrow> ps \<noteq> [] \<and> (\<forall>a \<in> set ps. valid h a) \<and> tiles (bsz h) base ps lim \<and>
     seg (nx h) (pv h) None ps None \<and> lim < 2 ^ 63"

lemma bsz_cong: "hdr h' a = hdr h a \<Longrightarrow> bsz h' a = bsz h a"
  by (simp add: bsz_def)

lemma phys_distinct: "phys base lim h ps \<Longrightarrow> distinct ps"
  by (auto simp: phys_def dest: tiles_distinct)

lemma phys_inner_fresh:
  assumes "phys base lim h ps" "b \<in> set ps" "b < c" "c < b + 40 + bsz h b"
  shows "c \<notin> set ps"
  using assms tiles_apart [of "bsz h" base ps lim b c] by (auto simp: phys_def)

lemma phys_less:
  assumes "phys base lim h ps" "b \<in> set ps"
  shows "b + 40 + bsz h b \<le> lim" "lim < 2 ^ 63"
  using assms tiles_bounds [of "bsz h" base ps lim] by (auto simp: phys_def)

lemma same_phys_bsz: "same_phys h h' \<Longrightarrow> bsz h' = bsz h"
  by (rule ext) (simp add: bsz_def same_phys_def)

lemma same_phys_phys: "same_phys h h' \<Longrightarrow> phys base lim h' ps = phys base lim h ps"
  by (simp add: phys_def same_phys_bsz) (simp add: same_phys_def)

subsection \<open>Splitting a block\<close>

lemma blockSize_unat [simp]: "unat blockSize = 40" "unat headerSize = 24"
  by (simp_all add: blockSize_def headerSize_def)

lemma split_block_ok:
  assumes ph: "phys base lim h (xs @ b # ys)" and fl: "free_list h fs" "set fs \<subseteq> set (xs @ b # ys)"
    and sz: "unat s + 40 < bsz h b"
  defines "nb \<equiv> b + 40 + unat s"
  shows "\<exists>h'. split_block h b s = Some h' \<and> phys base lim h' (xs @ b # nb # ys) \<and> free_list h' (nb # fs) \<and>
    getFree (hdr h' nb) \<and> bsz h' nb = bsz h b - unat s - 40 \<and> getFree (hdr h' b) = getFree (hdr h b) \<and>
    bsz h' b = unat s \<and> (\<forall>a \<in> set (xs @ ys). hdr h' a = hdr h a) \<and> allocSize h' = allocSize h"
proof -
  have fresh: "nb \<notin> set (xs @ b # ys)"
    using phys_inner_fresh [OF ph, of b nb] sz by (simp add: nb_def)
  have d: "distinct (xs @ b # ys)" and v: "valid h b" "\<forall>a \<in> set (xs @ b # ys). valid h a"
    using phys_distinct [OF ph] ph by (auto simp: phys_def)
  have sg: "seg (nx h) (pv h) None (xs @ b # ys) None" and ti: "tiles (bsz h) base (xs @ b # ys) lim"
    and lim: "lim < 2 ^ 63"
    using ph by (auto simp: phys_def)
  have nxb: "nx h b = first ys None" "pv h b = final xs None"
    using sg by (auto simp: seg_append)
  define w where "w = getSize (hdr h b) - s - blockSize"
  have bl: "unat (getSize (hdr h b)) < 2 ^ 63"
    by (rule getSize_less)
  have w: "unat w = bsz h b - unat s - 40"
    using sz by (simp add: w_def bsz_def unat_sub_if' word_le_nat_alt)
  define h1 where "h1 = set_pv (set_nx (set_hdr (set_hdr (as_block h nb) nb (setSize w)) nb (setFree True)) nb
    (first ys None)) nb (Some b)"
  define h2 where "h2 = set_nx (if ys = [] then h1 else set_pv h1 (hd ys) (Some nb)) b (Some nb)"
  have v2: "valid h2 nb" "\<forall>a \<in> set (xs @ b # ys). valid h2 a" "\<forall>a. valid h a \<longrightarrow> valid h2 a"
    using v by (auto simp: h2_def h1_def as_block_obs)
  have fl2: "free_list h2 fs"
  proof -
    have "nb \<notin> set fs"
      using fl fresh by auto
    then have "seg (fnx h2) (fpv h2) None fs None = seg (fnx h) (fpv h) None fs None"
      by (intro seg_cong, subgoal_tac "a \<noteq> nb") (auto simp: h2_def h1_def as_block_obs)
    then show ?thesis
      using fl v2 by (auto simp: free_list_def h2_def h1_def as_block_obs)
  qed
  then obtain h3 where h3: "insertFreeBlock h2 nb = Some h3" "free_list h3 (nb # fs)" "same_phys h2 h3"
    using insertFreeBlock_ok [OF fl2 v2(1)] fl fresh by auto
  define h4 where "h4 = set_hdr h3 b (setSize s)"
  have v3: "valid h3 b"
    using h3(3) v2 by (simp add: same_phys_def)
  have ex: "split_block h b s = Some h4"
    using v nxb h3(1) v3 unfolding split_block_def h4_def
    by (cases ys) (simp_all add: exec h2_def h1_def w_def nb_def as_block_obs Let_def)
  have hd2: "hdr h2 nb = setFree True (setSize w (hdr (as_block h nb) nb))" "\<And>a. a \<noteq> nb \<Longrightarrow> hdr h2 a = hdr h a"
    by (auto simp: h2_def h1_def as_block_obs)
  have hd4: "hdr h4 = (hdr h2)(b := setSize s (hdr h2 b))" "nx h4 = nx h2" "pv h4 = pv h2" "valid h4 = valid h2"
    "allocSize h4 = allocSize h2"
    using h3(3) v3 by (auto simp: h4_def same_phys_def fun_eq_iff)
  have nb_b: "nb \<noteq> b"
    using fresh by auto
  have s63: "unat s < 2 ^ 63" "unat w < 2 ^ 63"
    using sz bl w by (auto simp: bsz_def)
  have keep: "hdr h4 a = hdr h a" if "a \<in> set (xs @ ys)" for a
  proof -
    have "a \<noteq> nb" "a \<noteq> b"
      using that fresh d by auto
    then show ?thesis
      by (simp add: hd4 hd2)
  qed
  have sizes: "bsz h4 nb = bsz h b - unat s - 40" "bsz h4 b = unat s"
    "\<And>a. a \<in> set (xs @ ys) \<Longrightarrow> hdr h4 a = hdr h a"
    using nb_b s63 w keep by (auto simp: bsz_def hd4 hd2)
  have ti4: "tiles (bsz h4) base (xs @ b # nb # ys) lim"
  proof -
    have t: "tiles (bsz h4) a zs m = tiles (bsz h) a zs m" if "set zs \<subseteq> set (xs @ ys)" for a zs m
      using that sizes(3) by (intro tiles_cong) (auto simp: bsz_def)
    have e: "b + 40 + bsz h4 b = nb" "nb + 40 + bsz h4 nb = b + 40 + bsz h b"
      using sz sizes(1,2) meta_eq_to_obj_eq [OF nb_def] by linarith+
    show ?thesis
      using ti by (auto simp only: tiles_append tiles.simps e) (auto simp: t)
  qed
  have "seg (nx h2) (pv h2) None (xs @ b # nb # ys) None"
    using sg fresh d nxb by (cases ys) (auto simp: h2_def h1_def as_block_obs seg_append)
  then have "phys base lim h4 (xs @ b # nb # ys)"
    using v2 ti4 lim by (auto simp: phys_def hd4)
  moreover have "free_list h4 (nb # fs)"
    using h3(2) by (simp add: h4_def free_list_def)
  ultimately show ?thesis
    using ex sizes nb_b by (auto simp: hd4 hd2 h2_def h1_def as_block_obs)
qed

subsection \<open>The invariant\<close>

definition isfree :: "StaticAllocator \<Rightarrow> addr \<Rightarrow> bool" where
  "isfree h a \<longleftrightarrow> getFree (hdr h a)"

fun sep :: "(addr \<Rightarrow> bool) \<Rightarrow> addr list \<Rightarrow> bool" where
  "sep f (a # b # r) \<longleftrightarrow> \<not> (f a \<and> f b) \<and> sep f (b # r)"
| "sep f _ \<longleftrightarrow> True"

lemma sep_append:
  "sep f (xs @ ys) \<longleftrightarrow> sep f xs \<and> sep f ys \<and> (xs = [] \<or> ys = [] \<or> \<not> (f (last xs) \<and> f (hd ys)))"
  by (induction f xs rule: sep.induct; cases ys) auto

lemma sep_cong: "(\<And>a. a \<in> set xs \<Longrightarrow> f a = g a) \<Longrightarrow> sep f xs = sep g xs"
  by (induction f xs rule: sep.induct) auto

lemma sep_Cons: "sep f (x # ys) \<longleftrightarrow> sep f ys \<and> (ys = [] \<or> \<not> (f x \<and> f (hd ys)))"
  by (cases ys) auto

definition used :: "StaticAllocator \<Rightarrow> addr list \<Rightarrow> nat" where
  "used h ps = (\<Sum>a \<leftarrow> ps. if isfree h a then 0 else 40 + bsz h a)"

definition ainv :: "addr \<Rightarrow> addr \<Rightarrow> StaticAllocator \<Rightarrow> addr list \<Rightarrow> addr list \<Rightarrow> bool" where
  "ainv base lim h ps fs \<longleftrightarrow> phys base lim h ps \<and> free_list h fs \<and> set fs = {a \<in> set ps. isfree h a} \<and>
     sep (isfree h) ps \<and> unat (allocSize h) = 24 + used h ps"

lemma bsz_allocSize [simp]: "bsz (h\<lparr>allocSize := n\<rparr>) = bsz h"
  by (rule ext) (simp add: bsz_def)

lemma isfree_allocSize [simp]: "isfree (h\<lparr>allocSize := n\<rparr>) = isfree h"
  by (rule ext) (simp add: isfree_def)

lemma used_allocSize [simp]: "used (h\<lparr>allocSize := n\<rparr>) = used h"
  by (rule ext) (simp only: used_def bsz_allocSize isfree_allocSize)

lemma used_append [simp]: "used h (xs @ ys) = used h xs + used h ys"
  by (simp add: used_def)

lemma used_simps [simp]:
  "used h [] = 0" "used h (a # xs) = (if isfree h a then 0 else 40 + bsz h a) + used h xs"
  by (simp_all add: used_def)

lemma used_cong: "(\<And>a. a \<in> set xs \<Longrightarrow> hdr h' a = hdr h a) \<Longrightarrow> used h' xs = used h xs"
  by (induction xs) (auto simp: isfree_def bsz_def)

lemma used_le: "tiles (bsz h) a xs lim \<Longrightarrow> a + used h xs \<le> lim"
proof (induction xs arbitrary: a)
  case (Cons x xs)
  then have "x + 40 + bsz h x + used h xs \<le> lim"
    by auto
  then show ?case
    using Cons.prems by (simp split: if_splits)
qed simp

lemma phys_cong:
  assumes "phys base lim h ps" "\<And>a. a \<in> set ps \<Longrightarrow> bsz h' a = bsz h a" "nx h' = nx h" "pv h' = pv h"
    "\<And>a. a \<in> set ps \<Longrightarrow> valid h' a"
  shows "phys base lim h' ps"
  using assms tiles_cong [of ps "bsz h'" "bsz h" base lim] by (auto simp: phys_def)

lemma fs_remove: "distinct (us @ b # vs) \<Longrightarrow> set (us @ vs) = set (us @ b # vs) - {b}"
  by auto

subsection \<open>Taking a free block\<close>

text \<open>The rest of the search body once the block has its final size.\<close>

lemma mark_used_ok:
  assumes ph: "phys base lim h (xs @ b # ys)" and fl: "free_list h (us @ b # vs)"
    and st: "set (us @ b # vs) = {a \<in> set (xs @ b # ys). isfree h a}"
    and sp: "sep (isfree h) xs" "sep (isfree h) ys"
    and us: "unat (allocSize h) = 24 + used h (xs @ b # ys)"
  shows "\<exists>h1 h2. removeFreeBlock h b = Some h1 \<and> upd h1 b (b_header_update (setFree False)) = Some h2 \<and>
    valid h2 b \<and> (\<forall>a. a \<noteq> b \<longrightarrow> hdr h2 a = hdr h a) \<and> bsz h2 b = bsz h b \<and> \<not> isfree h2 b \<and>
    ainv base lim (h2\<lparr>allocSize := allocSize h2 + (blockSize + getSize (hdr h2 b))\<rparr>) (xs @ b # ys) (us @ vs)"
proof -
  obtain h1 where h1: "removeFreeBlock h b = Some h1" "free_list h1 (us @ vs)" "same_phys h h1"
    using removeFreeBlock_ok [OF fl] by blast
  have v: "valid h1 b"
    using h1(3) fl by (simp add: same_phys_def free_list_def)
  define h2 where "h2 = set_hdr h1 b (setFree False)"
  have hd2: "hdr h2 = (hdr h)(b := setFree False (hdr h b))" "nx h2 = nx h" "pv h2 = pv h"
    "valid h2 = valid h" "allocSize h2 = allocSize h"
    using h1(3) v by (auto simp: h2_def same_phys_def fun_eq_iff)
  have sz: "bsz h2 a = bsz h a" for a
    by (simp add: bsz_def hd2)
  have fr: "isfree h2 a \<longleftrightarrow> a \<noteq> b \<and> isfree h a" for a
    by (simp add: isfree_def hd2)
  have d: "distinct (xs @ b # ys)" "distinct (us @ b # vs)"
    using phys_distinct [OF ph] fl by (auto simp: free_list_def)
  have "isfree h b"
    using st by auto
  moreover have "used h2 xs = used h xs" "used h2 ys = used h ys"
    by (rule used_cong; use d in \<open>auto simp: hd2\<close>)+
  ultimately have u2: "used h2 (xs @ b # ys) = used h (xs @ b # ys) + (40 + bsz h b)"
    by (simp add: fr sz)
  have "base + used h2 (xs @ b # ys) \<le> lim" "lim < 2 ^ 63"
    using ph used_le [of h2 base "xs @ b # ys" lim] tiles_cong [of "xs @ b # ys" "bsz h2" "bsz h"]
    by (auto simp: phys_def sz)
  then have un: "unat (allocSize h + (blockSize + getSize (hdr h2 b))) = 24 + used h2 (xs @ b # ys)"
    using us u2 by (simp add: unat_plus_if' bsz_def hd2)
  let ?h = "h2\<lparr>allocSize := allocSize h2 + (blockSize + getSize (hdr h2 b))\<rparr>"
  have "phys base lim ?h (xs @ b # ys)"
    by (rule phys_cong [OF ph]) (use ph in \<open>auto simp: sz hd2 phys_def\<close>)
  moreover have "free_list ?h (us @ vs)"
    using h1(2) by (auto simp: h2_def free_list_def)
  moreover have "set (us @ vs) = {a \<in> set (xs @ b # ys). isfree ?h a}"
    unfolding fs_remove [OF d(2)] st by (auto simp: fr)
  moreover have "sep (isfree ?h) (xs @ b # ys)"
  proof -
    have "sep (isfree h2) xs" "sep (isfree h2) ys"
      using sp sep_cong [of xs "isfree h2" "isfree h"] sep_cong [of ys "isfree h2" "isfree h"] d
      by (auto simp: fr)
    then show ?thesis
      by (simp add: sep_append sep_Cons fr)
  qed
  moreover have "unat (allocSize ?h) = 24 + used ?h (xs @ b # ys)"
    using un by (simp add: hd2)
  ultimately have "ainv base lim ?h (xs @ b # ys) (us @ vs)"
    by (simp add: ainv_def)
  moreover have "upd h1 b (b_header_update (setFree False)) = Some h2"
    using v by (simp add: exec h2_def)
  moreover have "valid h2 b"
    using v by (simp add: h2_def)
  ultimately show ?thesis
    using h1(1) by (auto simp: fr sz hd2)
qed

definition allocd :: "StaticAllocator \<Rightarrow> addr list \<Rightarrow> addr set" where
  "allocd h ps = {a \<in> set ps. \<not> isfree h a}"

definition malloc_effect :: "StaticAllocator \<Rightarrow> addr list \<Rightarrow> StaticAllocator \<Rightarrow> addr list \<Rightarrow> addr \<Rightarrow> nat \<Rightarrow> bool" where
  "malloc_effect h ps h' ps' b n \<longleftrightarrow> b \<notin> allocd h ps \<and> allocd h' ps' = insert b (allocd h ps) \<and>
     (\<forall>a \<in> allocd h ps. bsz h' a = bsz h a) \<and> n \<le> bsz h' b \<and> bsz h' b \<le> n + 40"

lemma split_step:
  assumes iv: "ainv base lim h (xs @ b # ys) (us @ b # vs)" and sz: "unat s + 40 < bsz h b"
  defines "nb \<equiv> b + 40 + unat s"
  shows "\<exists>h1. split_block h b s = Some h1 \<and> phys base lim h1 (xs @ b # nb # ys) \<and>
    free_list h1 ((nb # us) @ b # vs) \<and>
    set ((nb # us) @ b # vs) = {a \<in> set (xs @ b # nb # ys). isfree h1 a} \<and>
    sep (isfree h1) xs \<and> sep (isfree h1) (nb # ys) \<and>
    unat (allocSize h1) = 24 + used h1 (xs @ b # nb # ys) \<and> bsz h1 b = unat s \<and> isfree h1 nb \<and>
    (\<forall>a \<in> set (xs @ ys). hdr h1 a = hdr h a)"
proof -
  have ph: "phys base lim h (xs @ b # ys)" and fl: "free_list h (us @ b # vs)"
    and st: "set (us @ b # vs) = {a \<in> set (xs @ b # ys). isfree h a}"
    and sp: "sep (isfree h) (xs @ b # ys)" and us: "unat (allocSize h) = 24 + used h (xs @ b # ys)"
    using iv by (auto simp: ainv_def)
  have sub: "set (us @ b # vs) \<subseteq> set (xs @ b # ys)"
    using st by auto
  obtain h1 where h1: "split_block h b s = Some h1" "phys base lim h1 (xs @ b # nb # ys)"
    "free_list h1 (nb # us @ b # vs)" "isfree h1 nb" "isfree h1 b = isfree h b" "bsz h1 b = unat s"
    "\<forall>a \<in> set (xs @ ys). hdr h1 a = hdr h a" "allocSize h1 = allocSize h"
    using split_block_ok [OF ph fl sub sz] by (auto simp: nb_def isfree_def)
  have b: "isfree h b"
    using st by auto
  have same: "isfree h1 a = isfree h a" if "a \<in> set (xs @ ys)" for a
    using that h1(7) by (simp add: isfree_def)
  have "set ((nb # us) @ b # vs) = {a \<in> set (xs @ b # nb # ys). isfree h1 a}"
    using st h1(4,5) b same by auto
  moreover have "sep (isfree h1) xs" "sep (isfree h1) (nb # ys)"
    using sp b same sep_cong [of xs "isfree h1" "isfree h"] sep_cong [of ys "isfree h1" "isfree h"]
    by (auto simp: sep_append sep_Cons)
  moreover have "used h1 xs = used h xs" "used h1 ys = used h ys"
    by (rule used_cong; use h1(7) in simp)+
  ultimately show ?thesis
    using h1 us b by auto
qed

lemma take_block_ok:
  assumes iv: "ainv base lim h (xs @ b # ys) (us @ b # vs)" and sz: "unat s \<le> bsz h b"
  shows "\<exists>h' ps' fs'. take_block h b s = Some (h', Some (b + 40)) \<and> ainv base lim h' ps' fs' \<and>
    malloc_effect h (xs @ b # ys) h' ps' b (unat s)"
proof -
  have v: "valid h b" and b: "isfree h b" and d: "distinct (xs @ b # ys)"
    using iv phys_distinct [of base lim h "xs @ b # ys"] by (auto simp: ainv_def phys_def)
  have cond: "blockSize < getSize (hdr h b) - s \<longleftrightarrow> unat s + 40 < bsz h b"
    using sz by (simp add: word_less_nat_alt unat_sub_if' bsz_def) linarith
  show ?thesis
  proof (cases "unat s + 40 < bsz h b")
    case True
    define nb where "nb = b + 40 + unat s"
    obtain h1 where h1: "split_block h b s = Some h1" "phys base lim h1 (xs @ b # nb # ys)"
      "free_list h1 ((nb # us) @ b # vs)"
      "set ((nb # us) @ b # vs) = {a \<in> set (xs @ b # nb # ys). isfree h1 a}"
      "sep (isfree h1) xs" "sep (isfree h1) (nb # ys)"
      "unat (allocSize h1) = 24 + used h1 (xs @ b # nb # ys)" "bsz h1 b = unat s" "isfree h1 nb"
      "\<forall>a \<in> set (xs @ ys). hdr h1 a = hdr h a"
      using split_step [OF iv True] unfolding nb_def by blast
    obtain h2 h3 where h3: "removeFreeBlock h1 b = Some h2" "upd h2 b (b_header_update (setFree False)) = Some h3"
      "valid h3 b" "\<forall>a. a \<noteq> b \<longrightarrow> hdr h3 a = hdr h1 a" "bsz h3 b = bsz h1 b" "\<not> isfree h3 b"
      "ainv base lim (h3\<lparr>allocSize := allocSize h3 + (blockSize + getSize (hdr h3 b))\<rparr>) (xs @ b # nb # ys) ((nb # us) @ vs)"
      using mark_used_ok [OF h1(2-7)] by blast
    have fresh: "nb \<noteq> b"
      by (simp add: nb_def)
    have "malloc_effect h (xs @ b # ys) (h3\<lparr>allocSize := allocSize h3 + (blockSize + getSize (hdr h3 b))\<rparr>)
        (xs @ b # nb # ys) b (unat s)"
      using b d h1(8,9,10) h3(4,5,6) fresh
      by (auto simp: malloc_effect_def allocd_def isfree_def bsz_def)
    then show ?thesis
      using v h1(1) h3 cond True by (auto simp: take_block_def exec Let_def)
  next
    case False
    have parts: "phys base lim h (xs @ b # ys)" "free_list h (us @ b # vs)"
      "set (us @ b # vs) = {a \<in> set (xs @ b # ys). isfree h a}"
      "sep (isfree h) xs" "sep (isfree h) ys" "unat (allocSize h) = 24 + used h (xs @ b # ys)"
      using iv by (auto simp: ainv_def sep_append sep_Cons)
    obtain h2 h3 where h3: "removeFreeBlock h b = Some h2" "upd h2 b (b_header_update (setFree False)) = Some h3"
      "valid h3 b" "\<forall>a. a \<noteq> b \<longrightarrow> hdr h3 a = hdr h a" "bsz h3 b = bsz h b" "\<not> isfree h3 b"
      "ainv base lim (h3\<lparr>allocSize := allocSize h3 + (blockSize + getSize (hdr h3 b))\<rparr>) (xs @ b # ys) (us @ vs)"
      using mark_used_ok [OF parts] by blast
    have "malloc_effect h (xs @ b # ys) (h3\<lparr>allocSize := allocSize h3 + (blockSize + getSize (hdr h3 b))\<rparr>)
        (xs @ b # ys) b (unat s)"
      using b d h3(4,5,6) False sz
      by (auto simp: malloc_effect_def allocd_def isfree_def bsz_def)
    then show ?thesis
      using v h3 cond False by (auto simp: take_block_def exec Let_def)
  qed
qed

subsection \<open>Allocation\<close>

lemma malloc_from_ok:
  "ainv base lim h ps (us @ ws) \<Longrightarrow>
    (\<forall>a \<in> set ws. bsz h a < unat s) \<and> malloc_from h (first ws None) s = Some (h, None) \<or>
    (\<exists>b h' ps' fs'. b \<in> set ws \<and> malloc_from h (first ws None) s = Some (h', Some (b + 40)) \<and>
       ainv base lim h' ps' fs' \<and> malloc_effect h ps h' ps' b (unat s))"
proof (induction ws arbitrary: us)
  case Nil
  then show ?case
    by (simp add: malloc_from.simps)
next
  case (Cons b ws)
  then have b: "b \<in> set ps" "valid h b" "fnx h b = first ws None"
    by (auto simp: ainv_def phys_def free_list_def seg_append)
  have step: "malloc_from h (Some b) s =
      (if bsz h b < unat s then malloc_from h (first ws None) s else take_block h b s)"
    using b by (subst malloc_from.simps) (simp add: exec bsz_def word_less_nat_alt)
  show ?case
  proof (cases "bsz h b < unat s")
    case True
    then show ?thesis
      using Cons.IH [of "us @ [b]"] Cons.prems step by fastforce
  next
    case False
    moreover obtain xs ys where ps: "ps = xs @ b # ys"
      using b(1) by (meson split_list)
    ultimately obtain h' ps' fs' where "take_block h b s = Some (h', Some (b + 40))" "ainv base lim h' ps' fs'"
      "malloc_effect h ps h' ps' b (unat s)"
      using take_block_ok [of base lim h xs b ys us ws s] Cons.prems by auto
    then show ?thesis
      using False step by auto
  qed
qed

lemma round8_unat: "unat (round8 s) = unat (s + 7) div 8 * 8"
proof -
  have m: "(7 :: u64) = mask 3"
    by (simp add: mask_eq_exp_minus_1)
  have "round8 s = push_bit 3 (drop_bit 3 (s + 7))"
    unfolding round8_def m by (rule bit_word_eqI) (auto simp: bit_simps)
  then have "unat (round8 s) = take_bit 64 (push_bit 3 (unat (drop_bit 3 (s + 7))))"
    by (simp only: unsigned_push_bit_eq) simp
  moreover have "unat (drop_bit 3 (s + 7)) = unat (s + 7) div 8"
    by (simp only: unat_drop_bit_eq) (simp add: drop_bit_eq_div)
  moreover have "unat (s + 7) < 2 ^ 64"
    using unsigned_less [of "s + 7"] by simp
  then have "unat (s + 7) div 8 * 8 < 2 ^ 64"
    by (meson div_times_less_eq_dividend le_less_trans)
  ultimately show ?thesis
    by (simp add: push_bit_eq_mult take_bit_nat_eq_self)
qed

text \<open>Rounding up wraps around for the seven largest sizes.\<close>

lemma round8_eq: "unat (round8 s) = (if unat s + 7 < 2 ^ 64 then (unat s + 7) div 8 * 8 else 0)"
proof -
  have "unat s < 2 ^ 64"
    using unsigned_less [of s, where ?'a = nat] by simp
  then show ?thesis
    by (auto simp: round8_unat unat_plus_if' intro!: div_less)
qed

lemma Malloc_ok:
  assumes "ainv base lim h ps fs"
  shows "Malloc h s = Some (h, None) \<and> (s = 0 \<or> (\<forall>a \<in> set ps. isfree h a \<longrightarrow> bsz h a < unat (round8 s))) \<or>
    (\<exists>b h' ps' fs'. s \<noteq> 0 \<and> Malloc h s = Some (h', Some (b + 40)) \<and> ainv base lim h' ps' fs' \<and>
       malloc_effect h ps h' ps' b (unat (round8 s)))"
proof (cases "s = 0")
  case False
  have "freeBlockList h = first fs None" "set fs = {a \<in> set ps. isfree h a}"
    using assms(1) by (auto simp: ainv_def free_list_def)
  then show ?thesis
    using malloc_from_ok [of base lim h ps "[]" fs "round8 s"] assms(1) False
    by (simp add: Malloc_def) blast
qed (simp add: Malloc_def)

subsection \<open>Merging neighbours\<close>

definition absorb :: "StaticAllocator \<Rightarrow> addr \<Rightarrow> addr \<Rightarrow> StaticAllocator" where
  "absorb h a n =
     (let h1 = set_hdr h a (\<lambda>w. setSize (getSize w + getSize (hdr h n) + blockSize) w);
          h2 = set_nx h1 a (nx h n)
      in case nx h n of None \<Rightarrow> h2 | Some m \<Rightarrow> set_pv h2 m (Some a))"

lemma absorb_obs:
  "valid h a \<Longrightarrow> \<forall>m. nx h n = Some m \<longrightarrow> valid h m \<Longrightarrow> valid (absorb h a n) = valid h"
  "fnx (absorb h a n) = fnx h" "fpv (absorb h a n) = fpv h" "freeBlockList (absorb h a n) = freeBlockList h"
  "allocSize (absorb h a n) = allocSize h"
  "hdr (absorb h a n) = (hdr h)(a := setSize (getSize (hdr h a) + getSize (hdr h n) + blockSize) (hdr h a))"
  "nx (absorb h a n) = (nx h)(a := nx h n)"
  "pv (absorb h a n) = (case nx h n of None \<Rightarrow> pv h | Some m \<Rightarrow> (pv h)(m \<mapsto> a))"
  by (auto simp: absorb_def Let_def fun_eq_iff split: option.splits)

lemma absorb_ok:
  assumes ph: "phys base lim h (xs @ a # n # ys)"
  shows "phys base lim (absorb h a n) (xs @ a # ys)"
    "bsz (absorb h a n) a = bsz h a + bsz h n + 40" "isfree (absorb h a n) a = isfree h a"
    "valid (absorb h a n) = valid h"
proof -
  have d: "distinct (xs @ a # n # ys)" and sg: "seg (nx h) (pv h) None (xs @ a # n # ys) None"
    and ti: "tiles (bsz h) base (xs @ a # n # ys) lim" and v: "\<forall>b \<in> set (xs @ a # n # ys). valid h b"
    using phys_distinct [OF ph] ph by (auto simp: phys_def)
  have nx: "nx h n = first ys None"
    using sg by (simp add: seg_append)
  then show vd: "valid (absorb h a n) = valid h"
    using v by (intro absorb_obs(1)) (auto simp: first_def split: list.splits)
  have "n = a + 40 + bsz h a" "n + 40 + bsz h n \<le> lim" "lim < 2 ^ 63"
    using ti phys_less [OF ph, of n] by (auto simp: tiles_append)
  then have sum: "unat (getSize (hdr h a) + getSize (hdr h n) + blockSize) = bsz h a + bsz h n + 40"
    "bsz h a + bsz h n + 40 < 2 ^ 63"
    by (simp_all add: unat_plus_if' bsz_def)
  show z: "bsz (absorb h a n) a = bsz h a + bsz h n + 40"
    using sum by (simp add: bsz_def absorb_obs)
  show "isfree (absorb h a n) a = isfree h a"
    by (simp add: isfree_def absorb_obs)
  have t: "tiles (bsz (absorb h a n)) c zs m = tiles (bsz h) c zs m" if "a \<notin> set zs" for c zs m
    using that by (intro tiles_cong) (auto simp: bsz_def absorb_obs)
  have "tiles (bsz (absorb h a n)) base (xs @ a # ys) lim"
    using ti d z by (auto simp: tiles_append t add_ac)
  moreover have "seg (nx (absorb h a n)) (pv (absorb h a n)) None (xs @ a # ys) None"
    using sg d nx by (cases ys) (auto simp: absorb_obs seg_append)
  ultimately show "phys base lim (absorb h a n) (xs @ a # ys)"
    using v ph by (auto simp: phys_def vd)
qed

text \<open>The state inside \<^const>\<open>Free\<close>: the block is marked free but not yet on the free list.\<close>

definition pending :: "addr \<Rightarrow> addr \<Rightarrow> StaticAllocator \<Rightarrow> addr list \<Rightarrow> addr \<Rightarrow> addr list \<Rightarrow> addr list \<Rightarrow> bool" where
  "pending base lim h xs b ys fs \<longleftrightarrow> phys base lim h (xs @ b # ys) \<and> free_list h fs \<and>
     set fs = {a \<in> set (xs @ ys). isfree h a} \<and> sep (isfree h) xs \<and> sep (isfree h) ys \<and> isfree h b \<and>
     unat (allocSize h) = 24 + used h (xs @ b # ys)"

definition alloc_same :: "StaticAllocator \<Rightarrow> addr list \<Rightarrow> StaticAllocator \<Rightarrow> addr list \<Rightarrow> bool" where
  "alloc_same h ps h' ps' \<longleftrightarrow> allocd h' ps' = allocd h ps \<and> (\<forall>a \<in> allocd h ps. bsz h' a = bsz h a)"

lemma same_phys_frees: "same_phys h h' \<Longrightarrow> isfree h' = isfree h" "same_phys h h' \<Longrightarrow> used h' = used h"
proof -
  show f: "isfree h' = isfree h" if "same_phys h h'"
    by (rule ext) (use that in \<open>simp add: same_phys_def isfree_def\<close>)
  show "used h' = used h" if "same_phys h h'"
    by (rule ext) (simp only: used_def f [OF that] same_phys_bsz [OF that])
qed

text \<open>Absorbing a free right neighbour, after the free one of the two left the free list.\<close>

lemma absorb_pending:
  assumes ph: "phys base lim h (xs @ a # n # ys)" and fr: "isfree h a" "isfree h n"
    and fl: "free_list h fs" "set fs = {c \<in> set (xs @ ys). isfree h c}"
    and sp: "sep (isfree h) xs" "sep (isfree h) ys"
    and us: "unat (allocSize h) = 24 + used h (xs @ a # n # ys)"
  shows "pending base lim (absorb h a n) xs a ys fs"
    "alloc_same h (xs @ a # n # ys) (absorb h a n) (xs @ a # ys)"
    "\<forall>c. c \<noteq> a \<longrightarrow> isfree (absorb h a n) c = isfree h c"
proof -
  note a = absorb_ok [OF ph]
  have d: "distinct (xs @ a # n # ys)"
    by (rule phys_distinct [OF ph])
  have k: "hdr (absorb h a n) c = hdr h c" if "c \<noteq> a" for c
    using that by (simp add: absorb_obs)
  have f: "isfree (absorb h a n) c = isfree h c" for c
    using a(3) k [of c] by (cases "c = a") (auto simp: isfree_def)
  then have fe: "isfree (absorb h a n) = isfree h"
    by auto
  have u: "used (absorb h a n) xs = used h xs" "used (absorb h a n) ys = used h ys"
    by (rule used_cong; use d in \<open>auto simp: absorb_obs\<close>)+
  have "free_list (absorb h a n) fs"
    using fl(1) a(4) by (simp add: free_list_def absorb_obs)
  then show "pending base lim (absorb h a n) xs a ys fs"
    using a(1) fl sp us fr u by (simp add: pending_def fe absorb_obs)
  show "alloc_same h (xs @ a # n # ys) (absorb h a n) (xs @ a # ys)"
    using fr d k by (auto simp: alloc_same_def allocd_def fe bsz_def absorb_obs)
  show "\<forall>c. c \<noteq> a \<longrightarrow> isfree (absorb h a n) c = isfree h c"
    using f by simp
qed

lemma first_next: "phys base lim h (xs @ b # ys) \<Longrightarrow> nx h b = first ys None \<and> pv h b = final xs None"
  by (simp add: phys_def seg_append)

lemma absorb_exec:
  assumes "valid h a" "\<forall>m. nx h n = Some m \<longrightarrow> valid h m"
  shows "do { h1 \<leftarrow> upd h a (b_header_update (\<lambda>w. setSize (getSize w + getSize (hdr h n) + blockSize) w));
              h2 \<leftarrow> upd h1 a (b_next_update (\<lambda>_. nx h n));
              h3 \<leftarrow> upd_opt h2 (nx h n) (b_prev_update (\<lambda>_. Some a));
              k h3 } = k (absorb h a n)"
  using assms by (auto simp: exec absorb_def Let_def split: option.splits)

lemma merge_next_stop:
  assumes "phys base lim h (xs @ b # ys)" "ys = [] \<or> \<not> isfree h (hd ys)"
  shows "merge_next h b = Some h"
proof -
  have v: "valid h b" "\<forall>a \<in> set ys. valid h a"
    using assms(1) by (auto simp: phys_def)
  then show ?thesis
    using assms(2) first_next [OF assms(1)]
    by (subst merge_next.simps) (cases ys, auto simp: exec isfree_def)
qed

lemma remove_pending:
  assumes "free_list h fs" "n \<in> set fs"
  obtains h1 fs1 where "removeFreeBlock h n = Some h1" "free_list h1 fs1" "set fs1 = set fs - {n}" "same_phys h h1"
proof -
  obtain us vs where fs: "fs = us @ n # vs"
    using assms(2) by (meson split_list)
  have "distinct fs"
    using assms(1) by (simp add: free_list_def)
  then show ?thesis
    using that removeFreeBlock_ok [of h us n vs] assms(1) fs fs_remove [of us n vs] by auto
qed

lemma phys_next_valid:
  assumes "phys base lim h (xs @ n # ys)"
  shows "\<forall>m. nx h n = Some m \<longrightarrow> valid h m"
  using assms first_next [OF assms] by (cases ys) (auto simp: phys_def)

lemma merge_next_ok:
  assumes "pending base lim h xs b ys fs"
  shows "\<exists>h' ys' fs'. merge_next h b = Some h' \<and> pending base lim h' xs b ys' fs' \<and>
    (ys' = [] \<or> \<not> isfree h' (hd ys')) \<and> alloc_same h (xs @ b # ys) h' (xs @ b # ys')"
proof (cases "ys = [] \<or> \<not> isfree h (hd ys)")
  case True
  then show ?thesis
    using assms merge_next_stop [of base lim h xs b ys] by (auto simp: pending_def alloc_same_def)
next
  case False
  then obtain n ys' where ys: "ys = n # ys'" and n: "isfree h n"
    by (cases ys) auto
  have p: "phys base lim h (xs @ b # n # ys')" "free_list h fs" "isfree h b" "sep (isfree h) xs"
    "sep (isfree h) (n # ys')" "set fs = {a \<in> set (xs @ n # ys'). isfree h a}"
    "unat (allocSize h) = 24 + used h (xs @ b # n # ys')"
    using assms by (simp_all add: pending_def ys)
  obtain h1 fs1 where h1: "removeFreeBlock h n = Some h1" "free_list h1 fs1" "set fs1 = set fs - {n}" "same_phys h h1"
    using remove_pending [OF p(2), of n] p(6) n by auto
  note sf = same_phys_frees [OF h1(4)]
  have ph1: "phys base lim h1 (xs @ b # n # ys')"
    using p(1) same_phys_phys [OF h1(4)] by simp
  have d: "distinct (xs @ b # n # ys')"
    by (rule phys_distinct [OF ph1])
  have "set fs1 = {c \<in> set (xs @ ys'). isfree h1 c}"
    using d n by (auto simp: h1(3) p(6) sf)
  then have ab: "pending base lim (absorb h1 b n) xs b ys' fs1"
    "alloc_same h1 (xs @ b # n # ys') (absorb h1 b n) (xs @ b # ys')"
    "\<forall>c. c \<noteq> b \<longrightarrow> isfree (absorb h1 b n) c = isfree h1 c"
    using absorb_pending [OF ph1 _ _ h1(2)] p n h1(4) by (simp_all add: sf same_phys_def [of h h1] sep_Cons)
  have nf: "ys' = [] \<or> \<not> isfree (absorb h1 b n) (hd ys')"
    using p(5) n ab(3) d by (cases ys') (auto simp: sf sep_Cons)
  have v: "valid h b" "valid h n" "valid h1 b" "nx h b = Some n" "nx h1 n = nx h n" "hdr h1 n = hdr h n"
    using p(1) ph1 first_next [OF p(1)] h1(4) by (auto simp: phys_def same_phys_def)
  have "merge_next h b = merge_next (absorb h1 b n) b"
    using v n h1(1) absorb_exec [OF v(3), of n "\<lambda>h. merge_next h b"]
      phys_next_valid [of base lim h1 "xs @ [b]" n ys'] ph1
    by (subst merge_next.simps) (simp add: exec isfree_def)
  also have "\<dots> = Some (absorb h1 b n)"
    using merge_next_stop [of base lim "absorb h1 b n" xs b ys'] ab(1) nf by (simp add: pending_def)
  finally show ?thesis
    using ab nf h1(4) by (auto simp: ys alloc_same_def allocd_def sf same_phys_bsz)
qed

lemma merge_prev_ok:
  assumes "pending base lim h xs b ys fs" and nf: "ys = [] \<or> \<not> isfree h (hd ys)"
  shows "\<exists>h' c xs' fs'. merge_prev h b = Some (h', c) \<and> pending base lim h' xs' c ys fs' \<and>
    (ys = [] \<or> \<not> isfree h' (hd ys)) \<and> (xs' = [] \<or> \<not> isfree h' (last xs')) \<and>
    alloc_same h (xs @ b # ys) h' (xs' @ c # ys)"
proof (cases "xs = [] \<or> \<not> isfree h (last xs)")
  case True
  have v: "valid h b" "\<forall>a \<in> set xs. valid h a" and pv: "pv h b = final xs None"
    using assms(1) first_next [of base lim h xs b ys] by (auto simp: pending_def phys_def)
  have "merge_prev h b = Some (h, b)"
    using True v pv by (cases xs rule: rev_cases) (auto simp: merge_prev_def exec isfree_def)
  then show ?thesis
    using assms True by (auto simp: alloc_same_def)
next
  case False
  then obtain p xs' where xs: "xs = xs' @ [p]" and p: "isfree h p"
    by (cases xs rule: rev_cases) auto
  have q: "phys base lim h (xs' @ p # b # ys)" "free_list h fs" "isfree h b" "sep (isfree h) (xs' @ [p])"
    "sep (isfree h) ys" "set fs = {a \<in> set (xs' @ p # ys). isfree h a}"
    "unat (allocSize h) = 24 + used h (xs' @ p # b # ys)"
    using assms(1) by (simp_all add: pending_def xs)
  obtain h1 fs1 where h1: "removeFreeBlock h p = Some h1" "free_list h1 fs1" "set fs1 = set fs - {p}" "same_phys h h1"
    using remove_pending [OF q(2), of p] q(6) p by auto
  note sf = same_phys_frees [OF h1(4)]
  have ph1: "phys base lim h1 (xs' @ p # b # ys)"
    using q(1) same_phys_phys [OF h1(4)] by simp
  have d: "distinct (xs' @ p # b # ys)"
    by (rule phys_distinct [OF ph1])
  have "set fs1 = {c \<in> set (xs' @ ys). isfree h1 c}"
    using d p by (auto simp: h1(3) q(6) sf)
  then have ab: "pending base lim (absorb h1 p b) xs' p ys fs1"
    "alloc_same h1 (xs' @ p # b # ys) (absorb h1 p b) (xs' @ p # ys)"
    "\<forall>c. c \<noteq> p \<longrightarrow> isfree (absorb h1 p b) c = isfree h1 c"
    using absorb_pending [OF ph1 _ _ h1(2)] q p h1(4) by (simp_all add: sf same_phys_def [of h h1] sep_append)
  have nf': "ys = [] \<or> \<not> isfree (absorb h1 p b) (hd ys)" "xs' = [] \<or> \<not> isfree (absorb h1 p b) (last xs')"
    using nf q(4) p ab(3) d by (cases ys; cases xs' rule: rev_cases; simp add: sf sep_append; fail)+
  have v: "valid h b" "valid h p" "valid h1 p" "pv h b = Some p" "nx h1 b = nx h b" "hdr h1 b = hdr h b"
    using q(1) ph1 first_next [of base lim h "xs' @ [p]" b ys] h1(4) by (auto simp: phys_def same_phys_def)
  have "merge_prev h b = Some (absorb h1 p b, p)"
    using v p h1(1) absorb_exec [OF v(3), of b "\<lambda>h. Some (h, p)"]
      phys_next_valid [of base lim h1 "xs' @ [p]" b ys] ph1
    by (simp add: merge_prev_def exec isfree_def)
  then show ?thesis
    using ab nf' h1(4) by (auto simp: xs alloc_same_def allocd_def sf same_phys_bsz)
qed

lemma insert_pending:
  assumes "pending base lim h xs b ys fs" "ys = [] \<or> \<not> isfree h (hd ys)" "xs = [] \<or> \<not> isfree h (last xs)"
  shows "\<exists>h'. insertFreeBlock h b = Some h' \<and> ainv base lim h' (xs @ b # ys) (b # fs) \<and>
    alloc_same h (xs @ b # ys) h' (xs @ b # ys)"
proof -
  have ph: "phys base lim h (xs @ b # ys)" and fl: "free_list h fs" and st: "set fs = {a \<in> set (xs @ ys). isfree h a}"
    using assms(1) by (auto simp: pending_def)
  have d: "distinct (xs @ b # ys)" and v: "valid h b"
    using phys_distinct [OF ph] ph by (auto simp: phys_def)
  have "b \<notin> set fs"
    using st d by auto
  then obtain h' where h': "insertFreeBlock h b = Some h'" "free_list h' (b # fs)" "same_phys h h'"
    using insertFreeBlock_ok [OF fl v] by auto
  note sf = same_phys_frees [OF h'(3)]
  have "set (b # fs) = {a \<in> set (xs @ b # ys). isfree h' a}"
    using assms(1) st by (auto simp: sf pending_def)
  moreover have "sep (isfree h') (xs @ b # ys)"
    using assms by (auto simp: sf sep_append sep_Cons pending_def)
  moreover have "phys base lim h' (xs @ b # ys)"
    using ph same_phys_phys [OF h'(3)] by simp
  moreover have "unat (allocSize h') = 24 + used h' (xs @ b # ys)"
    using assms(1) h'(3) by (simp add: sf pending_def same_phys_def)
  ultimately show ?thesis
    using h' by (auto simp: ainv_def alloc_same_def allocd_def sf same_phys_bsz)
qed

lemma mark_free_ok:
  assumes iv: "ainv base lim h (xs @ b # ys) fs" and nf: "\<not> isfree h b"
  defines "h1 \<equiv> (set_hdr h b (setFree True))\<lparr>allocSize := allocSize h - (blockSize + getSize (hdr h b))\<rparr>"
  shows "pending base lim h1 xs b ys fs"
    "allocd h1 (xs @ b # ys) = allocd h (xs @ b # ys) - {b}" "bsz h1 = bsz h"
    "unat (allocSize h) = unat (allocSize h1) + 40 + bsz h b"
proof -
  have ph: "phys base lim h (xs @ b # ys)" and fl: "free_list h fs"
    and st: "set fs = {a \<in> set (xs @ b # ys). isfree h a}" and sp: "sep (isfree h) (xs @ b # ys)"
    and us: "unat (allocSize h) = 24 + used h (xs @ b # ys)"
    using iv by (auto simp: ainv_def)
  have d: "distinct (xs @ b # ys)" and v: "valid h b"
    using phys_distinct [OF ph] ph by (auto simp: phys_def)
  have obs: "hdr h1 = (hdr h)(b := setFree True (hdr h b))" "nx h1 = nx h" "pv h1 = pv h" "fnx h1 = fnx h"
    "fpv h1 = fpv h" "freeBlockList h1 = freeBlockList h" "\<And>a. valid h1 a \<longleftrightarrow> valid h a"
    using v by (auto simp: h1_def)
  show bs: "bsz h1 = bsz h"
    by (rule ext) (simp add: bsz_def obs)
  have f: "isfree h1 a \<longleftrightarrow> a = b \<or> isfree h a" for a
    by (simp add: isfree_def obs)
  show "allocd h1 (xs @ b # ys) = allocd h (xs @ b # ys) - {b}"
    by (auto simp: allocd_def f)
  have u: "used h1 xs = used h xs" "used h1 ys = used h ys"
    by (rule used_cong; use d in \<open>auto simp: obs\<close>)+
  show al: "unat (allocSize h) = unat (allocSize h1) + 40 + bsz h b"
    using us nf getSize_less [of "hdr h b"]
    by (simp add: h1_def unat_sub_if' unat_plus_if' bsz_def)
  have "phys base lim h1 (xs @ b # ys)"
    by (rule phys_cong [OF ph]) (use ph in \<open>auto simp: bs obs phys_def\<close>)
  moreover have "free_list h1 fs"
    using fl by (simp add: free_list_def obs)
  moreover have "sep (isfree h1) xs" "sep (isfree h1) ys"
    using sp d sep_cong [of xs "isfree h1" "isfree h"] sep_cong [of ys "isfree h1" "isfree h"]
    by (auto simp: f sep_append sep_Cons)
  moreover have "set fs = {a \<in> set (xs @ ys). isfree h1 a}"
    using st d nf by (auto simp: f)
  ultimately show "pending base lim h1 xs b ys fs"
    using al us nf u by (simp add: pending_def f bs)
qed

lemma Free_ok:
  assumes iv: "ainv base lim h ps fs" and b: "b \<in> allocd h ps"
  shows "\<exists>h' ps' fs'. Free h (Some (b + 40)) = Some (h', True) \<and> ainv base lim h' ps' fs' \<and>
    allocd h' ps' = allocd h ps - {b} \<and> (\<forall>a \<in> allocd h ps - {b}. bsz h' a = bsz h a)"
proof -
  have bp: "b \<in> set ps" and nf: "\<not> isfree h b"
    using b by (auto simp: allocd_def)
  then obtain xs ys where ps: "ps = xs @ b # ys"
    by (meson split_list)
  let ?h1 = "(set_hdr h b (setFree True))\<lparr>allocSize := allocSize h - (blockSize + getSize (hdr h b))\<rparr>"
  have v: "valid h b"
    using iv bp by (auto simp: ainv_def phys_def)
  note m = mark_free_ok [OF iv [unfolded ps] nf]
  obtain h2 ys' fs' where h2: "merge_next ?h1 b = Some h2" "pending base lim h2 xs b ys' fs'"
    "ys' = [] \<or> \<not> isfree h2 (hd ys')" "alloc_same ?h1 (xs @ b # ys) h2 (xs @ b # ys')"
    using merge_next_ok [OF m(1)] by blast
  obtain h3 c xs' fs3 where h3: "merge_prev h2 b = Some (h3, c)" "pending base lim h3 xs' c ys' fs3"
    "ys' = [] \<or> \<not> isfree h3 (hd ys')" "xs' = [] \<or> \<not> isfree h3 (last xs')"
    "alloc_same h2 (xs @ b # ys') h3 (xs' @ c # ys')"
    using merge_prev_ok [OF h2(2,3)] by blast
  obtain h4 where h4: "insertFreeBlock h3 c = Some h4" "ainv base lim h4 (xs' @ c # ys') (c # fs3)"
    "alloc_same h3 (xs' @ c # ys') h4 (xs' @ c # ys')"
    using insert_pending [OF h3(2-4)] by blast
  have "Free h (Some (b + 40)) = Some (h4, True)"
    using v nf h2(1) h3(1) h4(1) by (simp add: Free_def exec isfree_def Let_def)
  then show ?thesis
    using h4 h3(5) h2(4) m(2,3) unfolding ps by (auto simp: alloc_same_def)
qed

lemma New_ok:
  assumes "NewStaticAllocator (Some m) s = Some h" "m + unat s < 2 ^ 63"
  shows "ainv (m + 24) (m + unat s) h [m + 24] [m + 24]" "allocd h [m + 24] = {}"
proof -
  have s: "64 \<le> unat s"
    using assms(1) by (simp add: NewStaticAllocator_def headerSize_def blockSize_def word_less_nat_alt split: if_splits)
  have "unat (s - headerSize - blockSize) = unat s - 64"
    using s by (simp add: unat_sub_if' headerSize_def blockSize_def)
  then have z: "unat (getSize (setFree True (setSize (s - headerSize - blockSize) 0))) = unat s - 64"
    using assms(2) by simp
  have h: "h = \<lparr>allocSize = 24, freeBlockList = Some (m + 24), blocks = [m + 24 \<mapsto>
      \<lparr>b_header = setFree True (setSize (s - headerSize - blockSize) 0), b_next = None, b_prev = None,
       freeNext = None, freePrev = None\<rparr>]\<rparr>"
    using assms(1) by (simp add: NewStaticAllocator_def Let_def headerSize_def split: if_splits)
  then have o: "bsz h (m + 24) = unat s - 64" "isfree h (m + 24)" "valid h (m + 24)" "nx h (m + 24) = None"
    "pv h (m + 24) = None" "fnx h (m + 24) = None" "fpv h (m + 24) = None"
    using z by (simp_all add: bsz_def isfree_def obs_defs)
  show "allocd h [m + 24] = {}"
    using o by (auto simp: allocd_def)
  show "ainv (m + 24) (m + unat s) h [m + 24] [m + 24]"
    using o s assms(2) by (auto simp: ainv_def phys_def free_list_def used_def h)
qed

end
