(* ===== verification/Static_Allocator_Spec.thy ===== *)
theory Static_Allocator_Spec
  imports Static_Allocator_Inv
begin

text \<open>
  The contract of the static allocator, over its set of allocations: a finite map from the
  address handed out to the usable size. The blocks of a state are determined by it, so
  the map is a function of the state. A run relation describes every use a client can make
  of the allocator, and the properties hold along all runs.
\<close>

subsection \<open>Allocations of a state\<close>

definition allocator_ok :: "addr \<Rightarrow> addr \<Rightarrow> StaticAllocator \<Rightarrow> bool" where
  "allocator_ok base lim h \<longleftrightarrow> (\<exists>ps fs. ainv base lim h ps fs)"

definition live :: "addr \<Rightarrow> addr \<Rightarrow> StaticAllocator \<Rightarrow> addr \<rightharpoonup> nat" where
  "live base lim h p =
     (if 40 \<le> p \<and> (\<exists>ps fs. ainv base lim h ps fs \<and> p - 40 \<in> allocd h ps) then Some (bsz h (p - 40)) else None)"

lemma seg_unique:
  "seg f g p xs None \<Longrightarrow> seg f g' p' ys None \<Longrightarrow> first xs None = first ys None \<Longrightarrow> xs = ys"
proof (induction xs arbitrary: p p' ys)
  case Nil
  then show ?case
    by (cases ys) auto
next
  case (Cons x xs)
  then obtain ys' where "ys = x # ys'"
    by (cases ys) auto
  then show ?case
    using Cons.prems Cons.IH [of "Some x" "Some x" ys'] by auto
qed

lemma phys_unique:
  assumes "phys base lim h ps" "phys base lim h ps'"
  shows "ps = ps'"
proof -
  have "first ps None = Some base" "first ps' None = Some base"
    using assms by (cases ps; cases ps'; auto simp: phys_def)+
  then show ?thesis
    using assms seg_unique [of "nx h" "pv h" None ps "pv h" None ps'] by (simp add: phys_def)
qed

lemma live_eq:
  assumes "ainv base lim h ps fs"
  shows "live base lim h p = (if 40 \<le> p \<and> p - 40 \<in> allocd h ps then Some (bsz h (p - 40)) else None)"
proof -
  have "ps' = ps" if "ainv base lim h ps' fs'" for ps' fs'
    using that assms phys_unique [of base lim h ps' ps] by (simp add: ainv_def)
  then have "(\<exists>ps' fs'. ainv base lim h ps' fs' \<and> p - 40 \<in> allocd h ps') \<longleftrightarrow> p - 40 \<in> allocd h ps"
    using assms by blast
  then show ?thesis
    by (simp add: live_def)
qed

lemma live_Some:
  assumes "ainv base lim h ps fs"
  shows "live base lim h p = Some n \<longleftrightarrow> 40 \<le> p \<and> p - 40 \<in> allocd h ps \<and> n = bsz h (p - 40)"
  by (auto simp: live_eq [OF assms])

lemma malloc_live:
  assumes "ainv base lim h ps fs" "ainv base lim h' ps' fs'" "malloc_effect h ps h' ps' b n"
  shows "live base lim h (b + 40) = None" "live base lim h' = (live base lim h)(b + 40 \<mapsto> bsz h' b)"
    "n \<le> bsz h' b" "bsz h' b \<le> n + 40"
proof -
  have e: "b \<notin> allocd h ps" "allocd h' ps' = insert b (allocd h ps)" "\<forall>a \<in> allocd h ps. bsz h' a = bsz h a"
    "n \<le> bsz h' b" "bsz h' b \<le> n + 40"
    using assms(3) by (auto simp: malloc_effect_def)
  show "live base lim h (b + 40) = None"
    using e by (simp add: live_eq [OF assms(1)])
  show "live base lim h' = (live base lim h)(b + 40 \<mapsto> bsz h' b)"
    using e by (auto simp: fun_eq_iff live_eq [OF assms(1)] live_eq [OF assms(2)])
  show "n \<le> bsz h' b" "bsz h' b \<le> n + 40"
    using e by auto
qed

lemma malloc_any:
  assumes "allocator_ok base lim h"
  obtains (none) "Malloc h s = Some (h, None)"
  | (some) h' p n where "Malloc h s = Some (h', Some p)" "allocator_ok base lim h'" "live base lim h p = None"
      "live base lim h' = (live base lim h)(p \<mapsto> n)" "unat (round8 s) \<le> n" "n \<le> unat (round8 s) + 40"
proof -
  obtain ps fs where iv: "ainv base lim h ps fs"
    using assms(1) by (auto simp: allocator_ok_def)
  from Malloc_ok [OF iv, of s] show ?thesis
  proof
    assume "Malloc h s = Some (h, None) \<and> (s = 0 \<or> (\<forall>a \<in> set ps. isfree h a \<longrightarrow> bsz h a < unat (round8 s)))"
    then show ?thesis
      using none by simp
  next
    assume "\<exists>b h' ps' fs'. s \<noteq> 0 \<and> Malloc h s = Some (h', Some (b + 40)) \<and> ainv base lim h' ps' fs' \<and>
       malloc_effect h ps h' ps' b (unat (round8 s))"
    then obtain b h' ps' fs' where m: "Malloc h s = Some (h', Some (b + 40))" "ainv base lim h' ps' fs'"
      "malloc_effect h ps h' ps' b (unat (round8 s))"
      by blast
    note e = malloc_live [OF iv m(2,3)]
    have "allocator_ok base lim h'"
      using m(2) by (auto simp: allocator_ok_def)
    then show ?thesis
      using some [OF m(1) _ e(1,2)] e(3,4) by simp
  qed
qed

lemma malloc_spec:
  assumes "allocator_ok base lim h" "unat s + 7 < 2 ^ 64"
  obtains (none) "Malloc h s = Some (h, None)"
  | (some) h' p n where "Malloc h s = Some (h', Some p)" "allocator_ok base lim h'" "live base lim h p = None"
      "live base lim h' = (live base lim h)(p \<mapsto> n)" "unat s \<le> n" "n < unat s + 48"
proof -
  have r: "unat s \<le> unat (round8 s)" "unat (round8 s) \<le> unat s + 7"
    using assms(2) by (auto simp: round8_eq)
  show ?thesis
    by (cases rule: malloc_any [OF assms(1), of s]) (use none some r in auto)
qed

lemma free_spec:
  assumes "allocator_ok base lim h" "live base lim h p = Some n"
  obtains h' where "Free h (Some p) = Some (h', True)" "allocator_ok base lim h'"
    "live base lim h' = (live base lim h)(p := None)"
proof -
  obtain ps fs where iv: "ainv base lim h ps fs"
    using assms(1) by (auto simp: allocator_ok_def)
  have p: "40 \<le> p" "p - 40 \<in> allocd h ps"
    using assms(2) by (auto simp: live_Some [OF iv])
  obtain h' ps' fs' where f: "Free h (Some (p - 40 + 40)) = Some (h', True)" "ainv base lim h' ps' fs'"
    "allocd h' ps' = allocd h ps - {p - 40}" "\<forall>a \<in> allocd h ps - {p - 40}. bsz h' a = bsz h a"
    using Free_ok [OF iv p(2)] by blast
  have "live base lim h' = (live base lim h)(p := None)"
    using f(3,4) p(1) by (auto simp: fun_eq_iff live_eq [OF iv] live_eq [OF f(2)])
  then show ?thesis
    using that f(1,2) p(1) by (auto simp: allocator_ok_def)
qed

lemma live_disjoint:
  assumes "allocator_ok base lim h" "live base lim h p = Some n" "live base lim h q = Some k" "p < q"
  shows "p + n + 40 \<le> q"
proof -
  obtain ps fs where iv: "ainv base lim h ps fs"
    using assms(1) by (auto simp: allocator_ok_def)
  have "p - 40 \<in> set ps" "q - 40 \<in> set ps" "40 \<le> p" "40 \<le> q" "n = bsz h (p - 40)"
    using assms(2,3) by (auto simp: live_Some [OF iv] allocd_def)
  moreover have "tiles (bsz h) base ps lim" "p - 40 < q - 40"
    using iv assms(4) calculation(3) by (auto simp: ainv_def phys_def)
  ultimately show ?thesis
    using tiles_apart [of "bsz h" base ps lim "p - 40" "q - 40"] by linarith
qed

lemma live_bounds:
  assumes "allocator_ok base lim h" "live base lim h p = Some n"
  shows "base + 40 \<le> p" "p + n \<le> lim" "lim < 2 ^ 63"
proof -
  obtain ps fs where iv: "ainv base lim h ps fs"
    using assms(1) by (auto simp: allocator_ok_def)
  then have b: "p - 40 \<in> set ps" "40 \<le> p" "n = bsz h (p - 40)" and t: "tiles (bsz h) base ps lim" "lim < 2 ^ 63"
    using assms(2) by (auto simp: live_Some [OF iv] allocd_def ainv_def phys_def)
  then have "base \<le> p - 40" "p - 40 + 40 + bsz h (p - 40) \<le> lim"
    using tiles_bounds [OF t(1)] by auto
  then show "base + 40 \<le> p" "p + n \<le> lim" "lim < 2 ^ 63"
    using b t(2) by auto
qed

lemma live_dom:
  assumes "ainv base lim h ps fs"
  shows "dom (live base lim h) = (\<lambda>a. a + 40) ` allocd h ps" "finite (dom (live base lim h))"
proof -
  have "p \<in> (\<lambda>a. a + 40) ` A \<longleftrightarrow> 40 \<le> p \<and> p - 40 \<in> A" for p and A :: "addr set"
    by force
  then show d: "dom (live base lim h) = (\<lambda>a. a + 40) ` allocd h ps"
    by (auto simp: dom_def live_eq [OF assms] split: if_splits)
  show "finite (dom (live base lim h))"
    unfolding d by (simp add: allocd_def)
qed

text \<open>The byte counter is the header of the allocator plus every allocation with its header.\<close>

lemma alloc_size_live:
  assumes "allocator_ok base lim h"
  shows "unat (GetAllocSize h) = 24 + (\<Sum>p \<in> dom (live base lim h). 40 + the (live base lim h p))"
proof -
  obtain ps fs where iv: "ainv base lim h ps fs"
    using assms(1) by (auto simp: allocator_ok_def)
  have d: "distinct ps"
    using iv phys_distinct by (auto simp: ainv_def)
  have "used h ps = (\<Sum>a \<in> set ps. if isfree h a then 0 else 40 + bsz h a)"
    using d by (simp add: used_def sum_list_distinct_conv_sum_set)
  also have "\<dots> = (\<Sum>a \<in> allocd h ps. 40 + bsz h a)"
    by (rule sum.mono_neutral_cong_right) (auto simp: allocd_def)
  also have "\<dots> = (\<Sum>p \<in> (\<lambda>a. a + 40) ` allocd h ps. 40 + the (live base lim h p))"
    by (subst sum.reindex) (auto simp: inj_on_def live_eq [OF iv])
  finally show ?thesis
    using iv by (simp add: live_dom [OF iv] GetAllocSize_def ainv_def)
qed

text \<open>Without allocations there is one block, the whole region: freed neighbours were merged.\<close>

lemma all_free_single:
  assumes "ainv base lim h ps fs" "live base lim h = Map.empty"
  shows "ps = [base]" "isfree h base" "bsz h base = lim - base - 40" "base + 40 \<le> lim"
proof -
  have "allocd h ps = {}"
    using live_dom(1) [OF assms(1)] assms(2) by simp
  then have f: "\<forall>a \<in> set ps. isfree h a"
    by (auto simp: allocd_def)
  have s: "sep (isfree h) ps" "tiles (bsz h) base ps lim" "ps \<noteq> []"
    using assms(1) by (auto simp: ainv_def phys_def)
  then obtain b where "ps = [b]"
    using f by (cases "(isfree h, ps)" rule: sep.cases) auto
  then show "ps = [base]" "isfree h base" "bsz h base = lim - base - 40" "base + 40 \<le> lim"
    using s f by auto
qed

subsection \<open>Runs\<close>

text \<open>The states a client can bring an allocator over the region \<open>[m, m + s)\<close> into, with the
  outstanding allocations and the sizes asked for. Any size may be asked for; a client frees what it was
  given, once.\<close>

inductive alloc_run :: "addr \<Rightarrow> u64 \<Rightarrow> StaticAllocator \<Rightarrow> (addr \<rightharpoonup> u64) \<Rightarrow> bool" for m s where
  start: "NewStaticAllocator (Some m) s = Some h \<Longrightarrow> alloc_run m s h Map.empty"
| refuse: "alloc_run m s h L \<Longrightarrow> Malloc h n = Some (h', None) \<Longrightarrow> alloc_run m s h' L"
| alloc: "alloc_run m s h L \<Longrightarrow> Malloc h n = Some (h', Some p) \<Longrightarrow> alloc_run m s h' (L(p \<mapsto> n))"
| release: "alloc_run m s h L \<Longrightarrow> L p \<noteq> None \<Longrightarrow> Free h (Some p) = Some (h', r) \<Longrightarrow> alloc_run m s h' (L(p := None))"

lemma alloc_run_inv:
  assumes "alloc_run m s h L" "m + unat s < 2 ^ 63"
  shows "allocator_ok (m + 24) (m + unat s) h \<and> dom L = dom (live (m + 24) (m + unat s) h) \<and>
    (\<forall>p n. L p = Some n \<longrightarrow> (\<exists>k \<ge> unat (round8 n). live (m + 24) (m + unat s) h p = Some k))"
  using assms(1)
proof induction
  case (start h)
  note n = New_ok [OF start assms(2)]
  have "live (m + 24) (m + unat s) h = Map.empty"
    using live_dom(1) [OF n(1)] n(2) by simp
  then show ?case
    using n(1) by (auto simp: allocator_ok_def)
next
  case (refuse h L n h')
  then have "allocator_ok (m + 24) (m + unat s) h"
    by blast
  from malloc_any [OF this, of n] refuse.hyps(2) have "h' = h"
    by (metis Pair_inject option.inject option.distinct(1))
  then show ?case
    using refuse.IH by simp
next
  case (alloc h L n h' p)
  then have "allocator_ok (m + 24) (m + unat s) h"
    by blast
  from malloc_any [OF this, of n] alloc.hyps(2) obtain k where k: "allocator_ok (m + 24) (m + unat s) h'"
    "live (m + 24) (m + unat s) h' = (live (m + 24) (m + unat s) h)(p \<mapsto> k)" "unat (round8 n) \<le> k"
    by (metis Pair_inject option.inject option.distinct(1))
  moreover have "dom (L(p \<mapsto> n)) = dom (live (m + 24) (m + unat s) h')"
    unfolding k(2) using alloc.IH by (simp only: dom_fun_upd simp_thms option.simps if_False)
  moreover have "\<exists>k \<ge> unat (round8 j). live (m + 24) (m + unat s) h' q = Some k" if "(L(p \<mapsto> n)) q = Some j" for q j
    using that k(3) alloc.IH unfolding k(2) by (cases "q = p") auto
  ultimately show ?case
    by blast
next
  case (release h L p h' r)
  then obtain k where ok: "allocator_ok (m + 24) (m + unat s) h" "live (m + 24) (m + unat s) h p = Some k"
    by blast
  from free_spec [OF this] release.hyps(3) have k: "allocator_ok (m + 24) (m + unat s) h'"
    "live (m + 24) (m + unat s) h' = (live (m + 24) (m + unat s) h)(p := None)"
    by (metis Pair_inject option.inject)+
  moreover have "dom (L(p := None)) = dom (live (m + 24) (m + unat s) h')"
    unfolding k(2) using release.IH by (simp only: dom_fun_upd simp_thms if_True)
  moreover have "\<exists>k \<ge> unat (round8 j). live (m + 24) (m + unat s) h' q = Some k" if "(L(p := None)) q = Some j" for q j
    using that release.IH unfolding k(2) by (cases "q = p") auto
  ultimately show ?case
    by blast
qed

lemma empty_run_malloc:
  assumes "alloc_run m s h Map.empty" "m + unat s < 2 ^ 63" "n \<noteq> 0" "(unat n + 7) div 8 * 8 + 64 \<le> unat s"
  shows "\<exists>h' p. Malloc h n = Some (h', Some p)"
proof -
  obtain ps fs where iv: "ainv (m + 24) (m + unat s) h ps fs" and l: "live (m + 24) (m + unat s) h = Map.empty"
    using alloc_run_inv [OF assms(1,2)] by (auto simp: allocator_ok_def)
  note f = all_free_single [OF iv l]
  have "unat n \<le> unat s"
    using assms(4) by presburger
  then have "unat n + 7 < 2 ^ 64"
    using assms(2) by simp
  then have "\<not> (\<forall>a \<in> set ps. isfree h a \<longrightarrow> bsz h a < unat (round8 n))"
    using f assms(4) by (simp add: round8_eq)
  then show ?thesis
    using Malloc_ok [OF iv, of n] assms(3) by blast
qed

subsection \<open>Properties\<close>


text \<open>C3: The allocator never gets stuck: in every reachable state of a region that ends below \<open>2\<^sup>6\<^sup>3\<close>, a request of
  any size ends with an answer, and freeing any live allocation succeeds.\<close>

theorem allocator_progress:
  assumes "alloc_run m s h L" "m + unat s < 2 ^ 63"
  shows "(\<forall>n. \<exists>h' r. Malloc h n = Some (h', r)) \<and> (\<forall>p. L p \<noteq> None \<longrightarrow> (\<exists>h'. Free h (Some p) = Some (h', True)))"
proof -
  note iv = alloc_run_inv [OF assms(1,2)]
  then have ok: "allocator_ok (m + 24) (m + unat s) h"
    by blast
  have "\<exists>h' r. Malloc h n = Some (h', r)" for n
    by (cases rule: malloc_any [OF ok, of n]) auto
  moreover have "\<exists>h'. Free h (Some p) = Some (h', True)" if p: "L p \<noteq> None" for p
  proof -
    obtain n where "L p = Some n"
      using p by blast
    then obtain k where l: "live (m + 24) (m + unat s) h p = Some k"
      using iv by blast
    show ?thesis
      using free_spec [OF ok l] by blast
  qed
  ultimately show ?thesis
    by blast
qed

text \<open>C2: Fragmentation is undone: whenever a client has freed everything it allocated, in
  whatever order, the byte counter is back at the allocator's own header and the whole
  region, which ends below \<open>2\<^sup>6\<^sup>3\<close>, can be handed out again in one piece.\<close>

theorem allocator_coalesces:
  assumes "alloc_run m s h Map.empty" "m + unat s < 2 ^ 63"
  shows "unat (GetAllocSize h) = 24 \<and>
    (\<forall>n. n \<noteq> 0 \<and> (unat n + 7) div 8 * 8 + 64 \<le> unat s \<longrightarrow> (\<exists>h' p. Malloc h n = Some (h', Some p)))"
proof -
  have "allocator_ok (m + 24) (m + unat s) h" "dom (live (m + 24) (m + unat s) h) = {}"
    using alloc_run_inv [OF assms] by auto
  then have "unat (GetAllocSize h) = 24"
    using alloc_size_live by simp
  then show ?thesis
    using empty_run_malloc [OF assms] by blast
qed

text \<open>A concrete run: two allocations out of a region of 1024 bytes at address 4096.\<close>

definition run0 :: StaticAllocator where
  "run0 = the (NewStaticAllocator (Some 4096) 1024)"

definition run1 :: StaticAllocator where
  "run1 = fst (the (Malloc run0 100))"

definition run2 :: StaticAllocator where
  "run2 = fst (the (Malloc run1 8))"

lemma the_result: "map_option snd x = Some r \<Longrightarrow> x = Some (fst (the x), r)"
  by (cases x) auto

lemma run0: "NewStaticAllocator (Some 4096) 1024 = Some run0"
  by (simp add: run0_def NewStaticAllocator_def headerSize_def blockSize_def word_less_nat_alt)

lemmas alloc_eval = run0_def NewStaticAllocator_def headerSize_def blockSize_def word_less_nat_alt Malloc_def
  round8_def malloc_from.simps rd_def setFree_def setSize_def size_mask_def getSize_def take_block_def split_block_def
  upd_def as_block_def upd_opt_def insertFreeBlock_def removeFreeBlock_def raw_block_def getFree_def

lemma run1: "Malloc run0 100 = Some (run1, Some 4160)"
  unfolding run1_def by (rule the_result) (simp add: alloc_eval)

lemma run2: "Malloc run1 8 = Some (run2, Some 4304)"
  unfolding run2_def run1_def by (rule the_result) (simp add: alloc_eval)

lemma run2_run: "alloc_run 4096 1024 run2 [4160 \<mapsto> 100, 4304 \<mapsto> 8]"
  using alloc_run.alloc [OF alloc_run.alloc [OF alloc_run.start [OF run0] run1] run2] by simp


theorem allocator_progress_witness:
  "(\<exists>h' r. Malloc run2 5000 = Some (h', r)) \<and> (\<exists>h' r. Malloc run2 (-1) = Some (h', r)) \<and>
   (\<exists>h'. Free run2 (Some 4160) = Some (h', True))"
  using allocator_progress [OF run2_run] by simp

text \<open>The two allocations freed in the order they were made.\<close>

definition run3 :: StaticAllocator where
  "run3 = fst (the (Free run2 (Some 4160)))"

definition run4 :: StaticAllocator where
  "run4 = fst (the (Free run3 (Some 4304)))"

lemma freed_once:
  assumes "alloc_run 4096 1024 h L" "L p \<noteq> None"
  shows "Free h (Some p) = Some (fst (the (Free h (Some p))), True)"
proof -
  have m: "4096 + unat (1024 :: u64) < 2 ^ 63"
    by simp
  obtain n where "L p = Some n"
    using assms(2) by blast
  then obtain k where k: "allocator_ok (4096 + 24) (4096 + unat (1024 :: u64)) h" "live (4096 + 24) (4096 + unat (1024 :: u64)) h p = Some k"
    using alloc_run_inv [OF assms(1) m] by blast
  show ?thesis
    by (rule free_spec [OF k]) simp
qed

lemma run3: "Free run2 (Some 4160) = Some (run3, True)"
  unfolding run3_def by (rule freed_once [OF run2_run]) simp

lemma run3_run: "alloc_run 4096 1024 run3 [4304 \<mapsto> 8]"
  using alloc_run.release [OF run2_run _ run3] by (simp add: fun_upd_twist)

lemma run4: "Free run3 (Some 4304) = Some (run4, True)"
  unfolding run4_def by (rule freed_once [OF run3_run]) simp

lemma run4_run: "alloc_run 4096 1024 run4 Map.empty"
  using alloc_run.release [OF run3_run _ run4] by simp

theorem allocator_coalesces_witness:
  "Malloc run0 100 = Some (run1, Some 4160) \<and> Malloc run1 8 = Some (run2, Some 4304) \<and>
   Free run2 (Some 4160) = Some (run3, True) \<and> Free run3 (Some 4304) = Some (run4, True) \<and>
   unat (GetAllocSize run4) = 24 \<and> (\<exists>h' p. Malloc run4 960 = Some (h', Some p))"
  using allocator_coalesces [OF run4_run] run1 run2 run3 run4 by simp

end
