(* ===== verification/Allocator.thy ===== *)
theory Allocator
  imports Halo_Prelude
begin

text \<open>
  The allocator interface the containers use, \<^verbatim>\<open>src/mem/mem.go\<close>: \<^verbatim>\<open>Allocator\<close> with its typed
  wrappers. An allocator is a state with two operations; the state is passed explicitly.
  The locale states what the containers rely on: an allocation is new and large enough,
  freeing an allocation removes it, and nothing else changes. The pointer arithmetic
  helpers are here as well, with their 64-bit wrap-around.
\<close>

type_synonym ptr = nat

record 's allocator_ops =
  op_Malloc :: "'s \<Rightarrow> u64 \<Rightarrow> 's \<times> ptr option"
  op_Free :: "'s \<Rightarrow> ptr option \<Rightarrow> 's \<times> bool"

text \<open>\<^verbatim>\<open>MallocType\<close> and \<^verbatim>\<open>FreeType\<close> with the element size as an argument and the panic switch off,
  its default.\<close>

definition MallocType :: "'s allocator_ops \<Rightarrow> u64 \<Rightarrow> 's \<Rightarrow> u64 \<Rightarrow> 's \<times> ptr option" where
  "MallocType ops SizeOf s n = op_Malloc ops s (n * SizeOf)"

definition FreeType :: "'s allocator_ops \<Rightarrow> 's \<Rightarrow> ptr option \<Rightarrow> 's \<times> bool" where
  "FreeType ops s t = op_Free ops s t"

text \<open>Pointer offsets, on the 64-bit address and the signed 64-bit offset.\<close>

definition Offset :: "u64 \<Rightarrow> u64 \<Rightarrow> u64" where
  "Offset p off =
     (if sint off > 0 then p + off else if sint off < 0 then p - (- off) else p)"

definition OffsetType :: "u64 \<Rightarrow> u64 \<Rightarrow> u64 \<Rightarrow> u64" where
  "OffsetType SizeOf t off = Offset t (off * SizeOf)"

lemma Offset_add: "Offset p off = p + off"
proof -
  have "off = 0" if "sint off = 0"
    using that by (intro signed_word_eqI) simp
  then show ?thesis
    by (auto simp: Offset_def not_less)
qed

lemma OffsetType_add: "OffsetType sz (OffsetType sz t i) j = OffsetType sz t (i + j)"
  by (simp add: OffsetType_def Offset_add algebra_simps)

locale allocator =
  fixes ops :: "'s allocator_ops"
    and ok :: "'s \<Rightarrow> bool"
    and live :: "'s \<Rightarrow> ptr \<rightharpoonup> nat"
  assumes malloc_None: "ok s \<Longrightarrow> unat n + 7 < 2 ^ 64 \<Longrightarrow> op_Malloc ops s n = (s', None) \<Longrightarrow>
      ok s' \<and> live s' = live s"
    and malloc_Some: "ok s \<Longrightarrow> unat n + 7 < 2 ^ 64 \<Longrightarrow> op_Malloc ops s n = (s', Some p) \<Longrightarrow>
      ok s' \<and> live s p = None \<and> (\<exists>k \<ge> unat n. live s' = (live s)(p \<mapsto> k))"
    and free_live: "ok s \<Longrightarrow> live s p \<noteq> None \<Longrightarrow> op_Free ops s (Some p) = (s', r) \<Longrightarrow>
      r \<and> ok s' \<and> live s' = (live s)(p := None)"
    and live_bound: "ok s \<Longrightarrow> live s p = Some k \<Longrightarrow> k + 8 < 2 ^ 63"
begin

lemma malloc_cases [consumes 2, case_names none some]:
  assumes "ok s" "unat n + 7 < 2 ^ 64"
  obtains (none) s' where "op_Malloc ops s n = (s', None)" "ok s'" "live s' = live s"
  | (some) s' p k where "op_Malloc ops s n = (s', Some p)" "ok s'" "live s p = None" "unat n \<le> k"
      "live s' = (live s)(p \<mapsto> k)"
proof (cases "op_Malloc ops s n")
  case (Pair s' r)
  then show ?thesis
  proof (cases r)
    case None
    then show ?thesis
      using malloc_None [OF assms] none Pair by auto
  next
    case (Some p)
    then show ?thesis
      using malloc_Some [OF assms] some Pair by blast
  qed
qed

lemma malloc_keeps:
  assumes "ok s" "unat n + 7 < 2 ^ 64" "op_Malloc ops s n = (s', r)" "live s q = Some k"
  shows "live s' q = Some k" "r \<noteq> Some q"
  using assms(1,2) by (cases rule: malloc_cases, use assms(3,4) in auto)+

lemma free_malloc_inverse:
  assumes "ok s" "unat n + 7 < 2 ^ 64" "op_Malloc ops s n = (s1, Some p)" "op_Free ops s1 (Some p) = (s2, r)"
  shows "r" "ok s2" "live s2 = live s"
proof -
  have m: "ok s1" "live s p = None" "\<exists>k \<ge> unat n. live s1 = (live s)(p \<mapsto> k)"
    using malloc_Some [OF assms(1-3)] by auto
  then have "live s1 p \<noteq> None"
    by auto
  then have f: "r \<and> ok s2 \<and> live s2 = (live s1)(p := None)"
    using free_live [OF m(1) _ assms(4)] by blast
  then show r "ok s2"
    by auto
  show "live s2 = live s"
    using f m by auto
qed

end

end
