(* ===== verification/Array_List.thy ===== *)
theory Array_List
  imports Allocator
begin

text \<open>
  The growable array over a custom allocator, \<^verbatim>\<open>src/list/array_list.go\<close>. The record has the
  pointers the code keeps, and the contents of the storage behind the data pointer as a
  list of the capacity's length; fresh storage holds arbitrary values (\<open>raw\<close>). Indexes are
  Go ints and may be negative. The allocator state is passed through every operation that
  allocates or frees. The lemmas show that the array is the list of its first elements:
  every operation acts on that list, also when an allocation fails, and stays inside the
  storage it owns.
\<close>

definition initCap :: int where "initCap = 8"

definition arrayListSize :: u64 where "arrayListSize = 40"

record 'a ArrayList =
  al_self :: ptr
  al_data :: ptr
  al_mem :: "'a list"
  al_len :: nat
  al_cap :: nat

definition NewArrayListWithCap ::
    "'s allocator_ops \<Rightarrow> u64 \<Rightarrow> (nat \<Rightarrow> 'a) \<Rightarrow> 's \<Rightarrow> int \<Rightarrow> 's \<times> 'a ArrayList option" where
  "NewArrayListWithCap ops SizeOf raw s cap =
     (let cap = (if cap < initCap then initCap else cap) in
      case MallocType ops arrayListSize s 1 of
        (s, None) \<Rightarrow> (s, None)
      | (s, Some a) \<Rightarrow>
          (case MallocType ops SizeOf s (of_int cap) of
             (s, None) \<Rightarrow> (fst (FreeType ops s (Some a)), None)
           | (s, Some d) \<Rightarrow>
               (s, Some \<lparr>al_self = a, al_data = d, al_mem = map raw [0..<nat cap], al_len = 0, al_cap = nat cap\<rparr>)))"

definition NewArrayList ::
    "'s allocator_ops \<Rightarrow> u64 \<Rightarrow> (nat \<Rightarrow> 'a) \<Rightarrow> 's \<Rightarrow> 's \<times> 'a ArrayList option" where
  "NewArrayList ops SizeOf raw s = NewArrayListWithCap ops SizeOf raw s initCap"

definition al_Len :: "'a ArrayList \<Rightarrow> nat" where
  "al_Len a = al_len a"

definition al_Add ::
    "'s allocator_ops \<Rightarrow> u64 \<Rightarrow> (nat \<Rightarrow> 'a) \<Rightarrow> 's \<Rightarrow> 'a ArrayList \<Rightarrow> 'a \<Rightarrow> 's \<times> 'a ArrayList \<times> bool" where
  "al_Add ops SizeOf raw s a value =
     (let store = (\<lambda>a. a\<lparr>al_mem := (al_mem a)[al_len a := value], al_len := al_len a + 1\<rparr>) in
      if al_cap a \<le> al_len a then
        (case MallocType ops SizeOf s (of_nat (al_cap a * 2)) of
           (s, None) \<Rightarrow> (s, a, False)
         | (s, Some d) \<Rightarrow>
             let mem = go_copy (map raw [0..<al_cap a * 2]) 0 (take (al_cap a) (al_mem a));
                 s = fst (FreeType ops s (Some (al_data a)))
             in (s, store (a\<lparr>al_data := d, al_mem := mem, al_cap := al_cap a * 2\<rparr>), True))
      else (s, store a, True))"

definition al_Set :: "'a ArrayList \<Rightarrow> int \<Rightarrow> 'a \<Rightarrow> 'a ArrayList" where
  "al_Set a index value =
     (if index < 0 \<or> int (al_len a) \<le> index then a
      else a\<lparr>al_mem := (al_mem a)[nat index := value]\<rparr>)"

text \<open>Out of range, the zero value of the element type.\<close>

definition al_Get :: "'a \<Rightarrow> 'a ArrayList \<Rightarrow> int \<Rightarrow> 'a" where
  "al_Get zero a index =
     (if index < 0 \<or> int (al_len a) \<le> index then zero else al_mem a ! nat index)"

text \<open>The move copies the elements behind the index one place down.\<close>

definition al_Del :: "'a ArrayList \<Rightarrow> int \<Rightarrow> 'a ArrayList" where
  "al_Del a index =
     (if index < 0 \<or> int (al_len a) \<le> index then a
      else
        let i = nat index in
        a\<lparr>al_mem := go_copy (al_mem a) i (go_slice (al_mem a) (i + 1) (i + 1 + (al_len a - i - 1))),
          al_len := al_len a - 1\<rparr>)"

text \<open>The loop of \<^verbatim>\<open>For\<close>, with the state the callback changes.\<close>

function al_for_from :: "'a \<Rightarrow> 'a ArrayList \<Rightarrow> (nat \<Rightarrow> 'a \<Rightarrow> 'st \<Rightarrow> 'st \<times> bool) \<Rightarrow> nat \<Rightarrow> 'st \<Rightarrow> 'st" where
  "al_for_from zero a fn index st =
     (if \<not> index < al_len a then st
      else
        let (st', nxt) = fn index (al_Get zero a (int index)) st
        in if \<not> nxt then st' else al_for_from zero a fn (index + 1) st')"
  by pat_completeness auto

termination al_for_from
  by (relation "measure (\<lambda>(z, a, f, i, s). al_len a - i)") auto

declare al_for_from.simps [simp del]

definition al_For :: "'a \<Rightarrow> 'a ArrayList \<Rightarrow> (nat \<Rightarrow> 'a \<Rightarrow> 'st \<Rightarrow> 'st \<times> bool) \<Rightarrow> 'st \<Rightarrow> 'st" where
  "al_For zero a fn st = al_for_from zero a fn 0 st"

definition al_Free :: "'s allocator_ops \<Rightarrow> 's \<Rightarrow> 'a ArrayList \<Rightarrow> 's" where
  "al_Free ops s a =
     (let s = fst (FreeType ops s (Some (al_data a)))
      in fst (FreeType ops s (Some (al_self a))))"

subsection \<open>The list an array stands for\<close>

definition al_abs :: "'a ArrayList \<Rightarrow> 'a list" where
  "al_abs a = take (al_len a) (al_mem a)"

text \<open>The part of the invariant that does not mention the allocator.\<close>

definition al_wf :: "'a ArrayList \<Rightarrow> bool" where
  "al_wf a \<longleftrightarrow> length (al_mem a) = al_cap a \<and> al_len a \<le> al_cap a \<and> 8 \<le> al_cap a \<and> al_self a \<noteq> al_data a"

lemma length_al_abs [simp]: "al_wf a \<Longrightarrow> length (al_abs a) = al_len a"
  by (simp add: al_wf_def al_abs_def)

lemma al_Get_abs:
  "al_wf a \<Longrightarrow> al_Get zero a i = (if 0 \<le> i \<and> nat i < length (al_abs a) then al_abs a ! nat i else zero)"
  by (auto simp: al_Get_def al_abs_def al_wf_def)

lemma al_Set_abs:
  "al_wf a \<Longrightarrow> al_abs (al_Set a i v) = (if 0 \<le> i then (al_abs a)[nat i := v] else al_abs a)"
  by (auto simp: al_Set_def al_abs_def take_update_swap list_update_beyond)

lemma al_Set_fields [simp]:
  "al_self (al_Set a i v) = al_self a" "al_data (al_Set a i v) = al_data a" "al_len (al_Set a i v) = al_len a"
  "al_cap (al_Set a i v) = al_cap a" "al_wf (al_Set a i v) = al_wf a"
  by (auto simp: al_Set_def al_wf_def)

lemma al_Del_abs:
  assumes "al_wf a" "0 \<le> i" "nat i < al_len a"
  shows "al_abs (al_Del a i) = take (nat i) (al_abs a) @ drop (nat i + 1) (al_abs a)"
proof -
  have w: "length (al_mem a) = al_cap a" "al_len a \<le> al_cap a" and ni: "\<not> (i < 0 \<or> int (al_len a) \<le> i)"
    using assms by (auto simp: al_wf_def)
  let ?d = "go_copy (al_mem a) (nat i) (go_slice (al_mem a) (nat i + 1) (nat i + 1 + (al_len a - nat i - 1)))"
  have d: "al_abs (al_Del a i) = take (al_len a - 1) ?d"
    unfolding al_Del_def if_not_P [OF ni] by (simp add: al_abs_def Let_def)
  show ?thesis
    unfolding d
  proof (rule nth_equalityI)
    fix k
    assume "k < length (take (al_len a - 1) ?d)"
    then have "k < al_len a - 1"
      by simp
    then show "take (al_len a - 1) ?d ! k = (take (nat i) (al_abs a) @ drop (nat i + 1) (al_abs a)) ! k"
      using assms(3) w by (auto simp: al_abs_def nth_go_copy length_go_slice nth_append nth_go_slice)
  qed (use assms(3) w in \<open>auto simp: al_abs_def\<close>)
qed

lemma al_Del_out: "al_wf a \<Longrightarrow> i < 0 \<or> int (al_len a) \<le> i \<Longrightarrow> al_Del a i = a"
  by (auto simp: al_Del_def)

text \<open>The loop visits the elements in order until the callback stops it.\<close>

fun list_for :: "(nat \<Rightarrow> 'a \<Rightarrow> 'st \<Rightarrow> 'st \<times> bool) \<Rightarrow> nat \<Rightarrow> 'a list \<Rightarrow> 'st \<Rightarrow> 'st" where
  "list_for fn i [] st = st"
| "list_for fn i (x # xs) st = (let (st', nxt) = fn i x st in if nxt then list_for fn (i + 1) xs st' else st')"

lemma al_for_from_abs:
  "al_wf a \<Longrightarrow> al_for_from zero a fn i st = list_for fn i (drop i (al_abs a)) st"
proof (induction zero a fn i st rule: al_for_from.induct)
  case (1 zero a fn i st)
  show ?case
  proof (cases "i < al_len a")
    case True
    then have "drop i (al_abs a) = al_Get zero a (int i) # drop (i + 1) (al_abs a)"
      using 1(2) by (simp add: al_Get_abs Cons_nth_drop_Suc)
    then show ?thesis
      using 1 True by (subst al_for_from.simps) (auto split: prod.splits)
  next
    case False
    then show ?thesis
      using 1(2) by (subst al_for_from.simps) simp
  qed
qed

lemma al_For_abs: "al_wf a \<Longrightarrow> al_For zero a fn st = list_for fn 0 (al_abs a) st"
  by (simp add: al_For_def al_for_from_abs)

subsection \<open>Storage\<close>

definition al_ptrs :: "'a ArrayList \<Rightarrow> ptr set" where
  "al_ptrs a = {al_self a, al_data a}"

text \<open>The array's two allocations, the storage large enough for the capacity.\<close>

definition al_owns :: "(ptr \<rightharpoonup> nat) \<Rightarrow> nat \<Rightarrow> 'a ArrayList \<Rightarrow> bool" where
  "al_owns L esz a \<longleftrightarrow> al_wf a \<and> (\<exists>k. L (al_data a) = Some k \<and> al_cap a * esz \<le> k) \<and> L (al_self a) \<noteq> None"

lemma al_owns_cong:
  "al_owns L esz a \<Longrightarrow> (\<And>p. p \<in> al_ptrs a \<Longrightarrow> L' p = L p) \<Longrightarrow> al_owns L' esz a"
  by (auto simp: al_owns_def al_ptrs_def)

lemma al_Set_owns [simp]:
  "al_owns L esz (al_Set a i v) = al_owns L esz a" "al_ptrs (al_Set a i v) = al_ptrs a"
  by (auto simp: al_owns_def al_ptrs_def)

lemma unat_scaled:
  assumes "n * unat (sz :: u64) < 2 ^ 64"
  shows "unat (of_nat n * sz) = n * unat sz"
proof -
  have "of_nat n * sz = (of_nat (n * unat sz) :: u64)"
    by simp
  then have "unat (of_nat n * sz) = unat (of_nat (n * unat sz) :: u64)"
    by (rule arg_cong)
  also have "\<dots> = n * unat sz"
    using assms by (simp only: unat_of_nat len_of_numeral_defs(1)) simp
  finally show ?thesis .
qed

text \<open>What creating an array does to the allocations: nothing when it fails, else two new ones.\<close>

definition al_new_post :: "(ptr \<rightharpoonup> nat) \<Rightarrow> (ptr \<rightharpoonup> nat) \<Rightarrow> nat \<Rightarrow> nat \<Rightarrow> 'a ArrayList option \<Rightarrow> bool" where
  "al_new_post L L' esz cap r =
     (case r of
        None \<Rightarrow> L' = L
      | Some a \<Rightarrow> al_owns L' esz a \<and> al_abs a = [] \<and> al_len a = 0 \<and> al_cap a = cap \<and>
          (\<forall>p \<in> al_ptrs a. L p = None) \<and> L' |` (- al_ptrs a) = L)"

context allocator
begin

lemma free_fst:
  assumes "ok s" "live s p \<noteq> None"
  shows "ok (fst (op_Free ops s (Some p)))" "live (fst (op_Free ops s (Some p))) = (live s)(p := None)"
    "snd (op_Free ops s (Some p))"
  using free_live [OF assms] by (metis prod.collapse)+

lemma al_New_ok:
  assumes "ok s" "nat (max 8 cap) * unat sz + 7 < 2 ^ 64" "NewArrayListWithCap ops sz raw s cap = (s', r)"
  shows "ok s' \<and> al_new_post (live s) (live s') (unat sz) (nat (max 8 cap)) r"
proof -
  let ?c = "if cap < initCap then initCap else cap"
  have c: "?c = max 8 cap" "of_int ?c = (of_nat (nat (max 8 cap)) :: u64)"
    by (auto simp: initCap_def)
  have u: "unat (of_int ?c * sz) = nat (max 8 cap) * unat sz"
    unfolding c(2) using assms(2) by (intro unat_scaled) simp
  have g: "unat (1 * arrayListSize) + 7 < 2 ^ 64" "unat (of_int ?c * sz) + 7 < 2 ^ 64"
    using assms(2) by (simp_all add: arrayListSize_def u)
  from assms(1) g(1) show ?thesis
  proof (cases rule: malloc_cases)
    case (none s1)
    then show ?thesis
      using assms(3) by (simp add: NewArrayListWithCap_def MallocType_def Let_def al_new_post_def)
  next
    case (some s1 p k)
    note m = some
    from m(2) g(2) show ?thesis
    proof (cases rule: malloc_cases)
      case (none s2)
      then have "live s2 p \<noteq> None"
        using m by simp
      moreover have "s' = fst (op_Free ops s2 (Some p))" "r = None"
        using assms(3) none(1) m(1) by (simp_all add: NewArrayListWithCap_def MallocType_def FreeType_def Let_def)
      moreover have "(live s2)(p := None) = live s"
        using none(3) m(3,5) by auto
      ultimately show ?thesis
        using free_fst [OF none(2), of p] by (simp add: al_new_post_def)
    next
      case (some s2 q l)
      have s': "s' = s2" and r: "r = Some \<lparr>al_self = p, al_data = q, al_mem = map raw [0..<nat ?c], al_len = 0,
          al_cap = nat ?c\<rparr>"
        using assms(3) some(1) m(1) by (simp_all add: NewArrayListWithCap_def MallocType_def Let_def)
      have "q \<noteq> p" "live s q = None"
        using some(3) m(5) by (auto split: if_splits)
      moreover have "live s2 = (live s)(p \<mapsto> k, q \<mapsto> l)" "nat (max 8 cap) * unat sz \<le> l"
        using some m u by auto
      ultimately show ?thesis
        using some(2) m(3) unfolding s' r c(1)
        by (auto simp: al_new_post_def al_owns_def al_wf_def al_ptrs_def al_abs_def restrict_map_def fun_eq_iff)
    qed
  qed
qed

lemma al_Add_ok:
  assumes "ok s" "al_owns (live s) (unat sz) a" "al_Add ops sz raw s a v = (s', a', r)"
  shows "ok s'" "al_owns (live s') (unat sz) a'" "al_self a' = al_self a"
    "live s' |` (- al_ptrs a') = live s |` (- al_ptrs a)"
    "r \<Longrightarrow> al_abs a' = al_abs a @ [v]" "\<not> r \<Longrightarrow> a' = a \<and> live s' = live s"
    "al_len a < al_cap a \<Longrightarrow> r \<and> s' = s \<and> al_cap a' = al_cap a \<and> al_data a' = al_data a"
proof -
  obtain k where k: "live s (al_data a) = Some k" "al_cap a * unat sz \<le> k" and w: "al_wf a" "live s (al_self a) \<noteq> None"
    using assms(2) by (auto simp: al_owns_def)
  have kb: "k + 8 < 2 ^ 63"
    using live_bound [OF assms(1) k(1)] .
  have wf: "length (al_mem a) = al_cap a" "al_len a \<le> al_cap a" "8 \<le> al_cap a" "al_self a \<noteq> al_data a"
    using w by (auto simp: al_wf_def)
  have "ok s' \<and> al_owns (live s') (unat sz) a' \<and> al_self a' = al_self a \<and>
    live s' |` (- al_ptrs a') = live s |` (- al_ptrs a) \<and> (r \<longrightarrow> al_abs a' = al_abs a @ [v]) \<and>
    (\<not> r \<longrightarrow> a' = a \<and> live s' = live s) \<and>
    (al_len a < al_cap a \<longrightarrow> r \<and> s' = s \<and> al_cap a' = al_cap a \<and> al_data a' = al_data a)"
  proof (cases "al_cap a \<le> al_len a")
    case False
    then show ?thesis
      using assms wf k w by (auto simp: al_Add_def al_owns_def al_wf_def al_ptrs_def al_abs_def take_Suc_conv_app_nth)
  next
    case True
    have "al_cap a * 2 * unat sz \<le> 2 * k"
      using k(2) by simp
    also have "\<dots> < 2 ^ 64 - 7"
      using kb by simp
    finally have u: "unat (of_nat (al_cap a * 2) * sz) = al_cap a * 2 * unat sz"
      "unat (of_nat (al_cap a * 2) * sz) + 7 < 2 ^ 64"
      using unat_scaled [of "al_cap a * 2" sz] by simp_all
    from assms(1) u(2) show ?thesis
    proof (cases rule: malloc_cases)
      case (none s1)
      then show ?thesis
        using assms(2,3) True by (simp add: al_Add_def MallocType_def Let_def)
    next
      case (some s1 d l)
      define s2 where "s2 = fst (op_Free ops s1 (Some (al_data a)))"
      have d: "d \<noteq> al_data a" "d \<noteq> al_self a"
        using some(3) k w by auto
      then have f: "ok s2" "live s2 = (live s)(d \<mapsto> l, al_data a := None)"
        using free_fst [OF some(2), of "al_data a"] some(5) k(1) by (simp_all add: s2_def)
      let ?m = "go_copy (map raw [0..<al_cap a * 2]) 0 (take (al_cap a) (al_mem a))"
      have m: "length ?m = al_cap a * 2" "take (al_len a) ?m = al_mem a"
        using wf True by (simp_all add: go_copy_def)
      have r: "s' = s2" "r" "a' = a\<lparr>al_data := d, al_cap := al_cap a * 2, al_mem := ?m[al_len a := v], al_len := al_len a + 1\<rparr>"
        using assms(3) some(1) True
        by (auto simp: al_Add_def MallocType_def FreeType_def Let_def s2_def)
      have "al_abs a' = al_abs a @ [v]"
        using wf True m by (simp add: r al_abs_def take_Suc_conv_app_nth)
      moreover have "al_owns (live s2) (unat sz) a'"
        using f d some(4) u(1) wf m(1) w by (auto simp: r al_owns_def al_wf_def)
      moreover have "live s2 |` (- al_ptrs a') = live s |` (- al_ptrs a)"
        using d f some(3) by (auto simp: r al_ptrs_def restrict_map_def fun_eq_iff)
      ultimately show ?thesis
        using f(1) r(1,2) True by (simp add: r(3))
    qed
  qed
  then show "ok s'" "al_owns (live s') (unat sz) a'" "al_self a' = al_self a"
    "live s' |` (- al_ptrs a') = live s |` (- al_ptrs a)"
    "r \<Longrightarrow> al_abs a' = al_abs a @ [v]" "\<not> r \<Longrightarrow> a' = a \<and> live s' = live s"
    "al_len a < al_cap a \<Longrightarrow> r \<and> s' = s \<and> al_cap a' = al_cap a \<and> al_data a' = al_data a"
    by auto
qed

lemma al_Free_ok:
  assumes "ok s" "al_owns (live s) esz a"
  shows "ok (al_Free ops s a)" "live (al_Free ops s a) = live s |` (- al_ptrs a)"
proof -
  have w: "live s (al_data a) \<noteq> None" "live s (al_self a) \<noteq> None" "al_self a \<noteq> al_data a"
    using assms(2) by (auto simp: al_owns_def al_wf_def)
  define s1 where "s1 = fst (op_Free ops s (Some (al_data a)))"
  have s1: "ok s1" "live s1 = (live s)(al_data a := None)"
    using free_fst [OF assms(1) w(1)] by (simp_all add: s1_def)
  have r: "al_Free ops s a = fst (op_Free ops s1 (Some (al_self a)))"
    by (simp add: al_Free_def FreeType_def s1_def)
  have "live s1 (al_self a) \<noteq> None"
    using w s1(2) by simp
  note f = free_fst [OF s1(1) this]
  show "ok (al_Free ops s a)"
    using f(1) by (simp add: r)
  show "live (al_Free ops s a) = live s |` (- al_ptrs a)"
    using f(2) w by (auto simp: r s1(2) al_ptrs_def restrict_map_def fun_eq_iff)
qed

end

end
