(* ===== verification/Hash_Map.thy ===== *)
theory Hash_Map
  imports Array_List Linked_Segments
begin

text \<open>
  The hash table over a custom allocator, \<^verbatim>\<open>src/hashmap/hashmap.go\<close>. Entries live in a store
  indexed by pointer and are doubly linked per bucket, as in the code; freeing an entry
  removes it from the store, so that a later access to it is undefined (\<^const>\<open>None\<close>), as is a
  chain walk that does not end. The state of an operation is the allocator's state with
  the store. The key's hash function and the entry size of the instance are arguments.
\<close>

record ('k, 'v) entry =
  e_key :: 'k
  e_value :: 'v
  e_front :: "ptr option"
  e_next :: "ptr option"

type_synonym ('k, 'v) store = "ptr \<rightharpoonup> ('k, 'v) entry"

record HashMap =
  hm_self :: ptr
  hm_bucket :: "ptr option ArrayList"
  hm_len :: nat

text \<open>The parameters of an instance.\<close>

record ('s, 'k) hm_env =
  env_ops :: "'s allocator_ops"
  env_hash :: "'k \<Rightarrow> u64"
  env_entrySize :: u64
  env_raw :: "nat \<Rightarrow> ptr option"

definition initBucketSize :: int where "initBucketSize = 8"
definition hashMapSize :: u64 where "hashMapSize = 32"
definition ptrSize :: u64 where "ptrSize = 8"

definition bucket_index :: "('s, 'k) hm_env \<Rightarrow> ptr option ArrayList \<Rightarrow> 'k \<Rightarrow> int" where
  "bucket_index env b key = int (unat (env_hash env key mod of_nat (al_Len b)))"

text \<open>Filling a fresh bucket array with nil.\<close>

primrec add_nils ::
    "('s, 'k) hm_env \<Rightarrow> nat \<Rightarrow> 's \<Rightarrow> ptr option ArrayList \<Rightarrow> 's \<times> ptr option ArrayList" where
  "add_nils env 0 s b = (s, b)"
| "add_nils env (Suc n) s b =
     (let (s, b, _) = al_Add (env_ops env) ptrSize (env_raw env) s b None in add_nils env n s b)"

definition NewHashMapWithCap :: "('s, 'k) hm_env \<Rightarrow> 's \<Rightarrow> int \<Rightarrow> 's \<times> HashMap option" where
  "NewHashMapWithCap env s cap =
     (let cap = (if cap < initBucketSize then initBucketSize else cap) in
      case MallocType (env_ops env) hashMapSize s 1 of
        (s, None) \<Rightarrow> (s, None)
      | (s, Some m) \<Rightarrow>
          (case NewArrayListWithCap (env_ops env) ptrSize (env_raw env) s cap of
             (s, None) \<Rightarrow> (fst (FreeType (env_ops env) s (Some m)), None)
           | (s, Some b) \<Rightarrow>
               let (s, b) = add_nils env (nat cap) s b
               in (s, Some \<lparr>hm_self = m, hm_bucket = b, hm_len = 0\<rparr>)))"

definition NewHashMap :: "('s, 'k) hm_env \<Rightarrow> 's \<Rightarrow> 's \<times> HashMap option" where
  "NewHashMap env s = NewHashMapWithCap env s initBucketSize"

text \<open>The walk along a chain: the entry with the key, or else the last entry.\<close>

partial_function (option) chain_find :: "('k, 'v) store \<Rightarrow> ptr \<Rightarrow> 'k \<Rightarrow> (ptr \<times> bool) option" where
  "chain_find H e key =
     do {
       x \<leftarrow> H e;
       if e_key x = key then Some (e, True)
       else (case e_next x of None \<Rightarrow> Some (e, False) | Some n \<Rightarrow> chain_find H n key)
     }"

declare chain_find.simps [code]

definition hm_Get :: "('s, 'k) hm_env \<Rightarrow> ('k, 'v) store \<Rightarrow> HashMap \<Rightarrow> 'k \<Rightarrow> 'v option option" where
  "hm_Get env H m key =
     (let i = bucket_index env (hm_bucket m) key in
      case al_Get None (hm_bucket m) i of
        None \<Rightarrow> Some None
      | Some e \<Rightarrow>
          do {
            (p, found) \<leftarrow> chain_find H e key;
            x \<leftarrow> H p;
            Some (if found then Some (e_value x) else None)
          })"

datatype put_result = Replaced | Inserted | Failed

text \<open>Insertion into a bucket array, the common part of \<^verbatim>\<open>Set\<close> and of the callback of \<^verbatim>\<open>Grow\<close>.\<close>

definition chain_put ::
    "('s, 'k) hm_env \<Rightarrow> 's \<times> ('k, 'v) store \<Rightarrow> ptr option ArrayList \<Rightarrow> 'k \<Rightarrow> 'v \<Rightarrow>
     (('s \<times> ('k, 'v) store) \<times> ptr option ArrayList \<times> put_result) option" where
  "chain_put env st b key value =
     (let (s, H) = st; i = bucket_index env b key in
      case al_Get None b i of
        None \<Rightarrow>
          (case MallocType (env_ops env) (env_entrySize env) s 1 of
             (s, None) \<Rightarrow> Some ((s, H), b, Failed)
           | (s, Some ne) \<Rightarrow>
               Some ((s, H(ne \<mapsto> \<lparr>e_key = key, e_value = value, e_front = None, e_next = None\<rparr>)),
                     al_Set b i (Some ne), Inserted))
      | Some e \<Rightarrow>
          do {
            (p, found) \<leftarrow> chain_find H e key;
            x \<leftarrow> H p;
            if found then Some ((s, H(p \<mapsto> x\<lparr>e_key := key, e_value := value\<rparr>)), b, Replaced)
            else
              (case MallocType (env_ops env) (env_entrySize env) s 1 of
                 (s, None) \<Rightarrow> Some ((s, H), b, Failed)
               | (s, Some ne) \<Rightarrow>
                   Some ((s, H(ne \<mapsto> \<lparr>e_key = key, e_value = value, e_front = Some p, e_next = None\<rparr>,
                                p \<mapsto> x\<lparr>e_next := Some ne\<rparr>)),
                         b, Inserted))
          })"

text \<open>A walk over a chain with a callback that returns whether to go on.\<close>

partial_function (option) chain_for ::
    "('k \<Rightarrow> 'v \<Rightarrow> 'st \<Rightarrow> ('st \<times> bool) option) \<Rightarrow> ('st \<Rightarrow> ('k, 'v) store) \<Rightarrow> ptr option \<Rightarrow> 'st \<Rightarrow> ('st \<times> bool) option" where
  "chain_for fn heap e st =
     (case e of
        None \<Rightarrow> Some (st, True)
      | Some p \<Rightarrow>
          do {
            x \<leftarrow> heap st p;
            (st, n) \<leftarrow> fn (e_key x) (e_value x) st;
            if n then chain_for fn heap (e_next x) st else Some (st, False)
          })"

declare chain_for.simps [code]

text \<open>The range over the buckets; an undefined step makes the whole loop undefined.\<close>

definition buckets_for ::
    "ptr option ArrayList \<Rightarrow> (ptr option \<Rightarrow> 'st \<Rightarrow> ('st \<times> bool) option) \<Rightarrow> 'st \<Rightarrow> 'st option" where
  "buckets_for b body st =
     al_For None b
       (\<lambda>index e acc. case acc of
          None \<Rightarrow> (None, False)
        | Some st \<Rightarrow> (case body e st of None \<Rightarrow> (None, False) | Some (st, n) \<Rightarrow> (Some st, n)))
       (Some st)"

definition hm_For ::
    "('k \<Rightarrow> 'v \<Rightarrow> 'st \<Rightarrow> ('st \<times> bool) option) \<Rightarrow> ('st \<Rightarrow> ('k, 'v) store) \<Rightarrow> HashMap \<Rightarrow> 'st \<Rightarrow> 'st option" where
  "hm_For fn heap m st = buckets_for (hm_bucket m) (chain_for fn heap) st"

text \<open>Freeing every entry of a chain.\<close>

partial_function (option) chain_free ::
    "('s, 'k) hm_env \<Rightarrow> ptr option \<Rightarrow> 's \<times> ('k, 'v) store \<Rightarrow> (('s \<times> ('k, 'v) store) \<times> bool) option" where
  "chain_free env e st =
     (case e of
        None \<Rightarrow> Some (st, True)
      | Some p \<Rightarrow>
          do {
            x \<leftarrow> snd st p;
            chain_free env (e_next x) (fst (FreeType (env_ops env) (fst st) (Some p)), (snd st)(p := None))
          })"

declare chain_free.simps [code]

definition hm_Clear ::
    "('s, 'k) hm_env \<Rightarrow> 's \<times> ('k, 'v) store \<Rightarrow> HashMap \<Rightarrow> (('s \<times> ('k, 'v) store) \<times> HashMap) option" where
  "hm_Clear env st m =
     do {
       st \<leftarrow> buckets_for (hm_bucket m) (chain_free env) st;
       let b = fold (\<lambda>i b. al_Set b (int i) None) [0..<al_Len (hm_bucket m)] (hm_bucket m);
       Some (st, m\<lparr>hm_bucket := b, hm_len := 0\<rparr>)
     }"

text \<open>The state of the rehashing loop: allocator and store, the new buckets, the counter, the
  failure flag.\<close>

type_synonym ('s, 'k, 'v) grow_state = "('s \<times> ('k, 'v) store) \<times> ptr option ArrayList \<times> nat \<times> bool"

definition grow_step ::
    "('s, 'k) hm_env \<Rightarrow> 'k \<Rightarrow> 'v \<Rightarrow> ('s, 'k, 'v) grow_state \<Rightarrow> (('s, 'k, 'v) grow_state \<times> bool) option" where
  "grow_step env key value = (\<lambda>(st, b, l, fail).
     do {
       (st, b, r) \<leftarrow> chain_put env st b key value;
       Some (case r of
          Replaced \<Rightarrow> ((st, b, l, fail), True)
        | Inserted \<Rightarrow> ((st, b, l + 1, fail), True)
        | Failed \<Rightarrow> ((st, b, l, True), False))
     })"

definition hm_Grow ::
    "('s, 'k) hm_env \<Rightarrow> 's \<times> ('k, 'v) store \<Rightarrow> HashMap \<Rightarrow> (('s \<times> ('k, 'v) store) \<times> HashMap) option" where
  "hm_Grow env st m =
     (let (s, H) = st; n = al_Len (hm_bucket m) * 2 in
      case NewArrayListWithCap (env_ops env) ptrSize (env_raw env) s (int n) of
        (s, None) \<Rightarrow> Some ((s, H), m)
      | (s, Some b) \<Rightarrow>
          do {
            let (s, b) = add_nils env n s b;
            ((s, H), b, l, fail) \<leftarrow> hm_For (grow_step env) (\<lambda>(st, _). snd st) m ((s, H), b, 0, False);
            if fail then
              do {
                (s, H) \<leftarrow> buckets_for b (chain_free env) (s, H);
                Some ((al_Free (env_ops env) s b, H), m)
              }
            else
              do {
                ((s, H), m) \<leftarrow> hm_Clear env (s, H) m;
                Some ((al_Free (env_ops env) s (hm_bucket m), H), m\<lparr>hm_bucket := b, hm_len := l\<rparr>)
              }
          })"

definition hm_Set ::
    "('s, 'k) hm_env \<Rightarrow> 's \<times> ('k, 'v) store \<Rightarrow> HashMap \<Rightarrow> 'k \<Rightarrow> 'v \<Rightarrow>
     (('s \<times> ('k, 'v) store) \<times> HashMap \<times> bool) option" where
  "hm_Set env st m key value =
     do {
       (st, b, r) \<leftarrow> chain_put env st (hm_bucket m) key value;
       let m = m\<lparr>hm_bucket := b\<rparr>;
       (case r of
          Replaced \<Rightarrow> Some (st, m, True)
        | Failed \<Rightarrow> Some (st, m, False)
        | Inserted \<Rightarrow>
            let m = m\<lparr>hm_len := hm_len m + 1\<rparr> in
            if al_Len (hm_bucket m) * 3 div 4 < hm_len m
            then do { (st, m) \<leftarrow> hm_Grow env st m; Some (st, m, True) }
            else Some (st, m, True))
     }"

definition hm_Del ::
    "('s, 'k) hm_env \<Rightarrow> 's \<times> ('k, 'v) store \<Rightarrow> HashMap \<Rightarrow> 'k \<Rightarrow> (('s \<times> ('k, 'v) store) \<times> HashMap) option" where
  "hm_Del env st m key =
     (let (s, H) = st; b = hm_bucket m; i = bucket_index env b key;
          upd = (\<lambda>H p f. case p of None \<Rightarrow> Some H | Some q \<Rightarrow> (case H q of None \<Rightarrow> None | Some y \<Rightarrow> Some (H(q \<mapsto> f y))))
      in
      case al_Get None b i of
        None \<Rightarrow> Some (st, m)
      | Some e \<Rightarrow>
          do {
            x \<leftarrow> H e;
            if e_key x = key then
              do {
                H \<leftarrow> upd H (e_next x) (e_front_update (\<lambda>_. None));
                Some ((fst (FreeType (env_ops env) s (Some e)), H(e := None)),
                      m\<lparr>hm_bucket := al_Set b i (e_next x), hm_len := hm_len m - 1\<rparr>)
              }
            else
              do {
                (p, found) \<leftarrow> chain_find H e key;
                if \<not> found then Some (st, m)
                else
                  do {
                    y \<leftarrow> H p;
                    H \<leftarrow> upd H (e_front y) (e_next_update (\<lambda>_. e_next y));
                    H \<leftarrow> upd H (e_next y) (e_front_update (\<lambda>_. e_front y));
                    Some ((fst (FreeType (env_ops env) s (Some p)), H(p := None)), m\<lparr>hm_len := hm_len m - 1\<rparr>)
                  }
              }
          })"

definition hm_Len :: "HashMap \<Rightarrow> nat" where
  "hm_Len m = hm_len m"

definition hm_Free ::
    "('s, 'k) hm_env \<Rightarrow> 's \<times> ('k, 'v) store \<Rightarrow> HashMap \<Rightarrow> ('s \<times> ('k, 'v) store) option" where
  "hm_Free env st m =
     do {
       ((s, H), m) \<leftarrow> hm_Clear env st m;
       let s = al_Free (env_ops env) s (hm_bucket m);
       Some (fst (FreeType (env_ops env) s (Some (hm_self m))), H)
     }"

end
