(* ===== verification/Hash_Map_Inv.thy ===== *)
theory Hash_Map_Inv
  imports Hash_Map
begin

text \<open>
  Correctness of the hash table. A table is a list of chains, one per bucket: each chain is
  doubly linked in the store, its keys hash to its bucket, and no key occurs twice. The
  map a table stands for is the map of its entries. Every operation ends without touching
  freed memory, acts on the map as the name says, and accounts for every allocation: what
  the table owns changes exactly by the entries inserted and removed, and nothing leaks
  when an allocation fails in the middle of growing.
\<close>

subsection \<open>Tables\<close>

definition ek :: "('k, 'v) store \<Rightarrow> ptr \<Rightarrow> 'k" where "ek H p = e_key (the (H p))"
definition ev :: "('k, 'v) store \<Rightarrow> ptr \<Rightarrow> 'v" where "ev H p = e_value (the (H p))"
definition ef :: "('k, 'v) store \<Rightarrow> ptr \<Rightarrow> ptr option" where "ef H p = e_front (the (H p))"
definition en :: "('k, 'v) store \<Rightarrow> ptr \<Rightarrow> ptr option" where "en H p = e_next (the (H p))"

lemmas ent_defs = ek_def ev_def ef_def en_def

definition idx :: "('s, 'k) hm_env \<Rightarrow> nat \<Rightarrow> 'k \<Rightarrow> nat" where
  "idx env n k = unat (env_hash env k) mod n"

definition chain_ok :: "('s, 'k) hm_env \<Rightarrow> ('k, 'v) store \<Rightarrow> nat \<Rightarrow> nat \<Rightarrow> ptr list \<Rightarrow> bool" where
  "chain_ok env H n i c \<longleftrightarrow> seg (en H) (ef H) None c None \<and>
     (\<forall>p \<in> set c. H p \<noteq> None \<and> idx env n (ek H p) = i)"

definition tab :: "('s, 'k) hm_env \<Rightarrow> ('k, 'v) store \<Rightarrow> ptr option ArrayList \<Rightarrow> ptr list list \<Rightarrow> bool" where
  "tab env H b cs \<longleftrightarrow> al_wf b \<and> al_abs b = map (\<lambda>c. first c None) cs \<and> cs \<noteq> [] \<and> length cs < 2 ^ 62 \<and>
     (\<forall>i < length cs. chain_ok env H (length cs) i (cs ! i)) \<and> distinct (concat cs) \<and>
     inj_on (ek H) (set (concat cs))"

definition tmap :: "('k, 'v) store \<Rightarrow> ptr list list \<Rightarrow> 'k \<rightharpoonup> 'v" where
  "tmap H cs = map_of (map (\<lambda>p. (ek H p, ev H p)) (concat cs))"

lemma tab_len: "tab env H b cs \<Longrightarrow> al_len b = length cs"
  using length_al_abs [of b] by (simp add: tab_def)

lemma bucket_index_idx:
  assumes "tab env H b cs"
  shows "bucket_index env b k = int (idx env (length cs) k)"
proof -
  have "length cs < 2 ^ LENGTH(64)"
    using assms by (simp add: tab_def)
  then have "unat (of_nat (length cs) :: u64) = length cs"
    by (simp only: unat_of_nat mod_less)
  then show ?thesis
    using tab_len [OF assms] by (simp add: bucket_index_def idx_def al_Len_def unat_mod)
qed

lemma tab_idx_less: "tab env H b cs \<Longrightarrow> idx env (length cs) k < length cs"
  by (simp add: tab_def idx_def)

lemma tab_Get:
  assumes "tab env H b cs"
  shows "al_Get None b (bucket_index env b k) = first (cs ! idx env (length cs) k) None"
  using assms tab_idx_less [OF assms, of k] bucket_index_idx [OF assms, of k]
  by (simp add: al_Get_abs tab_def)

lemma tmap_Some:
  assumes "inj_on (ek H) (set (concat cs))" "distinct (concat cs)"
  shows "tmap H cs k = Some v \<longleftrightarrow> (\<exists>p \<in> set (concat cs). ek H p = k \<and> ev H p = v)"
proof -
  have "distinct (map fst (map (\<lambda>p. (ek H p, ev H p)) (concat cs)))"
    using assms by (simp add: distinct_map comp_def)
  then have "tmap H cs k = Some v \<longleftrightarrow> (k, v) \<in> set (map (\<lambda>p. (ek H p, ev H p)) (concat cs))"
    unfolding tmap_def by (rule map_of_eq_Some_iff)
  then show ?thesis
    by auto
qed

lemma tab_tmap_Some: "tab env H b cs \<Longrightarrow>
    tmap H cs k = Some v \<longleftrightarrow> (\<exists>p \<in> set (concat cs). ek H p = k \<and> ev H p = v)"
  by (rule tmap_Some) (auto simp: tab_def)

lemma tab_in_bucket:
  assumes "tab env H b cs" "p \<in> set (concat cs)"
  shows "p \<in> set (cs ! idx env (length cs) (ek H p))"
proof -
  obtain c where "c \<in> set cs" "p \<in> set c"
    using assms(2) by auto
  then obtain i where "i < length cs" "p \<in> set (cs ! i)"
    by (metis in_set_conv_nth)
  then show ?thesis
    using assms(1) by (auto simp: tab_def chain_ok_def)
qed

lemma set_concat_nth: "i < length cs \<Longrightarrow> set (cs ! i) \<subseteq> set (concat cs)"
  using nth_mem by fastforce

lemma map_eqI: "(\<And>v. m k = Some v \<longleftrightarrow> m' k = Some v) \<Longrightarrow> m k = m' k"
  by (metis not_None_eq)

subsection \<open>Looking up\<close>

lemma chain_find_seg:
  assumes "seg (en H) g q (e # c) None" "\<forall>p \<in> set (e # c). H p \<noteq> None"
  shows "chain_find H e k = Some (case find (\<lambda>p. ek H p = k) (e # c) of
    Some p \<Rightarrow> (p, True) | None \<Rightarrow> (last (e # c), False))"
  using assms
proof (induction c arbitrary: e q)
  case Nil
  then obtain x where "H e = Some x"
    by auto
  then show ?case
    using Nil by (subst chain_find.simps) (simp add: ent_defs)
next
  case (Cons d c)
  then obtain x where x: "H e = Some x"
    by auto
  then have "en H e = Some d"
    using Cons.prems by simp
  then show ?case
    using Cons x by (subst chain_find.simps) (auto simp: ent_defs split: option.splits)
qed

lemma find_bucket:
  assumes "tab env H b cs"
  shows "find (\<lambda>p. ek H p = k) (cs ! idx env (length cs) k) = Some p \<Longrightarrow>
      p \<in> set (cs ! idx env (length cs) k) \<and> ek H p = k \<and> tmap H cs k = Some (ev H p)"
    "find (\<lambda>p. ek H p = k) (cs ! idx env (length cs) k) = None \<Longrightarrow> tmap H cs k = None"
proof -
  let ?c = "cs ! idx env (length cs) k"
  have sub: "set ?c \<subseteq> set (concat cs)"
    using set_concat_nth tab_idx_less [OF assms] by blast
  show "p \<in> set ?c \<and> ek H p = k \<and> tmap H cs k = Some (ev H p)" if "find (\<lambda>p. ek H p = k) ?c = Some p"
  proof -
    have p: "p \<in> set ?c" "ek H p = k"
      using that by (auto simp: find_Some_iff)
    then show ?thesis
      using sub tab_tmap_Some [OF assms, of k "ev H p"] by blast
  qed
  show "tmap H cs k = None" if "find (\<lambda>p. ek H p = k) ?c = None"
  proof (rule ccontr)
    assume "tmap H cs k \<noteq> None"
    then obtain p where "p \<in> set (concat cs)" "ek H p = k"
      using tab_tmap_Some [OF assms] by auto
    then have "p \<in> set ?c" "ek H p = k"
      using tab_in_bucket [OF assms] by auto
    then show False
      using that by (auto simp: find_None_iff)
  qed
qed

lemma tab_chain: "tab env H b cs \<Longrightarrow> chain_ok env H (length cs) (idx env (length cs) k) (cs ! idx env (length cs) k)"
  using tab_idx_less [of env H b cs k] by (simp add: tab_def)

lemma tab_find:
  assumes "tab env H b cs" "cs ! idx env (length cs) k = e # c"
  shows "chain_find H e k = Some (case find (\<lambda>p. ek H p = k) (e # c) of
    Some p \<Rightarrow> (p, True) | None \<Rightarrow> (last (e # c), False))"
  using tab_chain [OF assms(1), of k] assms(2)
  by (intro chain_find_seg [of H "ef H" None]) (auto simp: chain_ok_def)

lemma hm_Get_tmap:
  assumes "tab env H (hm_bucket m) cs"
  shows "hm_Get env H m k = Some (tmap H cs k)"
proof (cases "cs ! idx env (length cs) k")
  case Nil
  then show ?thesis
    using find_bucket(2) [OF assms, of k] by (simp add: hm_Get_def tab_Get [OF assms] Let_def)
next
  case (Cons e c)
  have v: "\<forall>p \<in> set (e # c). H p \<noteq> None"
    using tab_chain [OF assms, of k] Cons by (auto simp: chain_ok_def)
  show ?thesis
  proof (cases "find (\<lambda>p. ek H p = k) (e # c)")
    case None
    have "\<exists>x. H (last (e # c)) = Some x"
      using v last_in_set [of "e # c"] by blast
    then show ?thesis
      using None Cons tab_find [OF assms Cons] find_bucket(2) [OF assms, of k]
      by (auto simp: hm_Get_def tab_Get [OF assms] Let_def simp del: last.simps find.simps)
  next
    case (Some p)
    then show ?thesis
      using Cons tab_find [OF assms Cons] find_bucket(1) [OF assms, of k p] v
      by (auto simp: hm_Get_def tab_Get [OF assms] Let_def ent_defs simp del: last.simps find.simps)
  qed
qed

subsection \<open>Changing one chain\<close>

lemma chain_ok_cong:
  assumes "\<And>p. p \<in> set c \<Longrightarrow> H' p = H p"
  shows "chain_ok env H' n i c = chain_ok env H n i c"
proof -
  have "seg (en H') (ef H') None c None = seg (en H) (ef H) None c None"
    by (rule seg_cong) (simp add: ent_defs assms)
  then show ?thesis
    using assms by (auto simp: chain_ok_def ek_def)
qed

lemma tab_replace:
  assumes t: "tab env H b (xs @ c # ys)"
    and c: "chain_ok env H' (length (xs @ c # ys)) (length xs) c'"
    and h: "\<And>p. p \<in> set (concat xs) \<union> set (concat ys) \<Longrightarrow> H' p = H p"
    and d: "distinct c'" "set c' \<inter> (set (concat xs) \<union> set (concat ys)) = {}"
    and i: "inj_on (ek H') (set c' \<union> (set (concat xs) \<union> set (concat ys)))"
    and b: "al_wf b'" "al_abs b' = (al_abs b)[length xs := first c' None]"
  shows "tab env H' b' (xs @ c' # ys)"
proof -
  have "chain_ok env H' (length (xs @ c' # ys)) j ((xs @ c' # ys) ! j)" if "j < length (xs @ c' # ys)" for j
  proof (cases "j = length xs")
    case True
    then show ?thesis
      using c by (simp add: nth_append)
  next
    case False
    then have j: "(xs @ c' # ys) ! j = (xs @ c # ys) ! j" "(xs @ c # ys) ! j \<in> set xs \<union> set ys"
      using that by (auto simp: nth_append nth_Cons split: nat.splits)
    have "chain_ok env H (length (xs @ c # ys)) j ((xs @ c # ys) ! j)"
      using t that by (simp add: tab_def)
    moreover have "H' p = H p" if "p \<in> set ((xs @ c # ys) ! j)" for p
      using that j(2) h [of p] by auto
    ultimately show ?thesis
      using j(1) chain_ok_cong [of "(xs @ c # ys) ! j" H' H env] by simp
  qed
  moreover have "al_abs b' = map (\<lambda>c. first c None) (xs @ c' # ys)"
    using t b by (simp add: tab_def list_update_append)
  moreover have "distinct (concat (xs @ c' # ys))"
    using t d by (auto simp: tab_def)
  moreover have "inj_on (ek H') (set (concat (xs @ c' # ys)))"
    using i by (rule inj_on_subset) auto
  ultimately show ?thesis
    using t b(1) by (simp add: tab_def)
qed

lemma tab_split:
  assumes "tab env H b cs"
  obtains xs c ys where "cs = xs @ c # ys" "idx env (length cs) k = length xs" "cs ! idx env (length cs) k = c"
proof
  let ?i = "idx env (length cs) k"
  show "cs = take ?i cs @ cs ! ?i # drop (Suc ?i) cs" "?i = length (take ?i cs)"
    using tab_idx_less [OF assms, of k] by (simp_all add: id_take_nth_drop [symmetric])
qed simp

lemma tab_append_entry:
  assumes t: "tab env H b (xs @ c # ys)" and l: "idx env (length (xs @ c # ys)) k = length xs"
    and f: "ne \<notin> set (concat (xs @ c # ys))" and n: "tmap H (xs @ c # ys) k = None"
    and H': "H' = (H(ne \<mapsto> \<lparr>e_key = k, e_value = v, e_front = final c None, e_next = None\<rparr>)) ++
      (if c = [] then Map.empty else [last c \<mapsto> (the (H (last c)))\<lparr>e_next := Some ne\<rparr>])"
    and b: "al_wf b'" "al_abs b' = (al_abs b)[length xs := first (c @ [ne]) None]"
  shows "tab env H' b' (xs @ (c @ [ne]) # ys)" "tmap H' (xs @ (c @ [ne]) # ys) = (tmap H (xs @ c # ys))(k \<mapsto> v)"
proof -
  let ?o = "set (concat xs) \<union> set (concat ys)"
  have d: "distinct (concat xs @ c @ concat ys)" and ij: "inj_on (ek H) (set c \<union> ?o)"
    using t by (auto simp: tab_def Un_ac)
  have ch: "chain_ok env H (length (xs @ c # ys)) (length xs) c"
    using tab_chain [OF t, of k] l by (simp add: nth_append)
  then have cv: "\<forall>p \<in> set c. H p \<noteq> None"
    by (auto simp: chain_ok_def)
  have lc: "last c \<in> set c" if "c \<noteq> []"
    using that by simp
  have nl: "c = [] \<or> ne \<noteq> last c"
    using f lc by (metis UnCI concat.simps(2) concat_append set_append)
  have oth: "H' p = H p" if "p \<in> ?o" for p
  proof -
    have "set c \<inter> ?o = {}"
      using d by auto
    then have "c = [] \<or> p \<noteq> last c"
      using that lc by blast
    moreover have "p \<noteq> ne"
      using that f by auto
    ultimately show ?thesis
      by (auto simp: H' map_add_def)
  qed
  have nec: "p \<noteq> ne" if "p \<in> set c \<union> ?o" for p
    using that f by auto
  have keys: "ek H' p = ek H p" "ev H' p = ev H p" "ef H' p = ef H p" "H' p \<noteq> None \<longleftrightarrow> H p \<noteq> None"
    if "p \<in> set c \<union> ?o" for p
    using nec [OF that] cv lc by (auto simp: H' map_add_def ent_defs)
  have new: "ek H' ne = k" "ev H' ne = v" "ef H' ne = final c None" "en H' ne = None" "H' ne \<noteq> None"
    using nl by (auto simp: H' map_add_def ent_defs)
  have "seg (en H') (ef H') None (c @ [ne]) None"
  proof (cases c rule: rev_cases)
    case Nil
    then show ?thesis
      using new by simp
  next
    case (snoc c0 z)
    have "en H' p = en H p" if "p \<in> set c0" for p
      using that f d snoc by (auto simp: H' map_add_def ent_defs)
    moreover have "en H' z = Some ne"
      using f snoc cv by (auto simp: H' map_add_def ent_defs)
    moreover have "seg (en H') (ef H') None c0 (Some z) = seg (en H) (ef H) None c0 (Some z)"
      using calculation(1) keys(3) f snoc by (intro seg_cong) auto
    ultimately show ?thesis
      using ch new keys(3) [of z] f snoc by (auto simp: chain_ok_def seg_append)
  qed
  then have ch': "chain_ok env H' (length (xs @ c # ys)) (length xs) (c @ [ne])"
    using ch keys new f l by (auto simp: chain_ok_def)
  have fr: "k \<notin> ek H ` (set c \<union> ?o)"
    using n tab_tmap_Some [OF t, of k] by (auto simp: Un_ac)
  have "inj_on (ek H') (set c \<union> ?o)"
    using ij keys(1) by (auto simp: inj_on_def)
  moreover have "ek H' ` (set c \<union> ?o) = ek H ` (set c \<union> ?o)"
    using keys(1) by (intro image_cong) auto
  ultimately have ij': "inj_on (ek H') (set (c @ [ne]) \<union> ?o)"
    using fr new(1) f by (auto simp: Un_insert_right)
  show t': "tab env H' b' (xs @ (c @ [ne]) # ys)"
    by (rule tab_replace [OF t ch' oth _ _ ij' b]) (use d f in auto)
  show "tmap H' (xs @ (c @ [ne]) # ys) = (tmap H (xs @ c # ys))(k \<mapsto> v)"
  proof (rule ext, rule map_eqI)
    fix k' w
    have "tmap H' (xs @ (c @ [ne]) # ys) k' = Some w \<longleftrightarrow>
        (\<exists>p \<in> insert ne (set c \<union> ?o). ek H' p = k' \<and> ev H' p = w)"
      unfolding tab_tmap_Some [OF t'] by auto
    also have "\<dots> \<longleftrightarrow> k' = k \<and> w = v \<or> (\<exists>p \<in> set c \<union> ?o. ek H p = k' \<and> ev H p = w)"
      using new keys(1,2) by (metis insert_iff)
    also have "\<dots> \<longleftrightarrow> ((tmap H (xs @ c # ys))(k \<mapsto> v)) k' = Some w"
      using fr tab_tmap_Some [OF t, of k' w] by auto
    finally show "tmap H' (xs @ (c @ [ne]) # ys) k' = Some w \<longleftrightarrow> ((tmap H (xs @ c # ys))(k \<mapsto> v)) k' = Some w" .
  qed
qed

lemma tab_update_value:
  assumes t: "tab env H b cs" and p: "p \<in> set (concat cs)" "ek H p = k"
    and H': "H' = H(p \<mapsto> (the (H p))\<lparr>e_key := k, e_value := v\<rparr>)"
  shows "tab env H' b cs" "tmap H' cs = (tmap H cs)(k \<mapsto> v)"
proof -
  have o: "ek H' = ek H" "en H' = en H" "ef H' = ef H" "ev H' = (ev H)(p := v)"
    using p(2) by (auto simp: H' ent_defs fun_eq_iff)
  have d: "H' q \<noteq> None" if "H q \<noteq> None" for q
    using that by (simp add: H')
  show t': "tab env H' b cs"
    using t by (auto simp: tab_def chain_ok_def o d)
  have ij: "inj_on (ek H) (set (concat cs))"
    using t by (simp add: tab_def)
  show "tmap H' cs = (tmap H cs)(k \<mapsto> v)"
  proof (rule ext, rule map_eqI)
    fix k' w
    have "tmap H' cs k' = Some w \<longleftrightarrow> (\<exists>q \<in> set (concat cs). ek H q = k' \<and> ((ev H)(p := v)) q = w)"
      using tab_tmap_Some [OF t', of k' w] by (simp only: o)
    also have "\<dots> \<longleftrightarrow> ((tmap H cs)(k \<mapsto> v)) k' = Some w"
    proof (cases "k' = k")
      case True
      have "q = p" if "q \<in> set (concat cs)" "ek H q = k" for q
        using inj_onD [OF ij, of q p] that p by simp
      then have "(\<exists>q \<in> set (concat cs). ek H q = k \<and> ((ev H)(p := v)) q = w) \<longleftrightarrow> w = v"
        using p by (metis fun_upd_same)
      then show ?thesis
        using True by (simp only: fun_upd_same) auto
    next
      case False
      then have "(\<exists>q \<in> set (concat cs). ek H q = k' \<and> ((ev H)(p := v)) q = w) \<longleftrightarrow>
          (\<exists>q \<in> set (concat cs). ek H q = k' \<and> ev H q = w)"
        using p(2) by (metis fun_upd_other)
      then show ?thesis
        using False tab_tmap_Some [OF t, of k' w] by (simp only: fun_upd_apply if_False)
    qed
    finally show "tmap H' cs k' = Some w \<longleftrightarrow> ((tmap H cs)(k \<mapsto> v)) k' = Some w" .
  qed
qed

lemma tab_remove_entry:
  assumes t: "tab env H b (xs @ (us @ p # vs) # ys)" and l: "idx env (length (xs @ (us @ p # vs) # ys)) (ek H p) = length xs"
    and oth: "\<And>q. q \<in> set (concat xs) \<union> set (concat ys) \<Longrightarrow> H' q = H q"
    and ent: "\<And>q. q \<in> set us \<union> set vs \<Longrightarrow> ek H' q = ek H q \<and> ev H' q = ev H q \<and> H' q \<noteq> None"
    and lnk: "\<And>q. q \<in> set us \<union> set vs \<Longrightarrow> en H' q = (if us \<noteq> [] \<and> q = last us then first vs None else en H q) \<and>
      ef H' q = (if vs \<noteq> [] \<and> q = hd vs then final us None else ef H q)"
    and b: "al_wf b'" "al_abs b' = (al_abs b)[length xs := first (us @ vs) None]"
  shows "tab env H' b' (xs @ (us @ vs) # ys)"
    "tmap H' (xs @ (us @ vs) # ys) = (tmap H (xs @ (us @ p # vs) # ys))(ek H p := None)"
proof -
  let ?c = "us @ p # vs"
  let ?o = "set (concat xs) \<union> set (concat ys)"
  have d: "distinct (concat xs @ ?c @ concat ys)" and ij: "inj_on (ek H) (set ?c \<union> ?o)"
    using t by (auto simp: tab_def Un_ac)
  have ch: "chain_ok env H (length (xs @ ?c # ys)) (length xs) ?c"
    using tab_chain [OF t, of "ek H p"] l by (simp add: nth_append)
  have dc: "distinct ?c"
    using d by auto
  have sg: "seg (en H) (ef H) None ?c None"
    using ch by (simp add: chain_ok_def)
  have "seg (en H') (ef H') None (us @ vs) None =
    seg (if us = [] then en H else (en H)(last us := first vs None))
        (if vs = [] then ef H else (ef H)(hd vs := final us None)) None (us @ vs) None"
    using lnk by (intro seg_cong) auto
  then have "seg (en H') (ef H') None (us @ vs) None"
    using seg_remove [OF sg dc] by simp
  then have ch': "chain_ok env H' (length (xs @ ?c # ys)) (length xs) (us @ vs)"
    using ch ent by (auto simp: chain_ok_def)
  have keys: "ek H' q = ek H q" "ev H' q = ev H q" if "q \<in> set (us @ vs) \<union> ?o" for q
  proof -
    have "ek H' q = ek H q \<and> ev H' q = ev H q"
    proof (cases "q \<in> ?o")
      case True
      then show ?thesis
        using oth [OF True] by (simp add: ek_def ev_def)
    next
      case False
      then have "q \<in> set us \<union> set vs"
        using that by auto
      then show ?thesis
        using ent by blast
    qed
    then show "ek H' q = ek H q" "ev H' q = ev H q"
      by auto
  qed
  have "inj_on (ek H) (set (us @ vs) \<union> ?o)"
    using ij by (rule inj_on_subset) auto
  then have ij': "inj_on (ek H') (set (us @ vs) \<union> ?o)"
    using keys(1) by (auto simp: inj_on_def)
  show t': "tab env H' b' (xs @ (us @ vs) # ys)"
    by (rule tab_replace [OF t ch' oth _ _ ij' b]) (use d in auto)
  have nk: "ek H q \<noteq> ek H p" if "q \<in> set (us @ vs) \<union> ?o" for q
  proof
    assume "ek H q = ek H p"
    then have "q = p"
      using inj_onD [OF ij, of q p] that by auto
    then show False
      using that d by auto
  qed
  show "tmap H' (xs @ (us @ vs) # ys) = (tmap H (xs @ ?c # ys))(ek H p := None)"
  proof (rule ext, rule map_eqI)
    fix k' w
    have "tmap H' (xs @ (us @ vs) # ys) k' = Some w \<longleftrightarrow>
        (\<exists>q \<in> set (us @ vs) \<union> ?o. ek H' q = k' \<and> ev H' q = w)"
      unfolding tab_tmap_Some [OF t'] by auto
    also have "\<dots> \<longleftrightarrow> (\<exists>q \<in> set (us @ vs) \<union> ?o. ek H q = k' \<and> ev H q = w)"
      using keys by (metis (no_types, lifting))
    also have "\<dots> \<longleftrightarrow> k' \<noteq> ek H p \<and> (\<exists>q \<in> insert p (set (us @ vs) \<union> ?o). ek H q = k' \<and> ev H q = w)"
      using nk by blast
    also have "\<dots> \<longleftrightarrow> ((tmap H (xs @ ?c # ys))(ek H p := None)) k' = Some w"
      using tab_tmap_Some [OF t, of k' w] by auto
    finally show "tmap H' (xs @ (us @ vs) # ys) k' = Some w \<longleftrightarrow>
        ((tmap H (xs @ ?c # ys))(ek H p := None)) k' = Some w" .
  qed
qed

subsection \<open>Insertion\<close>

text \<open>The table's allocations: the bucket array and every entry.\<close>

definition tab_own :: "(ptr \<rightharpoonup> nat) \<Rightarrow> ptr option ArrayList \<Rightarrow> ptr list list \<Rightarrow> bool" where
  "tab_own L b cs \<longleftrightarrow> al_owns L 8 b \<and> (\<forall>p \<in> set (concat cs). L p \<noteq> None) \<and> set (concat cs) \<inter> al_ptrs b = {}"

definition env_ok :: "('s, 'k) hm_env \<Rightarrow> bool" where
  "env_ok env \<longleftrightarrow> unat (env_entrySize env) < 2 ^ 32"

text \<open>What inserting does to the table, the store and the allocations.\<close>

definition put_post ::
    "('s, 'k) hm_env \<Rightarrow> (ptr \<rightharpoonup> nat) \<Rightarrow> ('k, 'v) store \<Rightarrow> ptr option ArrayList \<Rightarrow> ptr list list \<Rightarrow> 'k \<Rightarrow> 'v \<Rightarrow>
     (ptr \<rightharpoonup> nat) \<Rightarrow> ('k, 'v) store \<Rightarrow> ptr option ArrayList \<Rightarrow> ptr list list \<Rightarrow> put_result \<Rightarrow> bool" where
  "put_post env L H b cs k v L' H' b' cs' r \<longleftrightarrow>
     tab env H' b' cs' \<and> tab_own L' b' cs' \<and> al_ptrs b' = al_ptrs b \<and> length cs' = length cs \<and>
     (case r of
        Failed \<Rightarrow> tmap H cs k = None \<and> L' = L \<and> H' = H \<and> b' = b \<and> cs' = cs
      | Replaced \<Rightarrow> tmap H cs k \<noteq> None \<and> tmap H' cs' = (tmap H cs)(k \<mapsto> v) \<and> L' = L \<and> b' = b \<and> cs' = cs \<and>
          (\<forall>p. p \<notin> set (concat cs) \<longrightarrow> H' p = H p)
      | Inserted \<Rightarrow> tmap H cs k = None \<and> tmap H' cs' = (tmap H cs)(k \<mapsto> v) \<and>
          (\<exists>p n. L p = None \<and> L' = L(p \<mapsto> n) \<and> set (concat cs') = insert p (set (concat cs)) \<and>
             length (concat cs') = Suc (length (concat cs)) \<and>
             (\<forall>q. q \<noteq> p \<longrightarrow> q \<notin> set (concat cs) \<longrightarrow> H' q = H q)))"

lemma tab_own_insert:
  assumes "tab_own L b cs" "L p = None" "set (concat cs') = insert p (set (concat cs))" "al_ptrs b' = al_ptrs b"
    "al_owns L 8 b' = al_owns L 8 b"
  shows "tab_own (L(p \<mapsto> n)) b' cs'"
proof -
  have o: "al_owns L 8 b" "\<forall>q \<in> al_ptrs b. L q \<noteq> None"
    using assms(1) by (auto simp: tab_own_def al_owns_def al_ptrs_def)
  then have "p \<notin> al_ptrs b"
    using assms(2) by auto
  moreover have "al_owns L 8 b'"
    using o(1) assms(5) by simp
  then have "al_owns (L(p \<mapsto> n)) 8 b'"
    by (rule al_owns_cong) (use assms(4) \<open>p \<notin> al_ptrs b\<close> in \<open>simp add: fun_upd_apply\<close>, blast)
  ultimately show ?thesis
    using assms(1) unfolding tab_own_def assms(3,4) by auto
qed

lemma chain_find_absent:
  assumes "tab env H b cs" "cs ! idx env (length cs) k = c" "c \<noteq> []" "find (\<lambda>p. ek H p = k) c = None"
  shows "chain_find H (hd c) k = Some (last c, False)" "H (last c) \<noteq> None"
proof -
  obtain e c0 where c: "c = e # c0"
    using assms(3) by (cases c) auto
  show "chain_find H (hd c) k = Some (last c, False)"
    using tab_find [of env H b cs k e c0] assms c by simp
  show "H (last c) \<noteq> None"
    using tab_chain [OF assms(1), of k] assms(2,3) last_in_set [of c] by (auto simp: chain_ok_def)
qed

lemma tab_set_bucket:
  assumes "tab env H b (xs @ c # ys)"
  shows "al_wf (al_Set b (int (length xs)) v)" "al_abs (al_Set b (int (length xs)) v) = (al_abs b)[length xs := v]"
  using assms by (simp_all add: tab_def al_Set_abs)

lemma tab_same_head:
  assumes "tab env H b (xs @ c # ys)" "first c' None = first c None"
  shows "al_abs b = (al_abs b)[length xs := first c' None]"
  using assms by (simp add: tab_def list_update_append)

context allocator
begin

lemma chain_put_inserts:
  assumes "ok s'" "env_ops env = ops" "env_ok env" and t: "tab env H b (xs @ c # ys)" and ow: "tab_own (live s) b (xs @ c # ys)"
    and l: "idx env (length (xs @ c # ys)) k = length xs" and n: "find (\<lambda>p. ek H p = k) c = None"
    and m: "op_Malloc ops s (env_entrySize env) = (s', Some ne)" "live s ne = None" "live s' = (live s)(ne \<mapsto> z)"
  shows "\<exists>s' H' b' cs' r. chain_put env (s, H) b k v = Some ((s', H'), b', r) \<and> ok s' \<and>
    put_post env (live s) H b (xs @ c # ys) k v (live s') H' b' cs' r"
proof -
  let ?cs = "xs @ c # ys" and ?cs' = "xs @ (c @ [ne]) # ys"
  let ?H1 = "H(ne \<mapsto> \<lparr>e_key = k, e_value = v, e_front = final c None, e_next = None\<rparr>)"
  let ?H' = "?H1 ++ (if c = [] then Map.empty else [last c \<mapsto> (the (H (last c)))\<lparr>e_next := Some ne\<rparr>])"
  let ?b' = "if c = [] then al_Set b (int (length xs)) (Some ne) else b"
  have ci: "?cs ! idx env (length ?cs) k = c"
    unfolding l by (simp add: nth_append)
  have fr: "ne \<notin> set (concat ?cs)"
    using ow m(2) unfolding tab_own_def by blast
  have nk: "tmap H ?cs k = None"
    by (rule find_bucket(2) [OF t]) (simp only: ci n)
  have b': "al_wf ?b'" "al_abs ?b' = (al_abs b)[length xs := first (c @ [ne]) None]" "al_ptrs ?b' = al_ptrs b"
    "al_owns L 8 ?b' = al_owns L 8 b" for L
    using tab_set_bucket [OF t] tab_same_head [OF t, of "c @ [ne]"] t by (cases c; auto simp: tab_def)+
  note te = tab_append_entry [OF t l fr nk refl b'(1,2), of v]
  have own: "tab_own ((live s)(ne \<mapsto> z)) ?b' ?cs'"
    by (rule tab_own_insert [OF ow m(2) _ b'(3,4)]) auto
  have st: "H q = ?H' q" if "q \<noteq> ne" "q \<notin> set (concat ?cs)" for q
    using that last_in_set [of c] by (auto simp: map_add_def)
  have "chain_put env (s, H) b k v = Some ((s', ?H'), ?b', Inserted)"
  proof (cases "c = []")
    case True
    then show ?thesis
      using tab_Get [OF t, of k] bucket_index_idx [OF t, of k] ci l m(1) assms(2)
      by (simp add: chain_put_def MallocType_def)
  next
    case False
    then have "first c None = Some (hd c)"
      by (cases c) auto
    then show ?thesis
      using tab_Get [OF t, of k] ci False chain_find_absent [OF t ci False n] m(1) assms(2)
      by (auto simp: chain_put_def MallocType_def final_def map_add_upd_left)
  qed
  moreover have "put_post env (live s) H b ?cs k v (live s') ?H' ?b' ?cs' Inserted"
  proof -
    have "set (concat ?cs') = insert ne (set (concat ?cs))" "length (concat ?cs') = Suc (length (concat ?cs))"
      by auto
    then have "\<exists>p n. live s p = None \<and> (live s)(ne \<mapsto> z) = (live s)(p \<mapsto> n) \<and>
        set (concat ?cs') = insert p (set (concat ?cs)) \<and> length (concat ?cs') = Suc (length (concat ?cs)) \<and>
        (\<forall>q. q \<noteq> p \<longrightarrow> q \<notin> set (concat ?cs) \<longrightarrow> ?H' q = H q)"
      using m(2) st by metis
    then show ?thesis
      unfolding put_post_def m(3) put_result.case using te nk own b'(3) by (intro conjI; simp only: length_append list.size)
  qed
  ultimately show ?thesis
    using assms(1) by blast
qed

lemma chain_put_ok:
  assumes "ok s" "env_ops env = ops" "env_ok env" and t: "tab env H b cs" and ow: "tab_own (live s) b cs"
  shows "\<exists>s' H' b' cs' r. chain_put env (s, H) b k v = Some ((s', H'), b', r) \<and> ok s' \<and>
    put_post env (live s) H b cs k v (live s') H' b' cs' r"
proof -
  obtain xs c ys where cs: "cs = xs @ c # ys" "idx env (length cs) k = length xs" "cs ! idx env (length cs) k = c"
    using tab_split [OF t] by metis
  have g: "unat (env_entrySize env) + 7 < 2 ^ 64"
    using assms(3) by (simp add: env_ok_def)
  show ?thesis
  proof (cases "find (\<lambda>p. ek H p = k) c")
    case (Some p)
    then obtain e c0 where c: "c = e # c0"
      by (cases c) auto
    have p: "p \<in> set c" "ek H p = k" "tmap H cs k = Some (ev H p)" "H p \<noteq> None"
      using find_bucket(1) [OF t, of k p] Some cs(3) tab_chain [OF t, of k] by (auto simp: chain_ok_def)
    have "p \<in> set (concat cs)"
      using p(1) cs(1) by auto
    note tv = tab_update_value [OF t this p(2) refl, of v]
    let ?H' = "H(p \<mapsto> (the (H p))\<lparr>e_key := k, e_value := v\<rparr>)"
    have "chain_put env (s, H) b k v = Some ((s, ?H'), b, Replaced)"
      using tab_Get [OF t, of k] tab_find [OF t, of k e c0] cs(3) c Some p(4)
      by (auto simp: chain_put_def simp del: find.simps)
    moreover have "put_post env (live s) H b cs k v (live s) ?H' b cs Replaced"
      using tv ow p(3) \<open>p \<in> set (concat cs)\<close> unfolding put_post_def put_result.case by auto
    ultimately show ?thesis
      using assms(1) by blast
  next
    case None
    from assms(1) g show ?thesis
    proof (cases rule: malloc_cases)
      case (none s')
      have "chain_put env (s, H) b k v = Some ((s', H), b, Failed)"
      proof (cases "c = []")
        case True
        then show ?thesis
          using tab_Get [OF t, of k] cs(3) none(1) assms(2) by (simp add: chain_put_def MallocType_def)
      next
        case False
        then have "first c None = Some (hd c)"
          by (cases c) auto
        then show ?thesis
          using tab_Get [OF t, of k] cs(3) none(1) assms(2) chain_find_absent [OF t cs(3) False None]
          by (auto simp: chain_put_def MallocType_def)
      qed
      moreover have "tmap H cs k = None"
        by (rule find_bucket(2) [OF t]) (simp only: cs(3) None)
      then have "put_post env (live s) H b cs k v (live s') H b cs Failed"
        using t ow by (simp add: put_post_def none(3))
      ultimately show ?thesis
        using none(2) by blast
    next
      case (some s' ne z)
      show ?thesis
        using chain_put_inserts [OF some(2) assms(2,3) t [unfolded cs(1)] ow [unfolded cs(1)] cs(2) [unfolded cs(1)] None
            some(1,3,5)] cs(1) by simp
    qed
  qed
qed

subsection \<open>Freeing chains\<close>

lemma chain_free_ok:
  assumes "ok s" "env_ops env = ops" "distinct c" "seg (en H) g q c None"
    "\<forall>p \<in> set c. H p \<noteq> None \<and> live s p \<noteq> None"
  shows "\<exists>s'. chain_free env (first c None) (s, H) = Some ((s', H |` (- set c)), True) \<and> ok s' \<and>
    live s' = live s |` (- set c)"
  using assms
proof (induction c arbitrary: s H q)
  case Nil
  then show ?case
    by (subst chain_free.simps) (simp add: restrict_map_def)
next
  case (Cons p c)
  let ?s1 = "fst (op_Free ops s (Some p))" and ?H1 = "H(p := None)"
  have f: "ok ?s1" "live ?s1 = (live s)(p := None)"
    using free_fst [of s p] Cons.prems by simp_all
  obtain x where x: "H p = Some x"
    using Cons.prems by auto
  have "seg (en ?H1) g (Some p) c None = seg (en H) g (Some p) c None"
    using Cons.prems(3) by (intro seg_cong) (auto simp: en_def)
  then have sg: "seg (en ?H1) g (Some p) c None"
    using Cons.prems(4) by simp
  have dc: "distinct c" and "\<forall>q \<in> set c. ?H1 q \<noteq> None \<and> live ?s1 q \<noteq> None"
    using Cons.prems(3,5) f(2) by auto
  then obtain s' where s': "chain_free env (first c None) (?s1, ?H1) = Some ((s', ?H1 |` (- set c)), True)" "ok s'"
      "live s' = live ?s1 |` (- set c)"
    using Cons.IH [OF f(1) Cons.prems(2) dc sg] by blast
  have "e_next x = first c None"
    using Cons.prems(4) x by (simp add: en_def)
  then have "chain_free env (first (p # c) None) (s, H) = Some ((s', ?H1 |` (- set c)), True)"
    using x s'(1) Cons.prems(2) by (subst chain_free.simps) (simp add: FreeType_def)
  moreover have "?H1 |` (- set c) = H |` (- set (p # c))" "live ?s1 |` (- set c) = live s |` (- set (p # c))"
    by (auto simp: restrict_map_def fun_eq_iff f(2))
  ultimately show ?case
    using s'(2,3) by simp
qed

end

text \<open>The loop over the buckets on the list of chain heads.\<close>

fun iter_heads :: "(ptr option \<Rightarrow> 'st \<Rightarrow> ('st \<times> bool) option) \<Rightarrow> ptr option list \<Rightarrow> 'st \<Rightarrow> 'st option" where
  "iter_heads body [] st = Some st"
| "iter_heads body (e # es) st =
     (case body e st of None \<Rightarrow> None | Some (st', n) \<Rightarrow> if n then iter_heads body es st' else Some st')"

lemma buckets_for_heads:
  assumes "al_wf b"
  shows "buckets_for b body st = iter_heads body (al_abs b) st"
proof -
  have "list_for (\<lambda>index e acc. case acc of None \<Rightarrow> (None, False)
      | Some st \<Rightarrow> (case body e st of None \<Rightarrow> (None, False) | Some (st, n) \<Rightarrow> (Some st, n))) i es (Some st) =
    iter_heads body es st" for i es st
    by (induction es arbitrary: i st) (auto split: option.splits)
  then show ?thesis
    using assms by (simp add: buckets_for_def al_For_abs)
qed

lemma tab_chains: "tab env H b cs \<Longrightarrow> c \<in> set cs \<Longrightarrow> seg (en H) (ef H) None c None \<and> (\<forall>p \<in> set c. H p \<noteq> None)"
  by (auto simp: tab_def chain_ok_def in_set_conv_nth)

context allocator
begin

lemma free_chains_ok:
  assumes "ok s" "env_ops env = ops" "distinct (concat cs)"
    "\<forall>c \<in> set cs. seg (en H) (ef H) None c None \<and> (\<forall>p \<in> set c. H p \<noteq> None \<and> live s p \<noteq> None)"
  shows "\<exists>s'. iter_heads (chain_free env) (map (\<lambda>c. first c None) cs) (s, H) = Some (s', H |` (- set (concat cs))) \<and>
    ok s' \<and> live s' = live s |` (- set (concat cs))"
  using assms
proof (induction cs arbitrary: s H)
  case (Cons c cs)
  obtain s1 where s1: "chain_free env (first c None) (s, H) = Some ((s1, H |` (- set c)), True)" "ok s1"
    "live s1 = live s |` (- set c)"
    using chain_free_ok [OF Cons.prems(1,2), of c H "ef H" None] Cons.prems(3,4) by auto
  have k: "\<forall>d \<in> set cs. set d \<inter> set c = {}"
    using Cons.prems(3) by auto
  have rest: "\<forall>d \<in> set cs. seg (en (H |` (- set c))) (ef (H |` (- set c))) None d None \<and>
    (\<forall>p \<in> set d. (H |` (- set c)) p \<noteq> None \<and> live s1 p \<noteq> None)"
  proof
    fix d
    assume d: "d \<in> set cs"
    then have m: "(H |` (- set c)) p = H p" "live s1 p = live s p" if "p \<in> set d" for p
      using that k by (auto simp: restrict_map_def s1(3))
    have "seg (en (H |` (- set c))) (ef (H |` (- set c))) None d None = seg (en H) (ef H) None d None"
      by (rule seg_cong) (simp add: ent_defs m)
    then show "seg (en (H |` (- set c))) (ef (H |` (- set c))) None d None \<and>
      (\<forall>p \<in> set d. (H |` (- set c)) p \<noteq> None \<and> live s1 p \<noteq> None)"
      using Cons.prems(4) d m by auto
  qed
  have "distinct (concat cs)"
    using Cons.prems(3) by simp
  then obtain s' where s': "iter_heads (chain_free env) (map (\<lambda>c. first c None) cs) (s1, H |` (- set c)) =
      Some (s', (H |` (- set c)) |` (- set (concat cs)))" "ok s'" "live s' = live s1 |` (- set (concat cs))"
    using Cons.IH [OF s1(2) Cons.prems(2) _ rest] by blast
  then show ?case
    using s1 by (simp add: Un_commute)
qed (simp add: restrict_map_def)

lemma free_tab_ok:
  assumes "ok s" "env_ops env = ops" "tab env H b cs" "tab_own (live s) b cs"
  shows "\<exists>s'. buckets_for b (chain_free env) (s, H) = Some (s', H |` (- set (concat cs))) \<and> ok s' \<and>
    live s' = live s |` (- set (concat cs))"
proof -
  have "\<forall>c \<in> set cs. seg (en H) (ef H) None c None \<and> (\<forall>p \<in> set c. H p \<noteq> None \<and> live s p \<noteq> None)"
    using tab_chains [OF assms(3)] assms(4) by (auto simp: tab_own_def)
  moreover have "al_wf b" "al_abs b = map (\<lambda>c. first c None) cs" "distinct (concat cs)"
    using assms(3) by (auto simp: tab_def)
  ultimately show ?thesis
    using free_chains_ok [OF assms(1,2)] by (simp add: buckets_for_heads)
qed

end

end
