(* ===== verification/Hash_Map_Spec.thy ===== *)
theory Hash_Map_Spec
  imports Hash_Map_Inv
begin

text \<open>
  The contract of the hash table: growing, setting, deleting, clearing and freeing, on top of
  the table lemmas. \<open>hm_inv\<close> relates a table to the map it stands for and to the
  allocations it owns; \<open>F\<close> and \<open>G\<close> are the allocations and the store outside the
  table, which no operation touches.
\<close>

subsection \<open>The invariant\<close>

definition hm_owned :: "HashMap \<Rightarrow> ptr list list \<Rightarrow> ptr set" where
  "hm_owned m cs = insert (hm_self m) (al_ptrs (hm_bucket m) \<union> set (concat cs))"

definition hm_inv ::
    "('s, 'k) hm_env \<Rightarrow> (ptr \<rightharpoonup> nat) \<Rightarrow> ('k, 'v) store \<Rightarrow> (ptr \<rightharpoonup> nat) \<Rightarrow> ('k, 'v) store \<Rightarrow> HashMap \<Rightarrow> ptr list list \<Rightarrow> bool" where
  "hm_inv env F G L H m cs \<longleftrightarrow> tab env H (hm_bucket m) cs \<and> tab_own L (hm_bucket m) cs \<and>
     L (hm_self m) \<noteq> None \<and> hm_self m \<notin> al_ptrs (hm_bucket m) \<union> set (concat cs) \<and>
     hm_len m = length (concat cs) \<and> 8 \<le> length cs \<and> L |` (- hm_owned m cs) = F \<and> H |` dom F = G"

lemma hm_inv_dom: "hm_inv env F G L H m cs \<Longrightarrow> dom F = dom L - hm_owned m cs"
  unfolding hm_inv_def by (metis Diff_eq dom_restrict)

lemma tab_cong:
  assumes "tab env H b cs" "\<And>p. p \<in> set (concat cs) \<Longrightarrow> H' p = H p"
  shows "tab env H' b cs" "tmap H' cs = tmap H cs"
proof -
  have "chain_ok env H' (length cs) i (cs ! i) = chain_ok env H (length cs) i (cs ! i)" if "i < length cs" for i
    using that assms(2) set_concat_nth [OF that] by (intro chain_ok_cong) blast
  moreover have "inj_on (ek H') (set (concat cs)) = inj_on (ek H) (set (concat cs))"
    using assms(2) by (intro inj_on_cong) (simp add: ek_def)
  ultimately show "tab env H' b cs"
    using assms(1) by (simp add: tab_def)
  show "tmap H' cs = tmap H cs"
    unfolding tmap_def using assms(2) by (intro arg_cong [where f = map_of] map_cong refl) (simp add: ek_def ev_def)
qed

lemma tab_nils: "al_wf b \<Longrightarrow> al_abs b = replicate n None \<Longrightarrow> 0 < n \<Longrightarrow> n < 2 ^ 62 \<Longrightarrow> tab env H b (replicate n [])"
  by (simp add: tab_def chain_ok_def)

lemma tmap_nils: "tmap H (replicate n []) = Map.empty"
  by (simp add: tmap_def)

context allocator
begin

lemma add_nils_ok:
  assumes "ok s" "env_ops env = ops" "al_owns (live s) 8 b" "al_len b + n \<le> al_cap b"
  shows "\<exists>b'. add_nils env n s b = (s, b') \<and> al_owns (live s) 8 b' \<and> al_ptrs b' = al_ptrs b \<and>
    al_abs b' = al_abs b @ replicate n None"
  using assms(3,4)
proof (induction n arbitrary: b)
  case (Suc n)
  obtain s1 b1 r where a: "al_Add ops ptrSize (env_raw env) s b None = (s1, b1, r)"
    by (cases "al_Add ops ptrSize (env_raw env) s b None") auto
  have p8: "unat ptrSize = 8"
    by (simp add: ptrSize_def)
  have "al_len b < al_cap b"
    using Suc.prems(2) by simp
  then have r: "r" "s1 = s" "al_cap b1 = al_cap b" "al_data b1 = al_data b" "al_self b1 = al_self b"
    "al_owns (live s) 8 b1" "al_abs b1 = al_abs b @ [None]"
    using al_Add_ok [OF assms(1) _ a] Suc.prems(1) p8 by auto
  have "length (al_abs b1) = al_len b1" "length (al_abs b) = al_len b"
    using r(6) Suc.prems(1) by (simp_all add: al_owns_def)
  then have "al_len b1 + n \<le> al_cap b1"
    using r(3,7) Suc.prems(2) by simp
  then obtain b' where "add_nils env n s b1 = (s, b')" "al_owns (live s) 8 b'" "al_ptrs b' = al_ptrs b1"
    "al_abs b' = al_abs b1 @ replicate n None"
    using Suc.IH [OF r(6)] by auto
  then show ?case
    using a r assms(2) by (simp add: al_ptrs_def)
qed simp

lemma new_buckets_ok:
  assumes "ok s" "env_ops env = ops" "8 \<le> n" "n * 8 + 7 < 2 ^ 64"
    "NewArrayListWithCap ops ptrSize (env_raw env) s (int n) = (s1, Some b)" "add_nils env n s1 b = (s2, b2)"
  shows "ok s2" "tab env H b2 (replicate n [])" "tab_own (live s2) b2 (replicate n [])"
    "\<forall>p \<in> al_ptrs b2. live s p = None" "live s2 |` (- al_ptrs b2) = live s"
proof -
  have p8: "unat ptrSize = 8" "nat (max 8 (int n)) = n"
    using assms(3) by (simp_all add: ptrSize_def)
  have a: "ok s1" "al_owns (live s1) 8 b" "al_abs b = []" "al_len b = 0" "al_cap b = n"
    "\<forall>p \<in> al_ptrs b. live s p = None" "live s1 |` (- al_ptrs b) = live s"
    using al_New_ok [OF assms(1) _ assms(5)] assms(4) p8 by (auto simp: al_new_post_def)
  have b: "s2 = s1" "al_owns (live s1) 8 b2" "al_ptrs b2 = al_ptrs b" "al_abs b2 = replicate n None"
    using add_nils_ok [OF a(1) assms(2) a(2), of n] assms(6) a(3,4,5) by auto
  obtain k where "live s1 (al_data b) = Some k" "n * 8 \<le> k"
    using a(2,5) by (auto simp: al_owns_def)
  then have "n < 2 ^ 62"
    using live_bound [OF a(1), of "al_data b" k] by simp
  then show "tab env H b2 (replicate n [])"
    using b assms(3) by (intro tab_nils) (auto simp: al_owns_def)
  show "ok s2" "tab_own (live s2) b2 (replicate n [])" "\<forall>p \<in> al_ptrs b2. live s p = None"
    "live s2 |` (- al_ptrs b2) = live s"
    using a b by (auto simp: tab_own_def)
qed

lemma hm_Clear_ok:
  assumes "ok s" "env_ops env = ops" and iv: "hm_inv env F G (live s) H m cs"
  shows "\<exists>s' m'. hm_Clear env (s, H) m = Some ((s', H |` (- set (concat cs))), m') \<and> ok s' \<and>
    live s' = live s |` (- set (concat cs)) \<and> hm_self m' = hm_self m \<and> al_ptrs (hm_bucket m') = al_ptrs (hm_bucket m) \<and>
    hm_inv env F G (live s') (H |` (- set (concat cs))) m' (replicate (length cs) [])"
proof -
  let ?b = "hm_bucket m"
  have t: "tab env H ?b cs" and ow: "tab_own (live s) ?b cs"
    using iv by (auto simp: hm_inv_def)
  obtain s' where s': "buckets_for ?b (chain_free env) (s, H) = Some (s', H |` (- set (concat cs)))" "ok s'"
    "live s' = live s |` (- set (concat cs))"
    using free_tab_ok [OF assms(1,2) t ow] by blast
  define clr where "clr = (\<lambda>k. fold (\<lambda>i b. al_Set b (int i) None) [0..<k] ?b)"
  have clr: "al_wf (clr k)" "al_owns L 8 (clr k) = al_owns L 8 ?b" "al_ptrs (clr k) = al_ptrs ?b"
    "al_abs (clr k) = replicate (min k (length cs)) None @ drop k (al_abs ?b)" for k L
  proof (induction k)
    case (Suc k)
    have w: "length (al_abs ?b) = length cs"
      using t by (simp add: tab_def)
    have step: "clr (Suc k) = al_Set (clr k) (int k) None"
      by (simp add: clr_def)
    show "al_wf (clr (Suc k))" "al_owns L 8 (clr (Suc k)) = al_owns L 8 ?b" "al_ptrs (clr (Suc k)) = al_ptrs ?b"
      using Suc by (simp_all add: step)
    show "al_abs (clr (Suc k)) = replicate (min (Suc k) (length cs)) None @ drop (Suc k) (al_abs ?b)"
    proof (cases "k < length cs")
      case True
      then have "drop k (al_abs ?b) = al_abs ?b ! k # drop (Suc k) (al_abs ?b)"
        using w by (simp add: Cons_nth_drop_Suc)
      then show ?thesis
        using True Suc by (simp add: step al_Set_abs list_update_append replicate_append_same)
    next
      case False
      then show ?thesis
        using Suc w by (simp add: step al_Set_abs list_update_beyond)
    qed
  qed (use t in \<open>auto simp: clr_def tab_def\<close>)
  let ?m' = "m\<lparr>hm_bucket := clr (length cs), hm_len := 0\<rparr>"
  have "al_abs (clr (length cs)) = replicate (length cs) None"
    using clr(4) [of "length cs"] t by (simp add: tab_def)
  then have t': "tab env (H |` (- set (concat cs))) (clr (length cs)) (replicate (length cs) [])"
    using t clr(1) by (intro tab_nils) (auto simp: tab_def)
  have "al_owns (live s') 8 ?b"
    by (rule al_owns_cong [of "live s"]) (use ow s'(3) in \<open>auto simp: tab_own_def restrict_map_def\<close>)
  then have "tab_own (live s') (clr (length cs)) (replicate (length cs) [])"
    by (simp add: tab_own_def clr)
  moreover have "live s' |` (- insert (hm_self m) (al_ptrs ?b)) = F"
  proof -
    have "- set (concat cs) \<inter> - insert (hm_self m) (al_ptrs ?b) = - hm_owned m cs"
      by (auto simp: hm_owned_def)
    then have "live s' |` (- insert (hm_self m) (al_ptrs ?b)) = live s |` (- hm_owned m cs)"
      by (simp only: s'(3) restrict_restrict)
    then show ?thesis
      using iv by (simp only: hm_inv_def)
  qed
  moreover have "(H |` (- set (concat cs))) |` dom F = G"
  proof -
    have "dom F \<inter> set (concat cs) = {}"
      unfolding hm_inv_dom [OF iv] hm_owned_def by auto
    then have "- set (concat cs) \<inter> dom F = dom F"
      by auto
    then have "(H |` (- set (concat cs))) |` dom F = H |` dom F"
      by (simp only: restrict_restrict)
    then show ?thesis
      using iv by (simp only: hm_inv_def)
  qed
  moreover have "live s' (hm_self m) \<noteq> None"
    using iv unfolding s'(3) hm_inv_def by simp
  ultimately have "hm_inv env F G (live s') (H |` (- set (concat cs))) ?m' (replicate (length cs) [])"
    using iv t' by (simp add: hm_inv_def hm_owned_def clr)
  moreover have "hm_Clear env (s, H) m = Some ((s', H |` (- set (concat cs))), ?m')"
    using s'(1) tab_len [OF t] by (simp add: hm_Clear_def clr_def al_Len_def)
  ultimately show ?thesis
    using s'(2,3) clr(3) by auto
qed

end

subsection \<open>Growing\<close>

lemma hm_inv_put:
  assumes iv: "hm_inv env F G L H m cs" and pp: "put_post env L H (hm_bucket m) cs k v L' H' b' cs' r"
  shows "hm_inv env F G L' H' (m\<lparr>hm_bucket := b', hm_len := (if r = Inserted then Suc (hm_len m) else hm_len m)\<rparr>) cs'"
proof -
  have i: "L (hm_self m) \<noteq> None" "hm_self m \<notin> al_ptrs (hm_bucket m) \<union> set (concat cs)" "hm_len m = length (concat cs)"
    "8 \<le> length cs" "L |` (- hm_owned m cs) = F" "H |` dom F = G"
    using iv by (auto simp: hm_inv_def)
  have p: "tab env H' b' cs'" "tab_own L' b' cs'" "al_ptrs b' = al_ptrs (hm_bucket m)" "length cs' = length cs"
    using pp by (auto simp: put_post_def)
  have dF: "p \<notin> set (concat cs)" "L p \<noteq> None" if "p \<in> dom F" for p
    using that by (auto simp: hm_inv_dom [OF iv] hm_owned_def)
  show ?thesis
  proof (cases r)
    case Inserted
    then obtain p n where q: "L p = None" "L' = L(p \<mapsto> n)" "set (concat cs') = insert p (set (concat cs))"
      "length (concat cs') = Suc (length (concat cs))" "\<forall>q. q \<noteq> p \<longrightarrow> q \<notin> set (concat cs) \<longrightarrow> H' q = H q"
      using pp by (auto simp: put_post_def)
    have "H' q = H q" if "q \<in> dom F" for q
      using dF [OF that] q(1,5) by metis
    then have "H' |` dom F = G"
      unfolding i(6) [symmetric] by (auto simp: restrict_map_def fun_eq_iff)
    moreover have "L' |` (- insert (hm_self m) (al_ptrs b' \<union> set (concat cs'))) = F"
      unfolding i(5) [symmetric] p(3) q(2,3) hm_owned_def using q(1) by (auto simp: restrict_map_def fun_eq_iff)
    moreover have "hm_self m \<noteq> p"
      using i(1) q(1) by auto
    then have "hm_self m \<notin> al_ptrs b' \<union> set (concat cs')" "L' (hm_self m) \<noteq> None"
      using i(1,2) unfolding q(2,3) p(3) by auto
    ultimately show ?thesis
      using p(1,2,4) i(3,4) q(4) Inserted unfolding hm_inv_def hm_owned_def by simp
  next
    case Replaced
    then have q: "L' = L" "cs' = cs" "\<forall>p. p \<notin> set (concat cs) \<longrightarrow> H' p = H p"
      using pp by (auto simp: put_post_def)
    have "H' p = H p" if "p \<in> dom F" for p
      using dF [OF that] q(3) by blast
    then have "H' |` dom F = G"
      unfolding i(6) [symmetric] by (auto simp: restrict_map_def fun_eq_iff)
    then show ?thesis
      using p i q(1,2) Replaced by (simp add: hm_inv_def hm_owned_def)
  next
    case Failed
    then have "L' = L" "H' = H" "b' = hm_bucket m" "cs' = cs"
      using pp by (auto simp: put_post_def)
    then show ?thesis
      using iv Failed by simp
  qed
qed

definition dmap :: "('k, 'v) store \<Rightarrow> ptr list \<Rightarrow> 'k \<rightharpoonup> 'v" where
  "dmap H ps = map_of (map (\<lambda>p. (ek H p, ev H p)) ps)"

lemma dmap_None: "k \<notin> ek H ` set ps \<Longrightarrow> dmap H ps k = None"
  by (auto simp: dmap_def map_of_eq_None_iff)

lemma dmap_snoc:
  assumes "ek H p \<notin> ek H ` set ps"
  shows "dmap H (ps @ [p]) = (dmap H ps)(ek H p \<mapsto> ev H p)"
proof -
  have "dmap H (ps @ [p]) = [ek H p \<mapsto> ev H p] ++ dmap H ps"
    by (simp add: dmap_def)
  then show ?thesis
    using dmap_None [OF assms] by (auto simp: map_add_def fun_eq_iff split: option.splits)
qed

text \<open>The loop invariant of rehashing: the new table \<open>ds\<close> holds copies of the visited entries, the
  old entries and every other allocation are as they were.\<close>

definition grow_inv ::
    "('s, 'k) hm_env \<Rightarrow> ptr set \<Rightarrow> (ptr \<rightharpoonup> nat) \<Rightarrow> ('k, 'v) store \<Rightarrow> ptr list list \<Rightarrow> ptr list \<Rightarrow> ptr list list \<Rightarrow>
     (ptr \<rightharpoonup> nat) \<Rightarrow> ('k, 'v) store \<Rightarrow> ptr option ArrayList \<Rightarrow> nat \<Rightarrow> bool" where
  "grow_inv env bp L1 H0 cs ps ds L' H' b l \<longleftrightarrow> tab env H' b ds \<and> tab_own L' b ds \<and>
     set (concat ds) \<inter> set (concat cs) = {} \<and> (\<forall>p. p \<notin> set (concat ds) \<longrightarrow> H' p = H0 p) \<and>
     tmap H' ds = dmap H0 ps \<and> l = length (concat ds) \<and> L' |` (- set (concat ds)) = L1 \<and> al_ptrs b = bp \<and>
     (\<forall>p \<in> set (concat ds). L1 p = None) \<and> length ds = length cs * 2"

context allocator
begin

lemma grow_step_ok:
  assumes "ok s" "env_ops env = ops" "env_ok env" and gi: "grow_inv env bp L1 H0 cs ps ds (live s) H' b l"
    and p: "p \<in> set (concat cs)" and lv: "\<forall>q \<in> set (concat cs). L1 q \<noteq> None"
    and k: "ek H0 p \<notin> ek H0 ` set ps"
  shows "\<exists>s2 H2 b2 l2 n ds2. grow_step env (ek H0 p) (ev H0 p) ((s, H'), b, l, False) =
      Some (((s2, H2), b2, l2, \<not> n), n) \<and> ok s2 \<and>
    grow_inv env bp L1 H0 cs (if n then ps @ [p] else ps) ds2 (live s2) H2 b2 l2"
proof -
  have t: "tab env H' b ds" and ow: "tab_own (live s) b ds" and dj: "set (concat ds) \<inter> set (concat cs) = {}"
    and fr: "\<forall>q. q \<notin> set (concat ds) \<longrightarrow> H' q = H0 q" and tm: "tmap H' ds = dmap H0 ps"
    and l: "l = length (concat ds)" and L1: "live s |` (- set (concat ds)) = L1"
    and bp: "al_ptrs b = bp" and nl: "\<forall>q \<in> set (concat ds). L1 q = None" and ld: "length ds = length cs * 2"
    using gi by (auto simp: grow_inv_def)
  obtain s2 H2 b2 ds2 r where c: "chain_put env (s, H') b (ek H0 p) (ev H0 p) = Some ((s2, H2), b2, r)" "ok s2"
    "put_post env (live s) H' b ds (ek H0 p) (ev H0 p) (live s2) H2 b2 ds2 r"
    using chain_put_ok [OF assms(1-3) t ow] by blast
  have nk: "tmap H' ds (ek H0 p) = None"
    unfolding tm using k by (rule dmap_None)
  have pp: "tab env H2 b2 ds2" "tab_own (live s2) b2 ds2" "al_ptrs b2 = bp" "length ds2 = length cs * 2"
    using c(3) bp ld by (auto simp: put_post_def)
  show ?thesis
  proof (cases r)
    case Replaced
    then show ?thesis
      using c(3) nk by (simp add: put_post_def)
  next
    case Failed
    then have "live s2 = live s" "H2 = H'" "b2 = b" "ds2 = ds"
      using c(3) by (auto simp: put_post_def)
    then show ?thesis
      using c(1,2) gi Failed by (auto simp: grow_step_def)
  next
    case Inserted
    then obtain q z where q: "live s q = None" "live s2 = (live s)(q \<mapsto> z)"
      "set (concat ds2) = insert q (set (concat ds))" "length (concat ds2) = Suc (length (concat ds))"
      "\<forall>x. x \<noteq> q \<longrightarrow> x \<notin> set (concat ds) \<longrightarrow> H2 x = H' x" "tmap H2 ds2 = (tmap H' ds)(ek H0 p \<mapsto> ev H0 p)"
      using c(3) unfolding put_post_def put_result.case Inserted by blast
    have ql: "L1 q = None"
      using q(1) unfolding L1 [symmetric] by (simp add: restrict_map_def)
    then have "q \<notin> set (concat cs)"
      using lv by metis
    then have "set (concat ds2) \<inter> set (concat cs) = {}"
      using dj unfolding q(3) by blast
    moreover have "\<forall>x. x \<notin> set (concat ds2) \<longrightarrow> H2 x = H0 x"
      using q(5) fr unfolding q(3) by simp
    moreover have "tmap H2 ds2 = dmap H0 (ps @ [p])"
      unfolding q(6) tm using k by (rule dmap_snoc [symmetric])
    moreover have "live s2 |` (- set (concat ds2)) = L1"
      unfolding q(2,3) L1 [symmetric] using q(1) by (auto simp: restrict_map_def fun_eq_iff)
    moreover have "\<forall>x \<in> set (concat ds2). L1 x = None"
      using nl ql unfolding q(3) by simp
    ultimately have "grow_inv env bp L1 H0 cs (ps @ [p]) ds2 (live s2) H2 b2 (l + 1)"
      using pp l q(4) by (simp only: grow_inv_def) simp
    moreover have "grow_step env (ek H0 p) (ev H0 p) ((s, H'), b, l, False) = Some (((s2, H2), b2, l + 1, False), True)"
      using c(1) Inserted by (simp add: grow_step_def)
    ultimately show ?thesis
      using c(2) by (intro exI [of _ s2] exI [of _ H2] exI [of _ b2] exI [of _ "l + 1"] exI [of _ True] exI [of _ ds2]) simp
  qed
qed

lemma chain_for_grow:
  assumes "ok s" "env_ops env = ops" "env_ok env" "grow_inv env bp L1 H0 cs ps ds (live s) H' b l"
    "seg (en H0) g q c None" "set c \<subseteq> set (concat cs)" "\<forall>p \<in> set (concat cs). L1 p \<noteq> None \<and> H0 p \<noteq> None"
    "distinct (map (ek H0) (ps @ c))"
  shows "\<exists>s2 H2 b2 l2 n ps2 ds2. chain_for (grow_step env) (\<lambda>(st, _). snd st) (first c None) ((s, H'), b, l, False) =
      Some (((s2, H2), b2, l2, \<not> n), n) \<and> ok s2 \<and>
    grow_inv env bp L1 H0 cs ps2 ds2 (live s2) H2 b2 l2 \<and> (n \<longrightarrow> ps2 = ps @ c)"
  using assms
proof (induction c arbitrary: s H' b l ps ds q)
  case Nil
  then show ?case
    by (subst chain_for.simps) fastforce
next
  case (Cons p c)
  have p: "p \<in> set (concat cs)" and lv: "\<forall>q \<in> set (concat cs). L1 q \<noteq> None" and k: "ek H0 p \<notin> ek H0 ` set ps"
    using Cons.prems(6,7,8) by auto
  obtain s2 H2 b2 l2 n ds2 where st: "grow_step env (ek H0 p) (ev H0 p) ((s, H'), b, l, False) =
      Some (((s2, H2), b2, l2, \<not> n), n)" "ok s2"
    "grow_inv env bp L1 H0 cs (if n then ps @ [p] else ps) ds2 (live s2) H2 b2 l2"
    using grow_step_ok [OF Cons.prems(1-4) p lv k] by blast
  have "p \<notin> set (concat ds)"
    using Cons.prems(4) p unfolding grow_inv_def by blast
  then have "H' p = H0 p"
    using Cons.prems(4) unfolding grow_inv_def by blast
  moreover obtain x where "H0 p = Some x"
    using Cons.prems(7) p by blast
  ultimately have x: "H' p = Some x" "ek H0 p = e_key x" "ev H0 p = e_value x" "e_next x = first c None"
    using Cons.prems(5) by (auto simp: ek_def ev_def en_def)
  have step: "chain_for (grow_step env) (\<lambda>(st, _). snd st) (first (p # c) None) ((s, H'), b, l, False) =
    (if n then chain_for (grow_step env) (\<lambda>(st, _). snd st) (first c None) ((s2, H2), b2, l2, False)
     else Some (((s2, H2), b2, l2, True), False))"
    using x st(1) by (subst chain_for.simps) simp
  show ?case
  proof (cases n)
    case True
    have "\<exists>s3 H3 b3 l3 n ps2 ds2. chain_for (grow_step env) (\<lambda>(st, _). snd st) (first c None) ((s2, H2), b2, l2, False) =
      Some (((s3, H3), b3, l3, \<not> n), n) \<and> ok s3 \<and>
      grow_inv env bp L1 H0 cs ps2 ds2 (live s3) H3 b3 l3 \<and> (n \<longrightarrow> ps2 = (ps @ [p]) @ c)"
      by (rule Cons.IH [OF st(2) Cons.prems(2,3), where ds = ds2 and q = "Some p"])
        (use Cons.prems st(3) True in auto)
    then show ?thesis
      unfolding step using True by simp
  next
    case False
    then show ?thesis
      unfolding step using st by (intro exI conjI) auto
  qed
qed

lemma heads_for_grow:
  assumes "ok s" "env_ops env = ops" "env_ok env" "grow_inv env bp L1 H0 cs ps ds (live s) H' b l"
    "\<forall>c \<in> set es. seg (en H0) (ef H0) None c None" "set (concat es) \<subseteq> set (concat cs)"
    "\<forall>p \<in> set (concat cs). L1 p \<noteq> None \<and> H0 p \<noteq> None" "distinct (map (ek H0) (ps @ concat es))"
  shows "\<exists>s2 H2 b2 l2 fail ps2 ds2.
    iter_heads (chain_for (grow_step env) (\<lambda>(st, _). snd st)) (map (\<lambda>c. first c None) es) ((s, H'), b, l, False) =
      Some ((s2, H2), b2, l2, fail) \<and> ok s2 \<and>
    grow_inv env bp L1 H0 cs ps2 ds2 (live s2) H2 b2 l2 \<and> (\<not> fail \<longrightarrow> ps2 = ps @ concat es)"
  using assms
proof (induction es arbitrary: s H' b l ps ds)
  case Nil
  then show ?case
    by fastforce
next
  case (Cons c es)
  have c: "seg (en H0) (ef H0) None c None" "set c \<subseteq> set (concat cs)" "distinct (map (ek H0) (ps @ c))"
    using Cons.prems(5,6,8) by auto
  obtain s2 H2 b2 l2 n ps2 ds2 where st:
    "chain_for (grow_step env) (\<lambda>(st, _). snd st) (first c None) ((s, H'), b, l, False) =
      Some (((s2, H2), b2, l2, \<not> n), n)" "ok s2"
    "grow_inv env bp L1 H0 cs ps2 ds2 (live s2) H2 b2 l2" "n \<longrightarrow> ps2 = ps @ c"
    using chain_for_grow [OF Cons.prems(1-4) c(1,2) Cons.prems(7) c(3)] by blast
  show ?case
  proof (cases n)
    case True
    have "\<exists>s3 H3 b3 l3 fail ps3 ds3.
      iter_heads (chain_for (grow_step env) (\<lambda>(st, _). snd st)) (map (\<lambda>c. first c None) es) ((s2, H2), b2, l2, False) =
        Some ((s3, H3), b3, l3, fail) \<and> ok s3 \<and>
      grow_inv env bp L1 H0 cs ps3 ds3 (live s3) H3 b3 l3 \<and> (\<not> fail \<longrightarrow> ps3 = (ps @ c) @ concat es)"
      by (rule Cons.IH [OF st(2) Cons.prems(2,3), where ds = ds2]) (use Cons.prems st(3,4) True in auto)
    then show ?thesis
      using st(1) True by simp
  next
    case False
    then show ?thesis
      using st by (simp, metis)
  qed
qed

lemma grow_bound:
  assumes "ok s" "hm_inv env F G (live s) H m cs"
  shows "length cs * 2 * 8 + 7 < 2 ^ 64"
proof -
  have t: "tab env H (hm_bucket m) cs" and "al_owns (live s) 8 (hm_bucket m)"
    using assms(2) by (auto simp: hm_inv_def tab_own_def)
  then obtain k where k: "live s (al_data (hm_bucket m)) = Some k" "al_cap (hm_bucket m) * 8 \<le> k"
    "al_len (hm_bucket m) \<le> al_cap (hm_bucket m)"
    by (auto simp: al_owns_def al_wf_def)
  then show ?thesis
    using live_bound [OF assms(1) k(1)] tab_len [OF t] by simp
qed

text \<open>The state after a complete or an aborted rehashing loop.\<close>

lemma grow_loop_ok:
  assumes "ok s" "env_ops env = ops" "env_ok env" and iv: "hm_inv env F G (live s) H m cs"
    and nw: "NewArrayListWithCap ops ptrSize (env_raw env) s (int (length cs * 2)) = (s1, Some b)"
      "add_nils env (length cs * 2) s1 b = (s2, b2)"
  shows "\<exists>s3 H3 b3 l fail ps ds. hm_For (grow_step env) (\<lambda>(st, _). snd st) m ((s2, H), b2, 0, False) =
      Some ((s3, H3), b3, l, fail) \<and> ok s3 \<and>
    grow_inv env (al_ptrs b2) (live s2) H cs ps ds (live s3) H3 b3 l \<and> (\<not> fail \<longrightarrow> ps = concat cs)"
    "\<forall>p \<in> al_ptrs b2. live s p = None" "live s2 |` (- al_ptrs b2) = live s"
proof -
  have t: "tab env H (hm_bucket m) cs" and ow: "tab_own (live s) (hm_bucket m) cs" and n8: "8 \<le> length cs * 2"
    using iv by (auto simp: hm_inv_def)
  note nb = new_buckets_ok [OF assms(1,2) n8 grow_bound [OF assms(1) iv] nw]
  show "\<forall>p \<in> al_ptrs b2. live s p = None" "live s2 |` (- al_ptrs b2) = live s"
    by (rule nb(4), rule nb(5))
  have gi: "grow_inv env (al_ptrs b2) (live s2) H cs [] (replicate (length cs * 2) []) (live s2) H b2 0"
    using nb(2) [of H] nb(3) by (simp add: grow_inv_def dmap_def tmap_nils restrict_map_def)
  have lv: "live s2 p \<noteq> None" if "live s p \<noteq> None" for p
    using that unfolding nb(5) [symmetric] by (auto simp: restrict_map_def split: if_splits)
  have "\<forall>p \<in> set (concat cs). live s2 p \<noteq> None \<and> H p \<noteq> None"
    using ow tab_chains [OF t] lv by (auto simp: tab_own_def)
  moreover have "\<forall>c \<in> set cs. seg (en H) (ef H) None c None"
    using tab_chains [OF t] by blast
  moreover have "distinct (map (ek H) ([] @ concat cs))"
    using t by (simp add: tab_def distinct_map)
  moreover have "hm_For (grow_step env) (\<lambda>(st, _). snd st) m ((s2, H), b2, 0, False) =
    iter_heads (chain_for (grow_step env) (\<lambda>(st, _). snd st)) (map (\<lambda>c. first c None) cs) ((s2, H), b2, 0, False)"
    using t by (simp add: hm_For_def buckets_for_heads tab_def)
  ultimately show "\<exists>s3 H3 b3 l fail ps ds. hm_For (grow_step env) (\<lambda>(st, _). snd st) m ((s2, H), b2, 0, False) =
      Some ((s3, H3), b3, l, fail) \<and> ok s3 \<and>
    grow_inv env (al_ptrs b2) (live s2) H cs ps ds (live s3) H3 b3 l \<and> (\<not> fail \<longrightarrow> ps = concat cs)"
    using heads_for_grow [OF nb(1) assms(2,3) gi, of cs] by auto
qed

lemma grow_abort_ok:
  assumes "ok s3" "env_ops env = ops" and iv: "hm_inv env F G L H m cs"
    and gi: "grow_inv env (al_ptrs b2) L1 H cs ps ds (live s3) H3 b3 l"
    and bp: "\<forall>p \<in> al_ptrs b2. L p = None" "L1 |` (- al_ptrs b2) = L"
  shows "\<exists>s4 H4. buckets_for b3 (chain_free env) (s3, H3) = Some (s4, H4) \<and> ok (al_Free ops s4 b3) \<and>
    live (al_Free ops s4 b3) = L \<and> hm_inv env F G L H4 m cs \<and> tmap H4 cs = tmap H cs"
proof -
  have g: "tab env H3 b3 ds" "tab_own (live s3) b3 ds" "set (concat ds) \<inter> set (concat cs) = {}"
    "\<forall>p. p \<notin> set (concat ds) \<longrightarrow> H3 p = H p" "live s3 |` (- set (concat ds)) = L1" "al_ptrs b3 = al_ptrs b2"
    "\<forall>p \<in> set (concat ds). L1 p = None"
    using gi by (auto simp: grow_inv_def)
  let ?H4 = "H3 |` (- set (concat ds))"
  obtain s4 where s4: "buckets_for b3 (chain_free env) (s3, H3) = Some (s4, ?H4)" "ok s4" "live s4 = L1"
    using free_tab_ok [OF assms(1,2) g(1,2)] g(5) by metis
  have "al_owns (live s3) 8 b3" "set (concat ds) \<inter> al_ptrs b3 = {}"
    using g(2) by (auto simp: tab_own_def)
  then have "al_owns (live s4) 8 b3"
    unfolding s4(3) g(5) [symmetric] by - (rule al_owns_cong [of "live s3"], auto simp: restrict_map_def)
  note fr = al_Free_ok [OF s4(2) this]
  have same: "?H4 p = H p" if "p \<notin> set (concat ds)" for p
    using that g(4) by simp
  have "tab env H (hm_bucket m) cs"
    using iv by (simp add: hm_inv_def)
  then have t4: "tab env ?H4 (hm_bucket m) cs" "tmap ?H4 cs = tmap H cs"
    by (rule tab_cong; use same g(3) in blast)+
  have "dom F \<inter> set (concat ds) = {}"
  proof -
    have "L p = None" if "p \<in> set (concat ds)" for p
      using that g(7) unfolding bp(2) [symmetric] by (metis restrict_map_def)
    then have "p \<notin> dom L" if "p \<in> set (concat ds)" for p
      using that by (simp only: domIff not_not)
    then show ?thesis
      unfolding hm_inv_dom [OF iv] by blast
  qed
  then have "?H4 |` dom F = H |` dom F"
    using same by (auto simp: restrict_map_def fun_eq_iff)
  then have "hm_inv env F G L ?H4 m cs"
    using iv t4(1) by (simp add: hm_inv_def)
  moreover have "live (al_Free ops s4 b3) = L"
    using fr(2) by (simp only: s4(3) g(6) bp(2))
  ultimately show ?thesis
    using s4(1) fr(1) t4(2) by blast
qed

lemma grow_commit_ok:
  assumes "ok s3" "env_ops env = ops" and iv: "hm_inv env F G L H m cs"
    and gi: "grow_inv env (al_ptrs b2) L1 H cs (concat cs) ds (live s3) H3 b3 l"
    and bp: "\<forall>p \<in> al_ptrs b2. L p = None" "L1 |` (- al_ptrs b2) = L"
  shows "\<exists>s4 H4 m4. hm_Clear env (s3, H3) m = Some ((s4, H4), m4) \<and> ok (al_Free ops s4 (hm_bucket m4)) \<and>
    hm_inv env F G (live (al_Free ops s4 (hm_bucket m4))) H4 (m4\<lparr>hm_bucket := b3, hm_len := l\<rparr>) ds \<and>
    tmap H4 ds = tmap H cs"
proof -
  have g: "tab env H3 b3 ds" "tab_own (live s3) b3 ds" "set (concat ds) \<inter> set (concat cs) = {}"
    "\<forall>p. p \<notin> set (concat ds) \<longrightarrow> H3 p = H p" "live s3 |` (- set (concat ds)) = L1" "al_ptrs b3 = al_ptrs b2"
    "\<forall>p \<in> set (concat ds). L1 p = None" "tmap H3 ds = tmap H cs" "l = length (concat ds)" "length ds = length cs * 2"
    using gi by (auto simp: grow_inv_def dmap_def tmap_def)
  have i: "tab env H (hm_bucket m) cs" "tab_own L (hm_bucket m) cs" "L (hm_self m) \<noteq> None"
    "hm_self m \<notin> al_ptrs (hm_bucket m) \<union> set (concat cs)" "hm_len m = length (concat cs)" "8 \<le> length cs"
    "L |` (- hm_owned m cs) = F" "H |` dom F = G"
    using iv by (auto simp: hm_inv_def)
  have ownL: "L p \<noteq> None" if "p \<in> hm_owned m cs" for p
    using that i(2,3) by (auto simp: hm_owned_def tab_own_def al_owns_def al_ptrs_def)
  have L1: "L1 p = L p" if "p \<notin> al_ptrs b2" for p
    using that unfolding bp(2) [symmetric] by simp
  have Ln: "L p = None" if "p \<in> al_ptrs b2 \<union> set (concat ds)" for p
    using that bp(1) g(7) L1 by (metis UnE)
  have l3: "live s3 p = L p" if "p \<notin> al_ptrs b2 \<union> set (concat ds)" for p
    using that L1 [of p] fun_cong [OF g(5), of p] by (simp add: restrict_map_def)
  have dj: "hm_owned m cs \<inter> (al_ptrs b2 \<union> set (concat ds)) = {}"
    using ownL Ln by blast
  then have l3o: "live s3 p = L p" if "p \<in> hm_owned m cs" for p
    using that l3 by blast
  define F2 where "F2 = live s3 |` (- hm_owned m cs)"
  have "tab env H3 (hm_bucket m) cs"
    using i(1) by (rule tab_cong) (use g(3,4) in blast)
  moreover have "tab_own (live s3) (hm_bucket m) cs"
    using i(2) l3o al_owns_cong [of L 8 "hm_bucket m" "live s3"] by (auto simp: tab_own_def hm_owned_def)
  ultimately have iv3: "hm_inv env F2 (H3 |` dom F2) (live s3) H3 m cs"
    using i(3-6) l3o by (simp add: hm_inv_def F2_def hm_owned_def)
  let ?H4 = "H3 |` (- set (concat cs))"
  obtain s4 m4 where c: "hm_Clear env (s3, H3) m = Some ((s4, ?H4), m4)" "ok s4" "live s4 = live s3 |` (- set (concat cs))"
    "hm_self m4 = hm_self m" "al_ptrs (hm_bucket m4) = al_ptrs (hm_bucket m)"
    "hm_inv env F2 (H3 |` dom F2) (live s4) ?H4 m4 (replicate (length cs) [])"
    using hm_Clear_ok [OF assms(1,2) iv3] by blast
  have "al_owns (live s4) 8 (hm_bucket m4)"
    using c(6) by (simp add: hm_inv_def tab_own_def)
  note fr = al_Free_ok [OF c(2) this]
  let ?L5 = "live (al_Free ops s4 (hm_bucket m4))"
  have l5: "?L5 p = (if p \<in> set (concat cs) \<union> al_ptrs (hm_bucket m) then None else live s3 p)" for p
    unfolding fr(2) c(3,5) by (auto simp: restrict_map_def)
  have out: "p \<notin> set (concat cs) \<union> al_ptrs (hm_bucket m)" if "p \<in> al_ptrs b2 \<union> set (concat ds)" for p
    using that dj by (auto simp: hm_owned_def)
  have t4: "tab env ?H4 b3 ds" "tmap ?H4 ds = tmap H3 ds"
    using g(1) by (rule tab_cong; use g(3) in \<open>auto simp: restrict_map_def\<close>)+
  have "al_owns ?L5 8 b3"
    by (rule al_owns_cong [of "live s3"]) (use g(2,6) out in \<open>auto simp: tab_own_def l5\<close>)
  then have "tab_own ?L5 b3 ds"
    using g(2) out unfolding tab_own_def by (simp add: l5)
  moreover have "?L5 (hm_self m) \<noteq> None" "hm_self m \<notin> al_ptrs b3 \<union> set (concat ds)"
    using i(3,4) l3o dj g(6) by (auto simp: l5 hm_owned_def)
  moreover have "?L5 |` (- insert (hm_self m) (al_ptrs b3 \<union> set (concat ds))) = F"
    unfolding i(7) [symmetric] using l3 Ln by (auto simp: fun_eq_iff restrict_map_def l5 hm_owned_def g(6))
  moreover have "?H4 |` dom F = G"
  proof -
    have "?H4 p = H p" if "p \<in> dom F" for p
    proof -
      have "p \<in> dom L" "p \<notin> set (concat cs)"
        using that unfolding hm_inv_dom [OF iv] by (auto simp: hm_owned_def)
      then show ?thesis
        using Ln [of p] g(4) by (metis ComplI Un_iff domIff restrict_in)
    qed
    then have "?H4 |` dom F = H |` dom F"
      by (auto simp: restrict_map_def fun_eq_iff)
    then show ?thesis
      using i(8) by simp
  qed
  ultimately have "hm_inv env F G ?L5 ?H4 (m4\<lparr>hm_bucket := b3, hm_len := l\<rparr>) ds"
    using t4(1) g(9,10) i(6) c(4) by (simp add: hm_inv_def hm_owned_def)
  then show ?thesis
    using c(1) fr(1) t4(2) g(8) by auto
qed

lemma hm_Grow_ok:
  assumes "ok s" "env_ops env = ops" "env_ok env" and iv: "hm_inv env F G (live s) H m cs"
  shows "\<exists>s' H' m' cs'. hm_Grow env (s, H) m = Some ((s', H'), m') \<and> ok s' \<and>
    hm_inv env F G (live s') H' m' cs' \<and> tmap H' cs' = tmap H cs"
proof -
  have t: "tab env H (hm_bucket m) cs" and n8: "8 \<le> length cs * 2"
    using iv by (auto simp: hm_inv_def)
  have n: "al_Len (hm_bucket m) = length cs"
    using tab_len [OF t] by (simp add: al_Len_def)
  obtain s1 r where nw: "NewArrayListWithCap ops ptrSize (env_raw env) s (int (length cs * 2)) = (s1, r)"
    by (cases "NewArrayListWithCap ops ptrSize (env_raw env) s (int (length cs * 2))") auto
  show ?thesis
  proof (cases r)
    case None
    have "ok s1" "live s1 = live s"
      using al_New_ok [OF assms(1) _ nw] None grow_bound [OF assms(1) iv] n8 by (auto simp: ptrSize_def al_new_post_def)
    then show ?thesis
      using iv nw None n assms(2) by (auto simp: hm_Grow_def)
  next
    case (Some b)
    obtain s2 b2 where ad: "add_nils env (length cs * 2) s1 b = (s2, b2)"
      by (cases "add_nils env (length cs * 2) s1 b") auto
    note gl = grow_loop_ok [OF assms(1-3) iv nw [unfolded Some] ad]
    obtain s3 H3 b3 l fail ps ds where
      lp: "hm_For (grow_step env) (\<lambda>(st, _). snd st) m ((s2, H), b2, 0, False) = Some ((s3, H3), b3, l, fail)" "ok s3"
        "grow_inv env (al_ptrs b2) (live s2) H cs ps ds (live s3) H3 b3 l" "\<not> fail \<Longrightarrow> ps = concat cs"
      using gl(1) by blast
    show ?thesis
    proof (cases fail)
      case True
      then show ?thesis
        using grow_abort_ok [OF lp(2) assms(2) iv lp(3) gl(2,3)] nw Some ad lp(1) n assms(2)
        by (auto simp: hm_Grow_def)
    next
      case False
      then show ?thesis
        using grow_commit_ok [OF lp(2) assms(2) iv lp(3) [unfolded lp(4) [OF False]] gl(2,3)] nw Some ad lp(1) n assms(2)
        by (fastforce simp: hm_Grow_def)
    qed
  qed
qed

lemma hm_Set_ok:
  assumes "ok s" "env_ops env = ops" "env_ok env" and iv: "hm_inv env F G (live s) H m cs"
  shows "\<exists>s' H' m' cs' r. hm_Set env (s, H) m k v = Some ((s', H'), m', r) \<and> ok s' \<and>
    hm_inv env F G (live s') H' m' cs' \<and> tmap H' cs' = (if r then (tmap H cs)(k \<mapsto> v) else tmap H cs) \<and>
    (tmap H cs k \<noteq> None \<longrightarrow> r)"
proof -
  have t: "tab env H (hm_bucket m) cs" "tab_own (live s) (hm_bucket m) cs"
    using iv by (auto simp: hm_inv_def)
  obtain s1 H1 b1 cs1 r where pt: "chain_put env (s, H) (hm_bucket m) k v = Some ((s1, H1), b1, r)" "ok s1"
    "put_post env (live s) H (hm_bucket m) cs k v (live s1) H1 b1 cs1 r"
    using chain_put_ok [OF assms(1-3) t] by blast
  note iv1 = hm_inv_put [OF iv pt(3)]
  show ?thesis
  proof (cases r)
    case Inserted
    then have tm: "tmap H1 cs1 = (tmap H cs)(k \<mapsto> v)"
      using pt(3) by (simp add: put_post_def)
    have iv2: "hm_inv env F G (live s1) H1 (m\<lparr>hm_bucket := b1, hm_len := Suc (hm_len m)\<rparr>) cs1"
      using iv1 Inserted by simp
    obtain s2 H2 m2 cs2 where g: "hm_Grow env (s1, H1) (m\<lparr>hm_bucket := b1, hm_len := Suc (hm_len m)\<rparr>) = Some ((s2, H2), m2)"
      "ok s2" "hm_inv env F G (live s2) H2 m2 cs2" "tmap H2 cs2 = tmap H1 cs1"
      using hm_Grow_ok [OF pt(2) assms(2,3) iv2] by blast
    show ?thesis
    proof (cases "al_Len b1 * 3 div 4 < Suc (hm_len m)")
      case True
      then have "hm_Set env (s, H) m k v = Some ((s2, H2), m2, True)"
        using g(1) pt(1) Inserted by (simp add: hm_Set_def)
      then show ?thesis
        using g(2-4) tm by simp blast
    next
      case False
      then have "hm_Set env (s, H) m k v = Some ((s1, H1), m\<lparr>hm_bucket := b1, hm_len := Suc (hm_len m)\<rparr>, True)"
        using pt(1) Inserted by (simp add: hm_Set_def)
      then show ?thesis
        using iv2 pt(2) tm by simp blast
    qed
  qed (use iv1 pt in \<open>auto simp: hm_Set_def put_post_def\<close>)
qed

lemma hm_Free_ok:
  assumes "ok s" "env_ops env = ops" and iv: "hm_inv env F G (live s) H m cs"
  shows "\<exists>s' H'. hm_Free env (s, H) m = Some (s', H') \<and> ok s' \<and> live s' = F \<and> H' |` dom F = G"
proof -
  let ?H = "H |` (- set (concat cs))"
  obtain s1 m1 where c: "hm_Clear env (s, H) m = Some ((s1, ?H), m1)" "ok s1" "live s1 = live s |` (- set (concat cs))"
    "hm_self m1 = hm_self m" "al_ptrs (hm_bucket m1) = al_ptrs (hm_bucket m)"
    "hm_inv env F G (live s1) ?H m1 (replicate (length cs) [])"
    using hm_Clear_ok [OF assms] by blast
  have "al_owns (live s1) 8 (hm_bucket m1)" and sf: "live s1 (hm_self m) \<noteq> None" "hm_self m \<notin> al_ptrs (hm_bucket m)"
    and F: "live s1 |` (- insert (hm_self m) (al_ptrs (hm_bucket m))) = F" "?H |` dom F = G"
    using c(4-6) by (auto simp: hm_inv_def tab_own_def hm_owned_def)
  note fr = al_Free_ok [OF c(2) this(1)]
  let ?s2 = "al_Free ops s1 (hm_bucket m1)"
  have l2: "live ?s2 (hm_self m) \<noteq> None"
    using sf by (simp add: fr(2) c(5))
  define s3 where "s3 = fst (op_Free ops ?s2 (Some (hm_self m)))"
  have s3: "ok s3" "live s3 = (live ?s2)(hm_self m := None)"
    using free_fst [OF fr(1) l2] by (simp_all add: s3_def)
  have "live s3 = F"
    unfolding s3(2) fr(2) c(5) F(1) [symmetric] by (auto simp: restrict_map_def fun_eq_iff)
  then show ?thesis
    using c(1,4) s3(1) F(2) assms(2) by (auto simp: hm_Free_def FreeType_def s3_def)
qed

end

subsection \<open>Deleting\<close>

text \<open>The store after an entry is taken out of its chain.\<close>

definition unlinked :: "('k, 'v) store \<Rightarrow> ptr list \<Rightarrow> ptr \<Rightarrow> ptr list \<Rightarrow> ('k, 'v) store" where
  "unlinked H us p vs q =
     (if q = p then None
      else if us \<noteq> [] \<and> q = last us then Some ((the (H q))\<lparr>e_next := first vs None\<rparr>)
      else if vs \<noteq> [] \<and> q = hd vs then Some ((the (H q))\<lparr>e_front := final us None\<rparr>)
      else H q)"

lemma ends_differ:
  assumes "distinct (us @ p # vs)"
  shows "us \<noteq> [] \<Longrightarrow> last us \<noteq> p" "vs \<noteq> [] \<Longrightarrow> hd vs \<noteq> p" "us \<noteq> [] \<Longrightarrow> vs \<noteq> [] \<Longrightarrow> hd vs \<noteq> last us"
  using assms by (cases vs; cases us rule: rev_cases; auto)+

lemma unlinked_links:
  assumes "distinct (us @ p # vs)" "q \<in> set us \<union> set vs" "H q \<noteq> None"
  shows "ek (unlinked H us p vs) q = ek H q \<and> ev (unlinked H us p vs) q = ev H q \<and> unlinked H us p vs q \<noteq> None"
    "en (unlinked H us p vs) q = (if us \<noteq> [] \<and> q = last us then first vs None else en H q) \<and>
      ef (unlinked H us p vs) q = (if vs \<noteq> [] \<and> q = hd vs then final us None else ef H q)"
proof -
  have "vs \<noteq> [] \<Longrightarrow> us \<noteq> [] \<Longrightarrow> hd vs \<noteq> last us"
    using ends_differ(3) [OF assms(1)] by blast
  then show "ek (unlinked H us p vs) q = ek H q \<and> ev (unlinked H us p vs) q = ev H q \<and> unlinked H us p vs q \<noteq> None"
    "en (unlinked H us p vs) q = (if us \<noteq> [] \<and> q = last us then first vs None else en H q) \<and>
      ef (unlinked H us p vs) q = (if vs \<noteq> [] \<and> q = hd vs then final us None else ef H q)"
    using assms by (auto simp: unlinked_def ent_defs)
qed

lemma unlinked_other: "q \<notin> set (us @ p # vs) \<Longrightarrow> unlinked H us p vs q = H q"
  by (auto simp: unlinked_def)

lemma hm_inv_remove:
  assumes iv: "hm_inv env F G L H m cs" and t: "tab env H' b' cs'"
    and b: "al_ptrs b' = al_ptrs (hm_bucket m)" "\<And>L. al_owns L 8 b' = al_owns L 8 (hm_bucket m)"
    and p: "p \<in> set (concat cs)" "set (concat cs') = set (concat cs) - {p}" "length (concat cs') = length (concat cs) - 1"
    and h: "\<And>q. q \<notin> set (concat cs) \<Longrightarrow> H' q = H q" and n: "length cs' = length cs"
  shows "hm_inv env F G (L(p := None)) H' (m\<lparr>hm_bucket := b', hm_len := hm_len m - 1\<rparr>) cs'"
proof -
  have i: "tab_own L (hm_bucket m) cs" "L (hm_self m) \<noteq> None" "hm_self m \<notin> al_ptrs (hm_bucket m) \<union> set (concat cs)"
    "hm_len m = length (concat cs)" "8 \<le> length cs" "L |` (- hm_owned m cs) = F" "H |` dom F = G"
    using iv by (auto simp: hm_inv_def)
  have "p \<notin> al_ptrs (hm_bucket m)" "al_owns L 8 (hm_bucket m)"
    using i(1) p(1) by (auto simp: tab_own_def)
  then have "al_owns (L(p := None)) 8 (hm_bucket m)"
    by - (rule al_owns_cong [of L], auto)
  then have "tab_own (L(p := None)) b' cs'"
    using i(1) unfolding tab_own_def b p(2) by auto
  moreover have "H' q = H q" if "q \<in> dom F" for q
    using that h unfolding hm_inv_dom [OF iv] hm_owned_def by blast
  then have "H' |` dom F = G"
    unfolding i(7) [symmetric] by (auto simp: restrict_map_def fun_eq_iff)
  moreover have "(L(p := None)) |` (- insert (hm_self m) (al_ptrs b' \<union> set (concat cs'))) = F"
    unfolding i(6) [symmetric] hm_owned_def b p(2) using p(1) by (auto simp: restrict_map_def fun_eq_iff)
  moreover have "hm_self m \<noteq> p" "hm_self m \<notin> al_ptrs b' \<union> set (concat cs')"
    using i(3) p(1) unfolding b p(2) by auto
  ultimately show ?thesis
    using t i(2,4,5) p(3) n unfolding hm_inv_def hm_owned_def by simp
qed

lemma find_first: "P p \<Longrightarrow> \<forall>q \<in> set us. \<not> P q \<Longrightarrow> find P (us @ p # vs) = Some p"
  by (induction us) auto

lemma find_split:
  assumes "find P c = Some p"
  obtains us vs where "c = us @ p # vs" "P p" "\<forall>q \<in> set us. \<not> P q"
proof -
  obtain i where i: "i < length c" "P (c ! i)" "p = c ! i" "\<forall>j < i. \<not> P (c ! j)"
    using assms by (auto simp: find_Some_iff)
  then have "\<forall>q \<in> set (take i c). \<not> P q"
    by (auto simp: in_set_conv_nth)
  then show ?thesis
    using that [of "take i c" "drop (Suc i) c"] i(1-3) by (simp add: id_take_nth_drop [symmetric])
qed

lemma hm_Del_found:
  assumes t: "tab env H (hm_bucket m) (xs @ (us @ p # vs) # ys)"
    and l: "idx env (length (xs @ (us @ p # vs) # ys)) k = length xs" and k: "ek H p = k" "\<forall>q \<in> set us. ek H q \<noteq> k"
  shows "hm_Del env (s, H) m k = Some ((fst (FreeType (env_ops env) s (Some p)), unlinked H us p vs),
    m\<lparr>hm_bucket := (if us = [] then al_Set (hm_bucket m) (int (length xs)) (first vs None) else hm_bucket m),
      hm_len := hm_len m - 1\<rparr>)"
proof -
  let ?c = "us @ p # vs" and ?cs = "xs @ (us @ p # vs) # ys"
  have n: "?cs ! idx env (length ?cs) k = ?c"
    using l by simp
  have sg: "seg (en H) (ef H) None ?c None" and st: "\<forall>q \<in> set ?c. H q \<noteq> None" and d: "distinct ?c"
    using tab_chain [OF t, of k] t unfolding n by (auto simp: chain_ok_def tab_def)
  have nx: "en H p = first vs None" "ef H p = final us None"
    using sg by (auto simp: seg_append)
  obtain y where y: "H p = Some y"
    using st by auto
  then have ny: "e_next y = first vs None" "e_front y = final us None" "e_key y = k"
    using nx k(1) by (simp_all add: ent_defs)
  have bi: "bucket_index env (hm_bucket m) k = int (length xs)"
    using bucket_index_idx [OF t] l by simp
  have g: "al_Get None (hm_bucket m) (bucket_index env (hm_bucket m) k) = first ?c None"
    using tab_Get [OF t, of k] unfolding n .
  have vH: "\<exists>z. H (hd vs) = Some z" if "vs \<noteq> []"
    using st that by (cases vs) auto
  show ?thesis
  proof (cases "us = []")
    case True
    then show ?thesis
      using g bi y ny vH d by (cases vs) (auto simp: hm_Del_def unlinked_def fun_eq_iff)
  next
    case False
    then obtain e us' where u: "us = e # us'"
      by (cases us) auto
    obtain x where x: "H e = Some x" "e_key x \<noteq> k"
      using st k(2) u by (auto simp: ent_defs)
    have "find (\<lambda>q. ek H q = k) ?c = Some p"
      using k by (intro find_first) auto
    then have cf: "chain_find H e k = Some (p, True)"
      using tab_find [OF t, of k e "us' @ p # vs"] n u by (simp del: find.simps)
    obtain z where z: "H (last us) = Some z"
      using st False by fastforce
    have "last us \<noteq> p" "vs \<noteq> [] \<Longrightarrow> hd vs \<noteq> last us \<and> hd vs \<noteq> p"
      using ends_differ [OF d] False by blast+
    moreover have "final us None = Some (last us)"
      using False by (simp add: final_def)
    ultimately show ?thesis
      using g y ny vH x cf z False u
      by (cases vs) (auto simp: hm_Del_def unlinked_def fun_eq_iff)
  qed
qed

lemma hm_Del_absent:
  assumes t: "tab env H (hm_bucket m) cs" and k: "find (\<lambda>p. ek H p = k) (cs ! idx env (length cs) k) = None"
  shows "hm_Del env (s, H) m k = Some ((s, H), m)"
proof (cases "cs ! idx env (length cs) k")
  case Nil
  then show ?thesis
    using tab_Get [OF t, of k] by (simp add: hm_Del_def)
next
  case (Cons e c)
  obtain x where "H e = Some x" "e_key x \<noteq> k"
    using tab_chain [OF t, of k] k Cons by (auto simp: chain_ok_def ent_defs split: if_splits)
  moreover have "chain_find H e k = Some (last (e # c), False)"
    using tab_find [OF t Cons] k Cons by (simp del: find.simps)
  ultimately show ?thesis
    using tab_Get [OF t, of k] Cons by (simp add: hm_Del_def)
qed

context allocator
begin

lemma hm_Del_ok:
  assumes "ok s" "env_ops env = ops" and iv: "hm_inv env F G (live s) H m cs"
  shows "\<exists>s' H' m' cs'. hm_Del env (s, H) m k = Some ((s', H'), m') \<and> ok s' \<and>
    hm_inv env F G (live s') H' m' cs' \<and> tmap H' cs' = (tmap H cs)(k := None)"
proof -
  have t: "tab env H (hm_bucket m) cs" and ow: "tab_own (live s) (hm_bucket m) cs"
    using iv by (auto simp: hm_inv_def)
  obtain xs c ys where cs: "cs = xs @ c # ys" "idx env (length cs) k = length xs" "cs ! idx env (length cs) k = c"
    using tab_split [OF t] by metis
  show ?thesis
  proof (cases "find (\<lambda>p. ek H p = k) c")
    case None
    then have f: "find (\<lambda>p. ek H p = k) (cs ! idx env (length cs) k) = None"
      by (simp only: cs(3))
    have "(tmap H cs)(k := None) = tmap H cs"
      using find_bucket(2) [OF t f] by auto
    then show ?thesis
      using hm_Del_absent [OF t f] assms(1) iv by auto
  next
    case (Some p)
    then obtain us vs where c: "c = us @ p # vs" "ek H p = k" "\<forall>q \<in> set us. ek H q \<noteq> k"
      by (rule find_split)
    note t' = t [unfolded cs(1) c(1)]
    define b' where "b' = (if us = [] then al_Set (hm_bucket m) (int (length xs)) (first vs None) else hm_bucket m)"
    define s' where "s' = fst (op_Free ops s (Some p))"
    let ?H = "unlinked H us p vs" and ?cs = "xs @ (us @ vs) # ys"
    have dl: "hm_Del env (s, H) m k = Some ((s', ?H), m\<lparr>hm_bucket := b', hm_len := hm_len m - 1\<rparr>)"
      using hm_Del_found [OF t' cs(2) [unfolded cs(1) c(1)] c(2,3), of s] assms(2)
      by (simp add: b'_def s'_def FreeType_def)
    have d: "distinct (concat xs @ c @ concat ys)" and v: "\<forall>q \<in> set (concat cs). H q \<noteq> None"
      using t tab_chains [OF t] by (auto simp: tab_def cs(1))
    have pb: "al_wf b'" "al_abs b' = (al_abs (hm_bucket m))[length xs := first (us @ vs) None]"
      "al_ptrs b' = al_ptrs (hm_bucket m)" "al_owns L 8 b' = al_owns L 8 (hm_bucket m)" for L
      using tab_set_bucket [OF t', of "first vs None"] t' tab_same_head [OF t', of "us @ vs"]
      by (cases us; simp add: b'_def tab_def)+
    have dc: "distinct (us @ p # vs)"
      using d c(1) by auto
    have li: "idx env (length (xs @ (us @ p # vs) # ys)) (ek H p) = length xs"
      using cs(2) unfolding cs(1) c(1,2) .
    have ot: "?H q = H q" if "q \<in> set (concat xs) \<union> set (concat ys)" for q
      using that d by (intro unlinked_other) (auto simp: c(1))
    have lv: "H q \<noteq> None" if "q \<in> set us \<union> set vs" for q
      using that v by (auto simp: cs(1) c(1))
    have tb: "tab env ?H b' ?cs" "tmap ?H ?cs = (tmap H cs)(k := None)"
      using tab_remove_entry [OF t' li ot unlinked_links(1) [OF dc _ lv] unlinked_links(2) [OF dc _ lv] pb(1,2)]
      unfolding cs(1) c(1,2) by blast+
    have "live s p \<noteq> None"
      using ow cs(1) c(1) by (simp add: tab_own_def)
    then have lp: "ok s'" "live s' = (live s)(p := None)"
      using free_fst [OF assms(1), of p] by (simp_all add: s'_def)
    have "p \<in> set (concat cs)" "set (concat ?cs) = set (concat cs) - {p}" "length (concat ?cs) = length (concat cs) - 1"
      using d by (auto simp: cs(1) c(1))
    moreover have "?H q = H q" if "q \<notin> set (concat cs)" for q
      using that by (intro unlinked_other) (auto simp: cs(1) c(1))
    ultimately have "hm_inv env F G (live s') ?H (m\<lparr>hm_bucket := b', hm_len := hm_len m - 1\<rparr>) ?cs"
      unfolding lp(2) by (rule hm_inv_remove [OF iv tb(1) pb(3,4)]) (use cs(1) in auto)
    then show ?thesis
      using dl lp(1) tb(2) by blast
  qed
qed

lemma hm_New_ok:
  assumes "ok s" "env_ops env = ops" "nat (max 8 cap) * 8 + 7 < 2 ^ 64" "NewHashMapWithCap env s cap = (s', r)"
  shows "ok s' \<and> (case r of None \<Rightarrow> live s' = live s |
    Some m \<Rightarrow> hm_inv env (live s) (H |` dom (live s)) (live s') H m (replicate (nat (max 8 cap)) []))"
proof -
  define n where "n = nat (max 8 cap)"
  have n: "(if cap < initBucketSize then initBucketSize else cap) = int n" "8 \<le> n" "nat (max 8 (int n)) = n"
    "n * 8 + 7 < 2 ^ 64" "unat ptrSize = 8"
    using assms(3) by (auto simp: initBucketSize_def n_def ptrSize_def)
  have "unat (1 * hashMapSize) + 7 < 2 ^ 64"
    by (simp add: hashMapSize_def)
  with assms(1) show ?thesis
  proof (cases rule: malloc_cases)
    case (none s1)
    then show ?thesis
      using assms(2,4) by (simp add: NewHashMapWithCap_def MallocType_def)
  next
    case (some s1 p k)
    obtain s2 q where nw: "NewArrayListWithCap ops ptrSize (env_raw env) s1 (int n) = (s2, q)"
      by (cases "NewArrayListWithCap ops ptrSize (env_raw env) s1 (int n)") auto
    show ?thesis
    proof (cases q)
      case None
      have l2: "ok s2" "live s2 = (live s)(p \<mapsto> k)"
        using al_New_ok [OF some(2) _ nw] n(3-5) None some(5) by (auto simp: al_new_post_def)
      then have "live s2 p \<noteq> None"
        by simp
      note fr = free_fst [OF l2(1) this]
      have "s' = fst (op_Free ops s2 (Some p))" "r = None"
        using assms(2,4) some(1) nw None by (simp_all add: NewHashMapWithCap_def MallocType_def FreeType_def n(1))
      then show ?thesis
        using fr l2(2) some(3) by auto
    next
      case (Some b)
      obtain s3 b3 where ad: "add_nils env n s2 b = (s3, b3)"
        by (cases "add_nils env n s2 b") auto
      note nb = new_buckets_ok [OF some(2) assms(2) n(2,4) nw [unfolded Some] ad]
      have r: "s' = s3" "r = Some \<lparr>hm_self = p, hm_bucket = b3, hm_len = 0\<rparr>"
        using assms(2,4) some(1) nw Some ad by (simp_all add: NewHashMapWithCap_def MallocType_def n(1))
      have p3: "p \<notin> al_ptrs b3"
        using nb(4) some(5) by auto
      moreover have "live s3 p = live s1 p"
        using p3 fun_cong [OF nb(5), of p] by simp
      moreover have "live s3 |` (- insert p (al_ptrs b3)) = live s"
      proof
        fix q show "(live s3 |` (- insert p (al_ptrs b3))) q = live s q"
          using some(3,5) fun_cong [OF nb(5), of q] by (auto simp: restrict_map_def split: if_splits)
      qed
      ultimately show ?thesis
        using nb(1-3) n(2) some(5) by (simp add: r hm_inv_def hm_owned_def n_def)
    qed
  qed
qed

end

end
