(* ===== verification/Container_Runs.thy ===== *)
theory Container_Runs
  imports Static_Allocator_Spec Hash_Map_Spec
begin

text \<open>
  The array list and the hash map on top of the static allocator: the states a client can
  reach by any sequence of calls, related to the list and the finite map the calls
  describe. The contracts proved for an arbitrary allocator are used at the interpretation
  of the allocator interface for the static allocator.
\<close>

subsection \<open>The allocator interface on the static allocator\<close>

definition static_Malloc :: "StaticAllocator \<Rightarrow> u64 \<Rightarrow> StaticAllocator \<times> addr option" where
  "static_Malloc h s = (case Malloc h s of None \<Rightarrow> (h, None) | Some r \<Rightarrow> r)"

definition static_Free :: "StaticAllocator \<Rightarrow> addr option \<Rightarrow> StaticAllocator \<times> bool" where
  "static_Free h p = (case Free h p of None \<Rightarrow> (h, False) | Some r \<Rightarrow> r)"

definition static_ops :: "StaticAllocator allocator_ops" where
  "static_ops = \<lparr>op_Malloc = static_Malloc, op_Free = static_Free\<rparr>"

lemmas static_defs = static_ops_def static_Malloc_def static_Free_def

interpretation static_alloc: allocator static_ops "allocator_ok base lim" "live base lim"
  for base lim :: addr
proof
  fix h h' :: StaticAllocator and s :: u64 and p and r
  show "allocator_ok base lim h' \<and> live base lim h' = live base lim h"
    if "allocator_ok base lim h" "unat s + 7 < 2 ^ 64" "op_Malloc static_ops h s = (h', None)"
    using that by (cases rule: malloc_spec [OF that(1,2)]) (auto simp: static_defs)
  show "allocator_ok base lim h' \<and> live base lim h p = None \<and>
      (\<exists>k \<ge> unat s. live base lim h' = (live base lim h)(p \<mapsto> k))"
    if "allocator_ok base lim h" "unat s + 7 < 2 ^ 64" "op_Malloc static_ops h s = (h', Some p)"
    using that by (cases rule: malloc_spec [OF that(1,2)]) (auto simp: static_defs)
  show "r \<and> allocator_ok base lim h' \<and> live base lim h' = (live base lim h)(p := None)"
    if a: "allocator_ok base lim h" "live base lim h p \<noteq> None" "op_Free static_ops h (Some p) = (h', r)"
  proof -
    obtain n where "live base lim h p = Some n"
      using a(2) by blast
    then obtain h2 where "Free h (Some p) = Some (h2, True)" "allocator_ok base lim h2"
      "live base lim h2 = (live base lim h)(p := None)"
      using free_spec [OF a(1)] by blast
    then show ?thesis
      using a(3) by (simp add: static_defs)
  qed
  show "k + 8 < 2 ^ 63" if "allocator_ok base lim h" "live base lim h p = Some k" for k
    using live_bounds [OF that] by linarith
qed

subsection \<open>Array lists\<close>

text \<open>An array made in allocator state \<open>s0\<close>, after a sequence of calls, with its list.\<close>

inductive al_run :: "u64 \<Rightarrow> (nat \<Rightarrow> 'a) \<Rightarrow> StaticAllocator \<Rightarrow> StaticAllocator \<Rightarrow> 'a ArrayList \<Rightarrow> 'a list \<Rightarrow> bool"
  for sz raw s0 where
  new: "NewArrayListWithCap static_ops sz raw s0 cap = (s, Some a) \<Longrightarrow> nat (max 8 cap) * unat sz + 7 < 2 ^ 64 \<Longrightarrow>
    al_run sz raw s0 s a []"
| add: "al_run sz raw s0 s a xs \<Longrightarrow> al_Add static_ops sz raw s a v = (s', a', r) \<Longrightarrow>
    al_run sz raw s0 s' a' (if r then xs @ [v] else xs)"
| set: "al_run sz raw s0 s a xs \<Longrightarrow> al_run sz raw s0 s (al_Set a i v) (if 0 \<le> i then xs[nat i := v] else xs)"
| del: "al_run sz raw s0 s a xs \<Longrightarrow>
    al_run sz raw s0 s (al_Del a i)
      (if 0 \<le> i \<and> nat i < length xs then take (nat i) xs @ drop (nat i + 1) xs else xs)"

lemma al_Del_owns:
  "al_owns L esz (al_Del a i) = al_owns L esz a" "al_ptrs (al_Del a i) = al_ptrs a" if "al_wf a"
  using that by (auto simp: al_Del_def al_owns_def al_ptrs_def al_wf_def go_copy_def Let_def)

lemma al_run_inv:
  assumes "al_run sz raw s0 s a xs" "allocator_ok base lim s0"
  shows "allocator_ok base lim s \<and> al_owns (live base lim s) (unat sz) a \<and> al_abs a = xs \<and>
    live base lim s |` (- al_ptrs a) = live base lim s0"
  using assms(1)
proof induction
  case (new cap s a)
  then show ?case
    using static_alloc.al_New_ok [OF assms(2) new(2,1)] by (simp add: al_new_post_def)
next
  case (add s a xs v s' a' r)
  then have "allocator_ok base lim s" "al_owns (live base lim s) (unat sz) a"
    by auto
  from static_alloc.al_Add_ok [OF this add.hyps(2)] show ?case
    using add.IH by auto
next
  case (set s a xs i v)
  then have "al_wf a"
    by (auto simp: al_owns_def)
  then show ?case
    using set.IH by (simp add: al_Set_abs)
next
  case (del s a xs i)
  then have w: "al_wf a" and l: "length xs = al_len a"
    by (auto simp: al_owns_def dest: length_al_abs)
  have "al_abs (al_Del a i) = (if 0 \<le> i \<and> nat i < length xs then take (nat i) xs @ drop (nat i + 1) xs else xs)"
  proof (cases "0 \<le> i \<and> nat i < length xs")
    case False
    then have "i < 0 \<or> int (al_len a) \<le> i"
      unfolding l by linarith
    then show ?thesis
      unfolding if_not_P [OF False] using al_Del_out [OF w] del.IH by simp
  qed (use al_Del_abs [OF w] del.IH l in auto)
  then show ?case
    using del.IH al_Del_owns [OF w] by simp
qed

subsection \<open>Hash maps\<close>

text \<open>A map made in allocator state \<open>s0\<close> with entry store \<open>H0\<close>, after a sequence of calls, with
  the finite map it stands for.\<close>

inductive hm_run ::
    "(StaticAllocator, 'k) hm_env \<Rightarrow> StaticAllocator \<Rightarrow> ('k, 'v) store \<Rightarrow> StaticAllocator \<Rightarrow> ('k, 'v) store \<Rightarrow>
     HashMap \<Rightarrow> ('k \<rightharpoonup> 'v) \<Rightarrow> bool"
  for env s0 H0 where
  new: "NewHashMapWithCap env s0 cap = (s, Some m) \<Longrightarrow> nat (max 8 cap) * 8 + 7 < 2 ^ 64 \<Longrightarrow>
    hm_run env s0 H0 s H0 m Map.empty"
| set: "hm_run env s0 H0 s H m M \<Longrightarrow> hm_Set env (s, H) m k v = Some ((s', H'), m', r) \<Longrightarrow>
    hm_run env s0 H0 s' H' m' (if r then M(k \<mapsto> v) else M)"
| del: "hm_run env s0 H0 s H m M \<Longrightarrow> hm_Del env (s, H) m k = Some ((s', H'), m') \<Longrightarrow>
    hm_run env s0 H0 s' H' m' (M(k := None))"
| grow: "hm_run env s0 H0 s H m M \<Longrightarrow> hm_Grow env (s, H) m = Some ((s', H'), m') \<Longrightarrow> hm_run env s0 H0 s' H' m' M"
| clear: "hm_run env s0 H0 s H m M \<Longrightarrow> hm_Clear env (s, H) m = Some ((s', H'), m') \<Longrightarrow>
    hm_run env s0 H0 s' H' m' Map.empty"

definition hm_state ::
    "addr \<Rightarrow> addr \<Rightarrow> (StaticAllocator, 'k) hm_env \<Rightarrow> StaticAllocator \<Rightarrow> ('k, 'v) store \<Rightarrow> StaticAllocator \<Rightarrow>
     ('k, 'v) store \<Rightarrow> HashMap \<Rightarrow> ('k \<rightharpoonup> 'v) \<Rightarrow> bool" where
  "hm_state base lim env s0 H0 s H m M \<longleftrightarrow> allocator_ok base lim s \<and>
     (\<exists>cs. hm_inv env (live base lim s0) (H0 |` dom (live base lim s0)) (live base lim s) H m cs \<and> tmap H cs = M)"

lemma hm_stateI:
  "allocator_ok base lim s \<Longrightarrow> hm_inv env (live base lim s0) (H0 |` dom (live base lim s0)) (live base lim s) H m cs \<Longrightarrow>
   tmap H cs = M \<Longrightarrow> hm_state base lim env s0 H0 s H m M"
  by (auto simp: hm_state_def)

lemma hm_stateE:
  assumes "hm_state base lim env s0 H0 s H m M"
  obtains cs where "allocator_ok base lim s"
    "hm_inv env (live base lim s0) (H0 |` dom (live base lim s0)) (live base lim s) H m cs" "M = tmap H cs"
  using assms by (auto simp: hm_state_def)

lemma hm_state_steps:
  assumes st: "hm_state base lim env s0 H0 s H m M" and env: "env_ops env = static_ops" "env_ok env"
  shows hm_Set_state: "\<exists>s' H' m' r. hm_Set env (s, H) m k v = Some ((s', H'), m', r) \<and>
      hm_state base lim env s0 H0 s' H' m' (if r then M(k \<mapsto> v) else M) \<and> (M k \<noteq> None \<longrightarrow> r)"
    and hm_Del_state: "\<exists>s' H' m'. hm_Del env (s, H) m k = Some ((s', H'), m') \<and>
      hm_state base lim env s0 H0 s' H' m' (M(k := None))"
    and hm_Grow_state: "\<exists>s' H' m'. hm_Grow env (s, H) m = Some ((s', H'), m') \<and> hm_state base lim env s0 H0 s' H' m' M"
    and hm_Clear_state: "\<exists>s' H' m'. hm_Clear env (s, H) m = Some ((s', H'), m') \<and>
      hm_state base lim env s0 H0 s' H' m' Map.empty"
    and hm_Free_state: "\<exists>s' H'. hm_Free env (s, H) m = Some (s', H') \<and> allocator_ok base lim s' \<and>
      live base lim s' = live base lim s0 \<and> H' |` dom (live base lim s0) = H0 |` dom (live base lim s0)"
proof -
  obtain cs where cs: "allocator_ok base lim s"
    "hm_inv env (live base lim s0) (H0 |` dom (live base lim s0)) (live base lim s) H m cs" "M = tmap H cs"
    using st by (rule hm_stateE)
  show "\<exists>s' H' m' r. hm_Set env (s, H) m k v = Some ((s', H'), m', r) \<and>
      hm_state base lim env s0 H0 s' H' m' (if r then M(k \<mapsto> v) else M) \<and> (M k \<noteq> None \<longrightarrow> r)"
    using static_alloc.hm_Set_ok [OF cs(1) env cs(2), of k v] unfolding cs(3) by (blast intro: hm_stateI)
  show "\<exists>s' H' m'. hm_Del env (s, H) m k = Some ((s', H'), m') \<and> hm_state base lim env s0 H0 s' H' m' (M(k := None))"
    using static_alloc.hm_Del_ok [OF cs(1) env(1) cs(2), of k] unfolding cs(3) by (blast intro: hm_stateI)
  show "\<exists>s' H' m'. hm_Grow env (s, H) m = Some ((s', H'), m') \<and> hm_state base lim env s0 H0 s' H' m' M"
    using static_alloc.hm_Grow_ok [OF cs(1) env cs(2)] unfolding cs(3) by (blast intro: hm_stateI)
  show "\<exists>s' H' m'. hm_Clear env (s, H) m = Some ((s', H'), m') \<and> hm_state base lim env s0 H0 s' H' m' Map.empty"
    using static_alloc.hm_Clear_ok [OF cs(1) env(1) cs(2)] tmap_nils by (blast intro: hm_stateI)
  show "\<exists>s' H'. hm_Free env (s, H) m = Some (s', H') \<and> allocator_ok base lim s' \<and>
      live base lim s' = live base lim s0 \<and> H' |` dom (live base lim s0) = H0 |` dom (live base lim s0)"
    by (rule static_alloc.hm_Free_ok [OF cs(1) env(1) cs(2)])
qed

lemma hm_run_inv:
  assumes "hm_run env s0 H0 s H m M" "allocator_ok base lim s0" and env: "env_ops env = static_ops" "env_ok env"
  shows "hm_state base lim env s0 H0 s H m M"
  using assms(1)
proof induction
  case (new cap s m)
  then show ?case
    using static_alloc.hm_New_ok [OF assms(2) env(1) new(2,1), of H0] tmap_nils by (auto intro: hm_stateI)
next
  case (set s H m M k v s' H' m' r)
  then show ?case
    using hm_Set_state [OF set.IH env, of k v] by auto
next
  case (del s H m M k s' H' m')
  then show ?case
    using hm_Del_state [OF del.IH env, of k] by (simp only: option.inject prod.inject) blast
next
  case (grow s H m M s' H' m')
  then show ?case
    using hm_Grow_state [OF grow.IH env] by auto
next
  case (clear s H m M s' H' m')
  then show ?case
    using hm_Clear_state [OF clear.IH env] by auto
qed

lemma hm_state_read:
  assumes "hm_state base lim env s0 H0 s H m M"
  shows "hm_Get env H m k = Some (M k)" "hm_Len m = card (dom M)"
proof -
  obtain cs where cs: "hm_inv env (live base lim s0) (H0 |` dom (live base lim s0)) (live base lim s) H m cs" "M = tmap H cs"
    using assms by (rule hm_stateE)
  then have t: "tab env H (hm_bucket m) cs" "hm_len m = length (concat cs)"
    by (auto simp: hm_inv_def)
  show "hm_Get env H m k = Some (M k)"
    unfolding cs(2) by (rule hm_Get_tmap [OF t(1)])
  have "dom M = ek H ` set (concat cs)"
    unfolding cs(2) tmap_def dom_map_of_conv_image_fst by (simp add: image_image)
  moreover have "inj_on (ek H) (set (concat cs))" "distinct (concat cs)"
    using t(1) by (auto simp: tab_def)
  ultimately show "hm_Len m = card (dom M)"
    using t(2) by (simp add: hm_Len_def card_image distinct_card del: set_concat)
qed

subsection \<open>Properties\<close>

text \<open>C9: The array list is a list: after any sequence of calls on an array over the static
  allocator, failed appends included, its length, its elements and a walk over it are those
  of the list the calls describe, out-of-range reads give the zero value, and freeing it
  gives back exactly the allocations it took.\<close>

theorem array_list_refines:
  assumes "al_run sz raw s0 s a xs" "allocator_ok base lim s0"
  shows "al_Len a = length xs \<and>
    (\<forall>i. al_Get zero a i = (if 0 \<le> i \<and> nat i < length xs then xs ! nat i else zero)) \<and>
    al_For zero a fn st = list_for fn 0 xs st \<and> live base lim (al_Free static_ops s a) = live base lim s0"
proof -
  note iv = al_run_inv [OF assms]
  then have w: "al_wf a" and o: "allocator_ok base lim s" "al_owns (live base lim s) (unat sz) a" "al_abs a = xs"
    by (auto simp: al_owns_def)
  have "al_Len a = length xs"
    using length_al_abs [OF w] o(3) by (simp add: al_Len_def)
  then show ?thesis
    using static_alloc.al_Free_ok(2) [OF o(1,2)] al_For_abs [OF w] al_Get_abs [OF w] iv by simp
qed

text \<open>C5: The hash map is a finite map: after any sequence of insertions, deletions, growths and
  clears on a map over the static allocator, whether or not allocations failed on the way,
  a lookup returns what the map of those calls holds, and the length is its size.\<close>

theorem hash_map_refines:
  assumes "hm_run env s0 H0 s H m M" "allocator_ok base lim s0" "env_ops env = static_ops" "env_ok env"
  shows "hm_Get env H m k = Some (M k) \<and> hm_Len m = card (dom M)"
  using hm_state_read [OF hm_run_inv [OF assms]] by blast

text \<open>C7: In every reachable state the next call of the hash map ends without touching freed
  memory: an insertion reports success or leaves the map unchanged, and succeeds for a key
  that is present; deleting and growing always succeed.\<close>

theorem hash_map_progress:
  assumes "hm_run env s0 H0 s H m M" "allocator_ok base lim s0" "env_ops env = static_ops" "env_ok env"
  shows "(\<exists>s' H' m' r. hm_Set env (s, H) m k v = Some ((s', H'), m', r) \<and> (M k \<noteq> None \<longrightarrow> r) \<and>
      hm_Get env H' m' k = Some (if r then Some v else M k)) \<and>
    (\<exists>s' H' m'. hm_Del env (s, H) m k = Some ((s', H'), m') \<and> hm_Get env H' m' k = Some None) \<and>
    (\<exists>s' H' m'. hm_Grow env (s, H) m = Some ((s', H'), m') \<and> (\<forall>j. hm_Get env H' m' j = Some (M j)))"
proof -
  note st = hm_run_inv [OF assms]
  obtain s1 H1 m1 r where a: "hm_Set env (s, H) m k v = Some ((s1, H1), m1, r)" "M k \<noteq> None \<longrightarrow> r"
    "hm_state base lim env s0 H0 s1 H1 m1 (if r then M(k \<mapsto> v) else M)"
    using hm_Set_state [OF st assms(3,4), of k v] by blast
  obtain s2 H2 m2 where b: "hm_Del env (s, H) m k = Some ((s2, H2), m2)"
    "hm_state base lim env s0 H0 s2 H2 m2 (M(k := None))"
    using hm_Del_state [OF st assms(3,4), of k] by blast
  obtain s3 H3 m3 where c: "hm_Grow env (s, H) m = Some ((s3, H3), m3)" "hm_state base lim env s0 H0 s3 H3 m3 M"
    using hm_Grow_state [OF st assms(3,4)] by blast
  show ?thesis
    using a(1,2) b(1) c(1) hm_state_read(1) [OF a(3), of k] hm_state_read(1) [OF b(2), of k] hm_state_read(1) [OF c(2)] by simp
qed

text \<open>C6: The hash map does not leak: freeing it in any reachable state, also after growths that
  ran out of memory half way, leaves exactly the allocations that were live before it was
  made, with their contents.\<close>

theorem hash_map_no_leak:
  assumes "hm_run env s0 H0 s H m M" "allocator_ok base lim s0" "env_ops env = static_ops" "env_ok env"
  shows "\<exists>s' H'. hm_Free env (s, H) m = Some (s', H') \<and> allocator_ok base lim s' \<and>
    live base lim s' = live base lim s0 \<and> H' |` dom (live base lim s0) = H0 |` dom (live base lim s0)"
  using hm_Free_state [OF hm_run_inv [OF assms] assms(3,4)] .

text \<open>A concrete map with one entry over the allocator of 1024 bytes at address 4096, and an
  array with one element made after its first allocation.\<close>

definition mem1 :: StaticAllocator where "mem1 = fst (the (Malloc run0 32))"
definition mem2 :: StaticAllocator where "mem2 = fst (the (Malloc mem1 40))"
definition mem3 :: StaticAllocator where "mem3 = fst (the (Malloc mem2 64))"
definition mem4 :: StaticAllocator where "mem4 = fst (the (Malloc mem3 32))"

lemma static_Malloc_at:
  "map_option snd (Malloc h n) = Some r \<Longrightarrow> op_Malloc static_ops h n = (fst (the (Malloc h n)), r)"
  by (auto simp: static_defs)

lemma mems:
  "op_Malloc static_ops run0 32 = (mem1, Some 4160)" "op_Malloc static_ops mem1 40 = (mem2, Some 4232)"
  "op_Malloc static_ops mem2 64 = (mem3, Some 4312)" "op_Malloc static_ops mem3 32 = (mem4, Some 4416)"
  unfolding mem1_def mem2_def mem3_def mem4_def by (rule static_Malloc_at, simp add: alloc_eval)+

lemma run0_ok: "allocator_ok 4120 5120 run0"
  using alloc_run_inv [OF alloc_run.start [OF run0]] by simp

lemma mem1_ok: "allocator_ok 4120 5120 mem1"
  using static_alloc.malloc_Some [OF run0_ok _ mems(1)] by simp

definition arr0 :: "'a \<Rightarrow> 'a ArrayList" where
  "arr0 z = \<lparr>al_self = 4232, al_data = 4312, al_mem = replicate 8 z, al_len = 0, al_cap = 8\<rparr>"

lemma arr0_len [simp]: "(arr0 z)\<lparr>al_len := 0\<rparr> = arr0 z"
  by (simp add: arr0_def)

lemma arr0_new: "NewArrayListWithCap static_ops 8 (\<lambda>_. z) mem1 8 = (mem3, Some (arr0 z))"
  using mems by (simp add: NewArrayListWithCap_def MallocType_def initCap_def arrayListSize_def arr0_def
      map_replicate_const)

definition arr1 :: "u64 ArrayList" where
  "arr1 = (arr0 0)\<lparr>al_mem := (replicate 8 0)[0 := 42], al_len := 1\<rparr>"

lemma arr_run: "al_run 8 (\<lambda>_. 0) mem1 mem3 arr1 [42]"
proof -
  have "al_Add static_ops 8 (\<lambda>_. 0) mem3 (arr0 0) 42 = (mem3, arr1, True)"
    by (simp add: al_Add_def arr0_def arr1_def)
  then show ?thesis
    using al_run.add [OF al_run.new [OF arr0_new]] by fastforce
qed

definition env0 :: "(StaticAllocator, u64) hm_env" where
  "env0 = \<lparr>env_ops = static_ops, env_hash = (\<lambda>k. k), env_entrySize = 32, env_raw = (\<lambda>_. None)\<rparr>"

definition map0 :: HashMap where
  "map0 = \<lparr>hm_self = 4160, hm_bucket = (arr0 None)\<lparr>al_len := 8\<rparr>, hm_len = 0\<rparr>"

definition store1 :: "(u64, u64) store" where
  "store1 = [4416 \<mapsto> \<lparr>e_key = 3, e_value = 7, e_front = None, e_next = None\<rparr>]"

definition map1 :: HashMap where
  "map1 = map0\<lparr>hm_bucket := al_Set (hm_bucket map0) 3 (Some 4416), hm_len := 1\<rparr>"

lemma env0_ok: "env_ops env0 = static_ops" "env_ok env0"
  by (simp_all add: env0_def env_ok_def)

lemma arr0_nils: "k + n \<le> 8 \<Longrightarrow> add_nils env0 n s ((arr0 None)\<lparr>al_len := k\<rparr>) = (s, (arr0 None)\<lparr>al_len := k + n\<rparr>)"
proof (induction n arbitrary: k)
  case (Suc n)
  have "(replicate 8 None)[k := None :: ptr option] = replicate 8 None"
    using Suc.prems by (intro nth_equalityI) (simp_all add: nth_list_update)
  then show ?case
    using Suc.prems Suc.IH [of "Suc k"] by (simp add: al_Add_def arr0_def)
qed (simp add: arr0_def)

lemma map0_new: "NewHashMapWithCap env0 run0 8 = (mem3, Some map0)"
  using mems(1) arr0_new [of "None :: ptr option"] arr0_nils [of 0 8 mem3]
  by (simp add: NewHashMapWithCap_def MallocType_def hashMapSize_def ptrSize_def initBucketSize_def env0_def map0_def)

lemma map1_set: "hm_Set env0 (mem3, Map.empty) map0 3 7 = Some ((mem4, store1), map1, True)"
  using mems(4)
  by (simp add: hm_Set_def chain_put_def bucket_index_def MallocType_def env0_def map0_def arr0_def map1_def store1_def
      al_Get_def al_Len_def al_Set_def)

lemma map_run: "hm_run env0 run0 Map.empty mem4 store1 map1 [3 \<mapsto> 7]"
  using hm_run.set [OF hm_run.new [OF map0_new] map1_set] by simp

theorem array_list_refines_witness:
  "al_Len arr1 = length [42 :: u64] \<and> al_Get 0 arr1 0 = 42 \<and> al_Get 0 arr1 1 = 0 \<and>
   live 4120 5120 (al_Free static_ops mem3 arr1) = live 4120 5120 mem1"
  using array_list_refines [OF arr_run mem1_ok, of 0 "\<lambda>_ _ st. (st, True)" "()"] by simp

theorem hash_map_refines_witness:
  "hm_Get env0 store1 map1 3 = Some (Some 7) \<and> hm_Len map1 = card (dom [3 :: u64 \<mapsto> 7 :: u64])"
  using hash_map_refines [OF map_run run0_ok env0_ok, of 3] by simp

theorem hash_map_progress_witness:
  "\<exists>s' H' m'. hm_Del env0 (mem4, store1) map1 3 = Some ((s', H'), m') \<and> hm_Get env0 H' m' 3 = Some None"
  using hash_map_progress [OF map_run run0_ok env0_ok, of 3 8] by simp

theorem hash_map_no_leak_witness:
  "\<exists>s' H'. hm_Free env0 (mem4, store1) map1 = Some (s', H') \<and> live 4120 5120 s' = live 4120 5120 run0"
  using hash_map_no_leak [OF map_run run0_ok env0_ok] by blast

end
