(* ===== verification/Ring_Lists.thy ===== *)
theory Ring_Lists
  imports Halo_Prelude
begin

text \<open>
  Circular storage, shared by the byte buffers of the TCP connections, the queues of the KCP
  sessions and the shared-memory ring: the elements from a head position on, the position
  taken modulo the length of the storage. The locale \<open>byte_stream\<close> is the contract of a
  bounded buffer between a writer and a reader.
\<close>

definition ring :: "'a list \<Rightarrow> nat \<Rightarrow> nat \<Rightarrow> 'a list" where
  "ring xs h n = map (\<lambda>i. xs ! ((h + i) mod length xs)) [0..<n]"

lemma length_ring [simp]: "length (ring xs h n) = n"
  by (simp add: ring_def)

lemma nth_ring [simp]: "i < n \<Longrightarrow> ring xs h n ! i = xs ! ((h + i) mod length xs)"
  by (simp add: ring_def)

lemma ring_0 [simp]: "ring xs h 0 = []"
  by (simp add: ring_def)

lemma ring_mod: "ring xs (h mod length xs) n = ring xs h n"
  by (rule nth_equalityI) (simp_all add: mod_add_left_eq)

lemma take_ring: "take k (ring xs h n) = ring xs h (min k n)"
  by (rule nth_equalityI) simp_all

lemma drop_ring: "drop k (ring xs h n) = ring xs (h + k) (n - k)"
  by (rule nth_equalityI) (simp_all add: ac_simps)

lemma ring_append: "ring xs h (m + n) = ring xs h m @ ring xs (h + m) n"
  by (rule nth_equalityI) (auto simp: nth_append ac_simps)

lemma ring_Suc: "ring xs h (Suc n) = xs ! (h mod length xs) # ring xs (Suc h) n"
  using ring_append [of xs h 1 n] by (simp add: ring_def)

text \<open>The two contiguous pieces the code copies.\<close>

lemma mod_once: "h < l \<Longrightarrow> i \<le> l \<Longrightarrow> (h + i) mod l = (if h + i < l then h + i else h + i - l)" for l :: nat
  by (simp add: mod_if)

lemma ring_pieces:
  assumes "h < length xs" "n \<le> length xs"
  shows "ring xs h n = take n (drop h xs) @ take (n - (length xs - h)) xs"
proof (rule nth_equalityI)
  fix i
  assume "i < length (ring xs h n)"
  then have "i < n"
    by simp
  then show "ring xs h n ! i = (take n (drop h xs) @ take (n - (length xs - h)) xs) ! i"
    using assms mod_once [of h "length xs" i] by (auto simp: nth_append add.commute)
qed (use assms in auto)

lemma ring_cong:
  assumes "length ys = length xs" "\<And>i. i < n \<Longrightarrow> ys ! ((h + i) mod length xs) = xs ! ((h + i) mod length xs)"
  shows "ring ys h n = ring xs h n"
  using assms by (intro nth_equalityI) simp_all

lemma mod_offsets_distinct:
  fixes i j l :: nat
  assumes "i < l" "j < l" "(h + i) mod l = (h + j) mod l"
  shows "i = j"
proof -
  have *: "b - a = 0" if "a \<le> b" "b < l" "(h + b) mod l = (h + a) mod l" for a b
  proof -
    have "l dvd b - a"
      using mod_eq_dvd_iff_nat [of "h + a" "h + b" l] that by simp
    moreover have "b - a < l"
      using that(2) by simp
    ultimately show ?thesis
      by (meson dvd_imp_le not_gr_zero not_le)
  qed
  show ?thesis
  proof (cases "i \<le> j")
    case True
    then show ?thesis
      using * [OF True assms(2) assms(3) [symmetric]] by simp
  next
    case False
    then show ?thesis
      using * [OF _ assms(1,3)] by simp
  qed
qed

text \<open>Storing behind the last element, and overwriting outside the stored range.\<close>

lemma ring_update_outside:
  assumes "n \<le> k" "k < length xs"
  shows "ring (xs[(h + k) mod length xs := v]) h n = ring xs h n"
proof (rule ring_cong)
  fix i
  assume "i < n"
  then have "(h + i) mod length xs \<noteq> (h + k) mod length xs"
    using mod_offsets_distinct [of i "length xs" k h] assms by auto
  then show "xs[(h + k) mod length xs := v] ! ((h + i) mod length xs) = xs ! ((h + i) mod length xs)"
    by simp
qed simp

lemma ring_snoc:
  assumes "n < length xs"
  shows "ring (xs[(h + n) mod length xs := v]) h (Suc n) = ring xs h n @ [v]"
proof -
  have "(h + n) mod length xs < length xs"
    using assms by (intro mod_less_divisor) linarith
  then show ?thesis
    using ring_append [of "xs[(h + n) mod length xs := v]" h n 1] ring_update_outside [OF order_refl assms, of h v]
    by (simp add: ring_def)
qed

subsection \<open>Bounded buffers between a writer and a reader\<close>

text \<open>
  A buffer accepts a prefix of what is offered and hands out a prefix of what it holds. Its
  client relies on the stream being transparent: whatever the interleaving of writes and
  reads, the bytes handed out so far followed by the bytes held are the bytes accepted.
\<close>

datatype 'a io = Offer "'a list" | Request nat

fun stream_run ::
    "('b \<Rightarrow> 'a list \<Rightarrow> ('b \<times> nat) option) \<Rightarrow> ('b \<Rightarrow> nat \<Rightarrow> ('b \<times> 'a list) option) \<Rightarrow> 'b \<Rightarrow> 'a io list \<Rightarrow>
     ('b \<times> 'a list \<times> 'a list) option" where
  "stream_run accept hand_out b [] = Some (b, [], [])"
| "stream_run accept hand_out b (Offer xs # ops) =
     do {
       (b, n) \<leftarrow> accept b xs;
       (b, i, out) \<leftarrow> stream_run accept hand_out b ops;
       Some (b, take n xs @ i, out)
     }"
| "stream_run accept hand_out b (Request n # ops) =
     do {
       (b, ys) \<leftarrow> hand_out b n;
       (b, i, out) \<leftarrow> stream_run accept hand_out b ops;
       Some (b, i, ys @ out)
     }"

locale byte_stream =
  fixes ok :: "'b \<Rightarrow> bool"
    and held :: "'b \<Rightarrow> 'a list"
    and accept :: "'b \<Rightarrow> 'a list \<Rightarrow> ('b \<times> nat) option"
    and hand_out :: "'b \<Rightarrow> nat \<Rightarrow> ('b \<times> 'a list) option"
  assumes accept_ok: "ok b \<Longrightarrow> \<exists>b' n. accept b xs = Some (b', n) \<and> ok b' \<and> n \<le> length xs \<and> held b' = held b @ take n xs"
    and hand_out_ok: "ok b \<Longrightarrow> \<exists>b' ys. hand_out b n = Some (b', ys) \<and> ok b' \<and> held b = ys @ held b' \<and>
      length ys = min n (length (held b))"
begin

lemma transparent:
  assumes "ok b"
  shows "\<exists>b' i out. stream_run accept hand_out b ops = Some (b', i, out) \<and> ok b' \<and> held b @ i = out @ held b'"
  using assms
proof (induction ops arbitrary: b)
  case (Cons op ops)
  show ?case
  proof (cases op)
    case (Offer xs)
    obtain b1 n where a: "accept b xs = Some (b1, n)" "ok b1" "held b1 = held b @ take n xs"
      using accept_ok [OF Cons.prems] by metis
    obtain b' i out where r: "stream_run accept hand_out b1 ops = Some (b', i, out)" "ok b'" "held b1 @ i = out @ held b'"
      using Cons.IH [OF a(2)] by blast
    show ?thesis
      using a r by (simp add: Offer)
  next
    case (Request n)
    obtain b1 ys where a: "hand_out b n = Some (b1, ys)" "ok b1" "held b = ys @ held b1"
      using hand_out_ok [OF Cons.prems] by metis
    obtain b' i out where r: "stream_run accept hand_out b1 ops = Some (b', i, out)" "ok b'" "held b1 @ i = out @ held b'"
      using Cons.IH [OF a(2)] by blast
    show ?thesis
      using a r by (simp add: Request)
  qed
qed simp

end

end
