(* ===== verification/Tcp_Buffer.thy ===== *)
theory Tcp_Buffer
  imports Ring_Lists
begin

text \<open>
  The circular byte buffers of a TCP connection, \<^verbatim>\<open>src/protocol/tcp/buffer.go\<close>. Positions and
  sizes are Go's signed integers; a negative length, a slice out of range and a division by
  the length of an empty buffer, where Go panics, are the value \<^const>\<open>None\<close>. On a
  well-formed buffer no operation panics, and the buffer is a transparent byte stream.
\<close>

record byteBuffer =
  bb_data :: bytes
  bb_head :: int
  bb_size :: int

abbreviation bb_len :: "byteBuffer \<Rightarrow> int" where
  "bb_len b \<equiv> int (length (bb_data b))"

definition bb_write :: "byteBuffer \<Rightarrow> bytes \<Rightarrow> (byteBuffer \<times> nat) option" where
  "bb_write b p =
     (let n = min (int (length p)) (bb_len b - bb_size b) in
      if bb_len b = 0 then None
      else
        let tail = (bb_head b + bb_size b) mod bb_len b; first = min n (bb_len b - tail) in
        if n < 0 then None
        else
          let data = go_copy (bb_data b) (nat tail) (take (nat first) p);
              data = go_copy data 0 (go_slice p (nat first) (nat n))
          in Some (b\<lparr>bb_data := data, bb_size := bb_size b + n\<rparr>, nat n))"

text \<open>The two slices that \<^verbatim>\<open>peek\<close> and \<^verbatim>\<open>read\<close> copy from.\<close>

definition bb_copy_out :: "byteBuffer \<Rightarrow> int \<Rightarrow> bytes option" where
  "bb_copy_out b n =
     (let first = min n (bb_len b - bb_head b) in
      if n < 0 \<or> bb_head b < 0 \<or> first < 0 then None
      else do {
        x \<leftarrow> go_sub (bb_data b) (nat (bb_head b)) (nat (bb_head b + first));
        y \<leftarrow> go_sub (bb_data b) 0 (nat (n - first));
        Some (x @ y)
      })"

definition bb_peek :: "byteBuffer \<Rightarrow> int \<Rightarrow> bytes option" where
  "bb_peek b n = bb_copy_out b (min n (bb_size b))"

definition bb_discard :: "byteBuffer \<Rightarrow> int \<Rightarrow> byteBuffer option" where
  "bb_discard b n =
     (if bb_len b = 0 then None
      else Some (b\<lparr>bb_head := (bb_head b + n) mod bb_len b, bb_size := bb_size b - n\<rparr>))"

text \<open>\<^verbatim>\<open>read\<close> into a slice of the given length.\<close>

definition bb_read :: "byteBuffer \<Rightarrow> nat \<Rightarrow> (byteBuffer \<times> bytes) option" where
  "bb_read b l =
     do {
       let n = min (int l) (bb_size b);
       p \<leftarrow> bb_copy_out b n;
       b \<leftarrow> bb_discard b n;
       Some (b, p)
     }"

definition bb_new :: "nat \<Rightarrow> byteBuffer" where
  "bb_new n = \<lparr>bb_data = replicate n 0, bb_head = 0, bb_size = 0\<rparr>"

text \<open>The zero value \<^verbatim>\<open>byteBuffer{}\<close>.\<close>

definition bb_empty :: byteBuffer where
  "bb_empty = \<lparr>bb_data = [], bb_head = 0, bb_size = 0\<rparr>"

subsection \<open>The bytes held\<close>

definition bb_wf :: "byteBuffer \<Rightarrow> bool" where
  "bb_wf b \<longleftrightarrow> 0 \<le> bb_head b \<and> bb_head b < bb_len b \<and> 0 \<le> bb_size b \<and> bb_size b \<le> bb_len b"

definition bb_abs :: "byteBuffer \<Rightarrow> bytes" where
  "bb_abs b = ring (bb_data b) (nat (bb_head b)) (nat (bb_size b))"

lemma bb_new_ok [simp]: "0 < n \<Longrightarrow> bb_wf (bb_new n)" "bb_abs (bb_new n) = []" "bb_len (bb_new n) = int n"
  by (simp_all add: bb_wf_def bb_new_def bb_abs_def)

lemma length_bb_abs [simp]: "length (bb_abs b) = nat (bb_size b)"
  by (simp add: bb_abs_def)

lemma bb_wfE:
  assumes "bb_wf b"
  obtains h k where "bb_head b = int h" "bb_size b = int k" "h < length (bb_data b)" "k \<le> length (bb_data b)"
  using assms that [of "nat (bb_head b)" "nat (bb_size b)"] by (simp add: bb_wf_def nat_less_iff nat_le_iff)

lemma bb_copy_out_ok:
  assumes "bb_wf b" "0 \<le> n" "n \<le> bb_size b"
  shows "bb_copy_out b n = Some (take (nat n) (bb_abs b))"
proof -
  obtain h k where b: "bb_head b = int h" "bb_size b = int k" "h < length (bb_data b)" "k \<le> length (bb_data b)"
    using assms(1) by (rule bb_wfE)
  obtain m where m: "n = int m" "m \<le> k"
    using assms(2,3) b(2) by (metis nat_0_le of_nat_le_iff)
  have f: "nat (int h + min (int m) (int (length (bb_data b)) - int h)) = h + min m (length (bb_data b) - h)"
    "nat (int m - min (int m) (int (length (bb_data b)) - int h)) = m - (length (bb_data b) - h)"
    "h + min m (length (bb_data b) - h) \<le> length (bb_data b)" "m - (length (bb_data b) - h) \<le> length (bb_data b)"
    using b(3,4) m(2) by (auto simp: min_def)
  have "take m (ring (bb_data b) h k) = take m (drop h (bb_data b)) @ take (m - (length (bb_data b) - h)) (bb_data b)"
    using ring_pieces [of h "bb_data b" m] b(3,4) m(2) by (simp add: take_ring)
  moreover have "go_slice (bb_data b) h (h + min m (length (bb_data b) - h)) = take m (drop h (bb_data b))"
    by (simp add: go_slice_def min_def)
  ultimately show ?thesis
    using b m f by (auto simp: bb_copy_out_def bb_abs_def go_sub_def go_slice_def Let_def)
qed

lemma bb_peek_ok: "bb_wf b \<Longrightarrow> 0 \<le> n \<Longrightarrow> bb_peek b n = Some (take (nat n) (bb_abs b))"
  using bb_copy_out_ok [of b "min n (bb_size b)"] by (auto simp: bb_peek_def bb_wf_def min_def)

lemma bb_discard_ok:
  assumes "bb_wf b" "0 \<le> n" "n \<le> bb_size b"
  shows "\<exists>b'. bb_discard b n = Some b' \<and> bb_wf b' \<and> bb_abs b' = drop (nat n) (bb_abs b) \<and> bb_len b' = bb_len b \<and>
    bb_size b' = bb_size b - n"
proof -
  obtain h k where b: "bb_head b = int h" "bb_size b = int k" "h < length (bb_data b)" "k \<le> length (bb_data b)"
    using assms(1) by (rule bb_wfE)
  obtain m where m: "n = int m" "m \<le> k"
    using assms(2,3) b(2) by (metis nat_0_le of_nat_le_iff)
  have h: "(int h + int m) mod bb_len b = int ((h + m) mod length (bb_data b))"
    by (simp add: of_nat_mod)
  have "drop m (ring (bb_data b) h k) = ring (bb_data b) ((h + m) mod length (bb_data b)) (k - m)"
    by (simp add: drop_ring ring_mod)
  then show ?thesis
    using b m h by (auto simp: bb_discard_def bb_wf_def bb_abs_def nat_diff_distrib)
qed

lemma go_copy_ring:
  assumes "h < length d" "k \<le> length d" "m \<le> length d - k" "m \<le> length p"
  defines "t \<equiv> (h + k) mod length d"
  defines "f \<equiv> min m (length d - t)"
  shows "ring (go_copy (go_copy d t (take f p)) 0 (go_slice p f m)) h (k + m) = ring d h k @ take m p"
proof (rule nth_equalityI)
  have t: "t < length d"
    unfolding t_def using assms(1) by (intro mod_less_divisor) linarith
  let ?d = "go_copy (go_copy d t (take f p)) 0 (go_slice p f m)"
  have l: "length ?d = length d"
    using t by simp
  have nth: "?d ! j = (if j < m - f then p ! (f + j) else if t \<le> j \<and> j < t + f then p ! (j - t) else d ! j)"
    if "j < length d" for j
  proof -
    have f: "f \<le> length p" "t + f \<le> length d" "f \<le> m" "m - f \<le> length d"
      using t assms(3,4) by (auto simp: f_def)
    have "go_copy d t (take f p) ! j = (if t \<le> j \<and> j < t + f then p ! (j - t) else d ! j)"
      using that f by (subst nth_go_copy) (auto simp: min_def)
    moreover have "go_slice p f m ! j = p ! (f + j)" if "j < m - f"
      using that f assms(4) by (simp add: go_slice_def)
    ultimately show ?thesis
      using that f t assms(4) by (subst nth_go_copy) (auto simp: min_def)
  qed
  fix i
  assume "i < length (ring ?d h (k + m))"
  then have i: "i < k + m" "i < length d"
    using assms(2,3) by auto
  define j where "j = (h + i) mod length d"
  have j: "j = (if h + i < length d then h + i else h + i - length d)"
    using mod_once [OF assms(1), of i] i(2) by (simp add: j_def)
  have t2: "t = (if h + k < length d then h + k else h + k - length d)"
    using mod_once [OF assms(1), of k] assms(2) by (simp add: t_def)
  have "j < length d"
    using j i(2) assms(1) by auto
  then have "ring ?d h (k + m) ! i = (if j < m - f then p ! (f + j) else if t \<le> j \<and> j < t + f then p ! (j - t) else d ! j)"
    using i(1) l nth [of j] by (simp add: j_def)
  also have "\<dots> = (ring d h k @ take m p) ! i"
  proof (cases "i < k")
    case True
    then have "\<not> j < m - f" "\<not> (t \<le> j \<and> j < t + f)"
      using j t2 assms(1,2,3) by (auto simp: f_def min_def split: if_splits)
    then show ?thesis
      using True unfolding if_not_P [OF \<open>\<not> j < m - f\<close>] by (auto simp: nth_append j_def)
  next
    case False
    then have e: "i - k < m" "(ring d h k @ take m p) ! i = p ! (i - k)"
      using i(1) by (simp_all add: nth_append)
    have "j = t + (i - k) \<and> \<not> j < m - f \<and> t \<le> j \<and> j < t + f \<or> j < m - f \<and> f + j = i - k"
    proof (cases "i - k < f")
      case True
      then have "t + (i - k) < length d"
        using t unfolding f_def by linarith
      then have "j = t + (i - k)"
        using j t2 False assms(1,2) i(2) by (auto split: if_splits)
      moreover have "m - f \<le> t"
        using assms(3) t by (simp add: f_def)
      ultimately show ?thesis
        using True by simp
    next
      case False
      then have "f = length d - t"
        using e(1) by (simp add: f_def min_def split: if_splits)
      then show ?thesis
        using False e(1) j t2 \<open>\<not> i < k\<close> assms(1,2,3) i(2) t by (auto split: if_splits)
    qed
    then show ?thesis
      unfolding e(2) by (elim disjE conjE) simp_all
  qed
  finally show "ring ?d h (k + m) ! i = (ring d h k @ take m p) ! i" .
qed (use assms in auto)

lemma bb_write_ok:
  assumes "bb_wf b"
  shows "\<exists>b' n. bb_write b p = Some (b', n) \<and> bb_wf b' \<and> n = min (length p) (nat (bb_len b - bb_size b)) \<and>
    bb_abs b' = bb_abs b @ take n p \<and> bb_len b' = bb_len b \<and> bb_size b' = bb_size b + int n"
proof -
  obtain h k where b: "bb_head b = int h" "bb_size b = int k" "h < length (bb_data b)" "k \<le> length (bb_data b)"
    using assms(1) by (rule bb_wfE)
  let ?l = "length (bb_data b)"
  define m where "m = min (length p) (?l - k)"
  define t where "t = (h + k) mod ?l"
  have m: "min (int (length p)) (bb_len b - bb_size b) = int m" "m \<le> length p" "m \<le> ?l - k"
    using b(2,4) by (auto simp: m_def min_def)
  have t: "(bb_head b + bb_size b) mod bb_len b = int t" "t < ?l"
    using b(1-3) by (auto simp: t_def of_nat_mod intro!: mod_less_divisor)
  have f: "nat (min (int m) (bb_len b - int t)) = min m (?l - t)"
    using t(2) by (auto simp: min_def)
  let ?d = "go_copy (go_copy (bb_data b) t (take (min m (?l - t)) p)) 0 (go_slice p (min m (?l - t)) m)"
  have l: "length ?d = ?l"
    using t(2) by simp
  let ?b = "b\<lparr>bb_data := ?d, bb_size := int k + int m\<rparr>"
  have "bb_write b p = Some (?b, m)"
    using b(3) m(1) t(1) f by (auto simp: bb_write_def Let_def b(2))
  moreover have "ring ?d h (k + m) = ring (bb_data b) h k @ take m p"
    unfolding t_def by (rule go_copy_ring [OF b(3,4) m(3,2)])
  then have "bb_abs ?b = bb_abs b @ take m p"
    using b(1,2) by (simp add: bb_abs_def nat_add_distrib)
  moreover have "int k + int m \<le> bb_len b"
    using m(3) b(4) by linarith
  then have "bb_wf ?b" "bb_len ?b = bb_len b" "bb_size ?b = bb_size b + int m"
    using l b(1-3) by (simp_all add: bb_wf_def)
  moreover have "m = min (length p) (nat (bb_len b - bb_size b))"
    using b(2,4) by (simp add: m_def nat_diff_distrib)
  ultimately show ?thesis
    by blast
qed

lemma bb_read_ok:
  assumes "bb_wf b"
  shows "\<exists>b'. bb_read b l = Some (b', take l (bb_abs b)) \<and> bb_wf b' \<and> bb_abs b' = drop l (bb_abs b) \<and>
    bb_len b' = bb_len b \<and> bb_size b' = bb_size b - min (int l) (bb_size b)"
proof -
  let ?n = "min (int l) (bb_size b)"
  have n: "0 \<le> ?n" "?n \<le> bb_size b" "nat ?n = min l (nat (bb_size b))"
    using assms by (auto simp: bb_wf_def min_def)
  have "take (nat ?n) (bb_abs b) = take l (bb_abs b)" "drop (nat ?n) (bb_abs b) = drop l (bb_abs b)"
    using n(3) by (auto simp: min_def)
  then show ?thesis
    using bb_copy_out_ok [OF assms n(1,2)] bb_discard_ok [OF assms n(1,2)] by (auto simp: bb_read_def)
qed

interpretation tcp_buffer: byte_stream bb_wf bb_abs bb_write bb_read
proof
  show "\<exists>b' n. bb_write b xs = Some (b', n) \<and> bb_wf b' \<and> n \<le> length xs \<and> bb_abs b' = bb_abs b @ take n xs"
    if "bb_wf b" for b xs
    using bb_write_ok [OF that, of xs] by auto
  show "\<exists>b' ys. bb_read b n = Some (b', ys) \<and> bb_wf b' \<and> bb_abs b = ys @ bb_abs b' \<and> length ys = min n (length (bb_abs b))"
    if "bb_wf b" for b n
    using bb_read_ok [OF that, of n] by (auto simp: min.commute)
qed

end
