(* ===== verification/Tcp_Conn.thy ===== *)
theory Tcp_Conn
  imports Tcp_Buffer Tcp_Packets
begin

text \<open>
  The user-space TCP connections of \<^verbatim>\<open>src/protocol/tcp\<close>: the state of a stack with its
  connections and listeners, and the handlers of \<^verbatim>\<open>tcp.go\<close>. Connections and listeners are
  shared by reference in the code; here they live in a store under an identifier, and the
  maps, queues and fields of the code hold identifiers. Every handler runs under the
  stack's lock and is a function of the whole stack state; a panic is \<^const>\<open>None\<close>.

  A \<^verbatim>\<open>time.Time\<close> is the number of nanoseconds since the zero time, so that the zero value is
  0; a \<^verbatim>\<open>time.Duration\<close> is a number of nanoseconds. The event channel that \<^verbatim>\<open>notify\<close> closes
  and replaces is a generation number: a waiter wakes up when it changes. The channels
  that wake the sending loop only decide when that loop runs and are not represented.
\<close>

type_synonym cid = nat
type_synonym lid = nat
type_synonym time = int

datatype tcp_state =
  closed | synSent | synReceived | established | finWait1 | finWait2 | closeWait | closing | lastAck | timeWait

datatype tcp_error = ErrClosed | ErrTimeout | ErrEOF | ErrDeadlineExceeded | ErrMsg string

record Addr =
  addr_Ip :: Ipv4Addr
  addr_Port :: u16

record Packet =
  packet_Addr :: Ipv4AddrPair
  packet_Data :: bytes

record outbound =
  out_packet :: Packet
  out_conn :: "cid option"
  out_end :: u32
  out_track :: bool

record Conn =
  c_local :: Addr
  c_remote :: Addr
  c_event :: nat
  c_rd :: time
  c_wd :: time
  c_err :: "tcp_error option"
  c_appClosed :: bool
  c_writeClosed :: bool
  c_listener :: "lid option"
  c_state :: tcp_state
  c_iss :: u32
  c_irs :: u32
  c_sndUna :: u32
  c_sndNxt :: u32
  c_rcvNxt :: u32
  c_wlSeq :: u32
  c_wlAck :: u32
  c_peerWindow :: u32
  c_peerMss :: int
  c_tx :: byteBuffer
  c_rx :: byteBuffer
  c_inflight :: int
  c_finSent :: bool
  c_recvFin :: bool
  c_finSeq :: u32
  c_handshakeEnd :: time
  c_closeEnd :: time
  c_timeWaitEnd :: time
  c_progress :: time
  c_retransmitAt :: time
  c_sentAt :: time
  c_probeAt :: time
  c_rto :: int
  c_srtt :: int
  c_rttvar :: int
  c_probeInterval :: int
  c_rttValid :: bool
  c_pending :: "outbound option"
  c_pendingAt :: time

record Listener =
  l_local :: Addr
  l_incomplete :: int
  l_pending :: "cid list"
  l_event :: nat
  l_closed :: bool

text \<open>The maps of the stack; \<^verbatim>\<open>ports\<close> counts are zero where the code has no entry.\<close>

record Stack =
  s_conns :: "((Addr \<times> Addr) \<times> cid) list"
  s_listeners :: "(Addr \<times> lid) list"
  s_ports :: "Addr \<Rightarrow> int"
  s_nextPort :: u16
  s_tx :: "outbound list"
  s_closed :: bool
  s_conn :: "cid \<Rightarrow> Conn"
  s_lis :: "lid \<Rightarrow> Listener"
  s_ncid :: cid
  s_nlid :: lid

definition mss :: u16 where "mss = 1200"
definition sendBufferSize :: nat where "sendBufferSize = 16 * 1024"
definition receiveBufferSize :: nat where "receiveBufferSize = 16 * 1024"
definition maxConnections :: nat where "maxConnections = 1024"
definition listenBacklog :: nat where "listenBacklog = 128"
definition second :: int where "second = 1000000000"
definition millisecond :: int where "millisecond = 1000000"
definition microsecond :: int where "microsecond = 1000"
definition handshakeTimeout :: int where "handshakeTimeout = 5 * second"
definition userTimeout :: int where "userTimeout = 120 * second"
definition closeTimeout :: int where "closeTimeout = 30 * second"
definition timeWaitDuration :: int where "timeWaitDuration = 240 * second"

definition has_flag :: "TcpPkt \<Rightarrow> u8 \<Rightarrow> bool" where
  "has_flag p f \<longleftrightarrow> tcp_Flags p AND f \<noteq> 0"

definition seqLess :: "u32 \<Rightarrow> u32 \<Rightarrow> bool" where
  "seqLess a b \<longleftrightarrow> sint (a - b) < 0"

definition upd_conn :: "cid \<Rightarrow> (Conn \<Rightarrow> Conn) \<Rightarrow> Stack \<Rightarrow> Stack" where
  "upd_conn i f s = s\<lparr>s_conn := (s_conn s)(i := f (s_conn s i))\<rparr>"

definition upd_lis :: "lid \<Rightarrow> (Listener \<Rightarrow> Listener) \<Rightarrow> Stack \<Rightarrow> Stack" where
  "upd_lis l f s = s\<lparr>s_lis := (s_lis s)(l := f (s_lis s l))\<rparr>"

definition queue :: "outbound \<Rightarrow> Stack \<Rightarrow> Stack" where
  "queue out s = (if maxConnections * 4 + 16 \<le> length (s_tx s) then s else s\<lparr>s_tx := s_tx s @ [out]\<rparr>)"

definition release :: "Addr \<Rightarrow> Stack \<Rightarrow> Stack" where
  "release local s = s\<lparr>s_ports := (s_ports s)(local := s_ports s local - 1)\<rparr>"

definition notify :: "cid \<Rightarrow> Stack \<Rightarrow> Stack" where
  "notify i = upd_conn i (\<lambda>c. c\<lparr>c_event := c_event c + 1\<rparr>)"

text \<open>The length a segment takes in sequence space.\<close>

definition flag_len :: "u8 \<Rightarrow> u32" where
  "flag_len flags = (if flags AND TCP_FLAGS_SYN \<noteq> 0 then 1 else 0) + (if flags AND TCP_FLAGS_FIN \<noteq> 0 then 1 else 0)"

definition zero_pkt :: TcpPkt where
  "zero_pkt = \<lparr>tcp_Payload = [], tcp_SrcPort = 0, tcp_DstPort = 0, tcp_SeqNum = 0, tcp_AckNum = 0, tcp_Flags = 0,
     tcp_Window = 0, tcp_Mss = 0\<rparr>"

definition reset_pkt :: "Addr \<times> Addr \<Rightarrow> TcpPkt \<Rightarrow> TcpPkt" where
  "reset_pkt key p =
     (let r = zero_pkt\<lparr>tcp_SrcPort := addr_Port (fst key), tcp_DstPort := addr_Port (snd key), tcp_Flags := TCP_FLAGS_RST\<rparr> in
      if has_flag p TCP_FLAGS_ACK then r\<lparr>tcp_SeqNum := tcp_AckNum p\<rparr>
      else r\<lparr>tcp_Flags := TCP_FLAGS_RST OR TCP_FLAGS_ACK,
             tcp_AckNum := tcp_SeqNum p + of_nat (length (tcp_Payload p)) + flag_len (tcp_Flags p)\<rparr>)"

definition reset_seg :: "bool \<Rightarrow> Addr \<times> Addr \<Rightarrow> TcpPkt \<Rightarrow> Stack \<Rightarrow> Stack" where
  "reset_seg ce key p s =
     (let addr = \<lparr>pair_SrcAddr = addr_Ip (fst key), pair_DstAddr = addr_Ip (snd key)\<rparr> in
      case BuildTcpPkt ce [] (reset_pkt key p) addr of
        Inl e \<Rightarrow> s
      | Inr raw \<Rightarrow> queue \<lparr>out_packet = \<lparr>packet_Addr = addr, packet_Data = raw\<rparr>, out_conn = None, out_end = 0,
                   out_track = False\<rparr> s)"

text \<open>Taking a connection out of its listener when it fails.\<close>

definition leave_listener :: "cid \<Rightarrow> Stack \<Rightarrow> Stack" where
  "leave_listener i s =
     (let c = s_conn s i in
      case c_listener c of
        None \<Rightarrow> s
      | Some l \<Rightarrow>
          if c_state c = synReceived then upd_lis l (\<lambda>x. x\<lparr>l_incomplete := l_incomplete x - 1\<rparr>) s
          else upd_lis l (\<lambda>x. x\<lparr>l_pending := remove1 i (l_pending x)\<rparr>) s)"

definition conn_key :: "Conn \<Rightarrow> Addr \<times> Addr" where
  "conn_key c = (c_local c, c_remote c)"

definition fail :: "bool \<Rightarrow> cid \<Rightarrow> tcp_error option \<Rightarrow> bool \<Rightarrow> Stack \<Rightarrow> Stack" where
  "fail ce i err reset s =
     (let c = s_conn s i in
      if c_state c = closed then s
      else
        let s = (if reset \<and> c_state c \<noteq> synSent \<and> c_state c \<noteq> timeWait \<and> \<not> s_closed s
                 then reset_seg ce (conn_key c) (zero_pkt\<lparr>tcp_Flags := TCP_FLAGS_ACK, tcp_AckNum := c_sndNxt c\<rparr>) s
                 else s);
            s = leave_listener i s;
            s = upd_conn i (\<lambda>c. c\<lparr>c_state := closed, c_err := err, c_pending := None, c_tx := bb_empty\<rparr>) s;
            s = s\<lparr>s_conns := filter (\<lambda>(k, _). k \<noteq> conn_key c) (s_conns s)\<rparr>;
            s = release (c_local c) s
        in notify i s)"

definition seg_pkt :: "Conn \<Rightarrow> u8 \<Rightarrow> u32 \<Rightarrow> bytes \<Rightarrow> TcpPkt" where
  "seg_pkt c flags seq data =
     \<lparr>tcp_Payload = data, tcp_SrcPort = addr_Port (c_local c), tcp_DstPort = addr_Port (c_remote c), tcp_SeqNum = seq,
      tcp_AckNum = c_rcvNxt c, tcp_Flags = flags, tcp_Window = of_int (bb_len (c_rx c) - bb_size (c_rx c)),
      tcp_Mss = (if flags AND TCP_FLAGS_SYN \<noteq> 0 then mss else 0)\<rparr>"

definition emit :: "bool \<Rightarrow> cid \<Rightarrow> u8 \<Rightarrow> u32 \<Rightarrow> bytes \<Rightarrow> bool \<Rightarrow> Stack \<Rightarrow> Stack" where
  "emit ce i flags seq data track s =
     (let c = s_conn s i;
          addr = \<lparr>pair_SrcAddr = addr_Ip (c_local c), pair_DstAddr = addr_Ip (c_remote c)\<rparr>
      in case BuildTcpPkt ce [] (seg_pkt c flags seq data) addr of
           Inl e \<Rightarrow> fail ce i (Some (ErrMsg e)) False s
         | Inr raw \<Rightarrow>
             queue \<lparr>out_packet = \<lparr>packet_Addr = addr, packet_Data = raw\<rparr>, out_conn = Some i,
               out_end = seq + of_nat (length data) + flag_len flags, out_track = track\<rparr> s)"

definition send_ack :: "bool \<Rightarrow> cid \<Rightarrow> Stack \<Rightarrow> Stack" where
  "send_ack ce i s = emit ce i TCP_FLAGS_ACK (c_sndNxt (s_conn s i)) [] False s"

definition enterTimeWait :: "cid \<Rightarrow> time \<Rightarrow> Stack \<Rightarrow> Stack" where
  "enterTimeWait i now s =
     notify i (upd_conn i (\<lambda>c. c\<lparr>c_state := timeWait, c_timeWaitEnd := now + timeWaitDuration, c_pending := None,
       c_tx := bb_empty\<rparr>) s)"

subsection \<open>Sending\<close>

definition pump_data :: "bool \<Rightarrow> cid \<Rightarrow> time \<Rightarrow> Stack \<Rightarrow> Stack option" where
  "pump_data ce i now s =
     (let c = s_conn s i;
          n = min (min (bb_size (c_tx c)) (c_peerMss c)) (min (uint mss) (uint (c_peerWindow c)));
          seq = c_sndNxt c;
          s = upd_conn i (\<lambda>c. c\<lparr>c_inflight := n, c_sndNxt := c_sndNxt c + of_int n, c_sentAt := now, c_rttValid := True,
                c_retransmitAt := now + c_rto c\<rparr>) s
      in do {
           data \<leftarrow> bb_peek (c_tx c) n;
           Some (emit ce i (TCP_FLAGS_ACK OR TCP_FLAGS_PSH) seq data True s)
         })"

definition pump_fin :: "bool \<Rightarrow> cid \<Rightarrow> time \<Rightarrow> Stack \<Rightarrow> Stack" where
  "pump_fin ce i now s =
     (let c = s_conn s i;
          s = upd_conn i (\<lambda>c. c\<lparr>c_finSent := True, c_finSeq := c_sndNxt c, c_sndNxt := c_sndNxt c + 1,
                c_state := (if c_state c = closeWait then lastAck else finWait1), c_retransmitAt := now + c_rto c\<rparr>) s
      in emit ce i (TCP_FLAGS_FIN OR TCP_FLAGS_ACK) (c_sndNxt c) [] True s)"

definition pump :: "bool \<Rightarrow> cid \<Rightarrow> time \<Rightarrow> Stack \<Rightarrow> Stack option" where
  "pump ce i now s =
     (let c = s_conn s i in
      if c_state c \<noteq> established \<and> c_state c \<noteq> closeWait then Some s
      else if c_inflight c \<noteq> 0 then Some s
      else if c_peerWindow c = 0 then
        Some (if (bb_size (c_tx c) \<noteq> 0 \<or> c_writeClosed c) \<and> c_probeAt c = 0
              then upd_conn i (\<lambda>c. c\<lparr>c_probeInterval := c_rto c, c_probeAt := now + c_rto c\<rparr>) s
              else s)
      else if bb_size (c_tx c) \<noteq> 0 then pump_data ce i now s
      else if c_writeClosed c \<and> \<not> c_finSent c then Some (pump_fin ce i now s)
      else Some s)"

subsection \<open>Receiving\<close>

definition input_synSent :: "bool \<Rightarrow> cid \<Rightarrow> TcpPkt \<Rightarrow> Stack \<Rightarrow> Stack" where
  "input_synSent ce i p s =
     (let c = s_conn s i in
      if has_flag p TCP_FLAGS_ACK \<and> tcp_AckNum p \<noteq> c_sndNxt c then
        (if has_flag p TCP_FLAGS_RST then s else reset_seg ce (conn_key c) p s)
      else if has_flag p TCP_FLAGS_RST then
        (if has_flag p TCP_FLAGS_ACK then fail ce i (Some (ErrMsg ''tcp: connection refused'')) False s else s)
      else if tcp_Flags p AND (TCP_FLAGS_SYN OR TCP_FLAGS_ACK OR TCP_FLAGS_FIN) \<noteq> TCP_FLAGS_SYN OR TCP_FLAGS_ACK then s
      else
        let s = upd_conn i (\<lambda>c. c\<lparr>c_sndUna := tcp_AckNum p, c_irs := tcp_SeqNum p, c_rcvNxt := tcp_SeqNum p + 1,
                  c_peerMss := (if tcp_Mss p \<noteq> 0 then uint (tcp_Mss p) else c_peerMss c),
                  c_peerWindow := ucast (tcp_Window p), c_wlSeq := tcp_SeqNum p, c_wlAck := tcp_AckNum p,
                  c_state := established, c_pending := None\<rparr>) s
        in notify i (send_ack ce i s))"

definition input_timeWait :: "bool \<Rightarrow> cid \<Rightarrow> TcpPkt \<Rightarrow> time \<Rightarrow> Stack \<Rightarrow> Stack" where
  "input_timeWait ce i p now s =
     (if has_flag p TCP_FLAGS_RST then s
      else if has_flag p TCP_FLAGS_FIN \<and>
          tcp_SeqNum p + of_nat (length (tcp_Payload p)) + 1 = c_rcvNxt (s_conn s i)
      then send_ack ce i (upd_conn i (\<lambda>c. c\<lparr>c_timeWaitEnd := now + timeWaitDuration\<rparr>) s)
      else if \<not> has_flag p TCP_FLAGS_ACK \<or> tcp_Payload p \<noteq> [] then send_ack ce i s
      else s)"

text \<open>Where a segment lies relative to the receive window: its signed offset from the next
  expected byte, its length in sequence space, and whether any of it is acceptable.\<close>

definition seg_offset :: "Conn \<Rightarrow> TcpPkt \<Rightarrow> int" where
  "seg_offset c p = sint (tcp_SeqNum p - c_rcvNxt c)"

definition rcv_window :: "Conn \<Rightarrow> int" where
  "rcv_window c = bb_len (c_rx c) - bb_size (c_rx c)"

definition segLen :: "TcpPkt \<Rightarrow> int" where
  "segLen p = int (length (tcp_Payload p)) + (if has_flag p TCP_FLAGS_SYN then 1 else 0) +
     (if has_flag p TCP_FLAGS_FIN then 1 else 0)"

definition acceptable :: "Conn \<Rightarrow> TcpPkt \<Rightarrow> bool" where
  "acceptable c p \<longleftrightarrow>
     (let window = rcv_window c; offset = seg_offset c p; l = segLen p in
      l = 0 \<and> offset = 0 \<or>
      window > 0 \<and> offset < window \<and> (l = 0 \<and> offset \<ge> 0 \<or> l > 0 \<and> offset + l > 0))"

text \<open>The last step of the passive handshake.\<close>

definition input_establish :: "cid \<Rightarrow> TcpPkt \<Rightarrow> Stack \<Rightarrow> Stack option" where
  "input_establish i p s =
     (let s = upd_conn i (\<lambda>c. c\<lparr>c_state := established, c_sndUna := tcp_AckNum p, c_pending := None\<rparr>) s in
      case c_listener (s_conn s i) of
        None \<Rightarrow> None
      | Some l \<Rightarrow> Some (upd_lis l (\<lambda>x. x\<lparr>l_incomplete := l_incomplete x - 1, l_pending := l_pending x @ [i],
                    l_event := l_event x + 1\<rparr>) s))"

definition input_window :: "cid \<Rightarrow> TcpPkt \<Rightarrow> time \<Rightarrow> Stack \<Rightarrow> Stack" where
  "input_window i p now s =
     (let c = s_conn s i in
      if \<not> seqLess (tcp_AckNum p) (c_sndUna c) \<and>
         (seqLess (c_wlSeq c) (tcp_SeqNum p) \<or> c_wlSeq c = tcp_SeqNum p \<and> \<not> seqLess (tcp_AckNum p) (c_wlAck c))
      then upd_conn i (\<lambda>c. c\<lparr>c_peerWindow := ucast (tcp_Window p), c_wlSeq := tcp_SeqNum p, c_wlAck := tcp_AckNum p,
             c_probeAt := (if tcp_Window p \<noteq> 0 then 0 else c_probeAt c),
             c_retransmitAt := (if tcp_Window p \<noteq> 0 \<and> c_peerWindow c = 0 \<and> c_inflight c > 0 then now
                                else c_retransmitAt c)\<rparr>) s
      else s)"

text \<open>The round-trip estimate after an acknowledgement of a segment sent once.\<close>

definition rtt_sample :: "time \<Rightarrow> Conn \<Rightarrow> Conn" where
  "rtt_sample now c =
     (if \<not> c_rttValid c then c
      else
        let rtt = max (now - c_sentAt c) microsecond;
            c = (if c_srtt c = 0 then c\<lparr>c_srtt := rtt, c_rttvar := rtt div 2\<rparr>
                 else c\<lparr>c_rttvar := (3 * c_rttvar c + \<bar>c_srtt c - rtt\<bar>) div 4, c_srtt := (7 * c_srtt c + rtt) div 8\<rparr>)
        in c\<lparr>c_rto := min (max (c_srtt c + max (20 * millisecond) (4 * c_rttvar c)) second) (60 * second),
             c_rttValid := False\<rparr>)"

text \<open>Processing the acknowledgement number; the flag tells whether to go on with the segment.\<close>

definition ack_advance :: "cid \<Rightarrow> TcpPkt \<Rightarrow> time \<Rightarrow> Stack \<Rightarrow> Stack option" where
  "ack_advance i p now s =
     do {
       let c = s_conn s i;
       let n = uint (tcp_AckNum p - c_sndUna c);
       s \<leftarrow> (if c_inflight c > 0 then
               do {
                 let consumed = min n (c_inflight c);
                 tx \<leftarrow> bb_discard (c_tx c) consumed;
                 Some (upd_conn i (\<lambda>c. rtt_sample now (c\<lparr>c_tx := tx, c_inflight := c_inflight c - consumed\<rparr>)) s)
               }
             else Some s);
       Some (notify i (upd_conn i (\<lambda>c. c\<lparr>c_sndUna := tcp_AckNum p, c_progress := now,
               c_retransmitAt := now + c_rto c, c_pending := None\<rparr>) s))
     }"

definition input_ackno :: "bool \<Rightarrow> cid \<Rightarrow> TcpPkt \<Rightarrow> time \<Rightarrow> Stack \<Rightarrow> (Stack \<times> bool) option" where
  "input_ackno ce i p now s =
     (if \<not> seqLess (c_sndUna (s_conn s i)) (tcp_AckNum p) then Some (s, True)
      else do {
        s \<leftarrow> ack_advance i p now s;
        let c = s_conn s i;
        Some (if c_finSent c \<and> tcp_AckNum p = c_finSeq c + 1 then
                (case c_state c of
                   finWait1 \<Rightarrow> (upd_conn i (\<lambda>c. c\<lparr>c_state := finWait2\<rparr>) s, True)
                 | closing \<Rightarrow> (enterTimeWait i now s, True)
                 | lastAck \<Rightarrow> (fail ce i None False s, False)
                 | _ \<Rightarrow> (s, True))
              else (s, True))
      })"

definition input_data :: "bool \<Rightarrow> cid \<Rightarrow> TcpPkt \<Rightarrow> int \<Rightarrow> Stack \<Rightarrow> (Stack \<times> bool) option" where
  "input_data ce i p offset s =
     (let c = s_conn s i;
          trim = (if offset < 0 then min (- offset) (int (length (tcp_Payload p))) else 0);
          data = drop (nat trim) (tcp_Payload p);
          offset = offset + trim
      in
      if offset = 0 \<and> data \<noteq> [] \<and> \<not> c_recvFin c then
        (if c_appClosed c then Some (fail ce i (Some (ErrMsg ''tcp: data received after close'')) True s, False)
         else do {
           (rx, n) \<leftarrow> bb_write (c_rx c) data;
           Some (notify i (upd_conn i (\<lambda>c. c\<lparr>c_rx := rx, c_rcvNxt := c_rcvNxt c + of_nat n\<rparr>) s), True)
         })
      else Some (s, True))"

definition input_fin :: "cid \<Rightarrow> TcpPkt \<Rightarrow> int \<Rightarrow> u32 \<Rightarrow> time \<Rightarrow> Stack \<Rightarrow> Stack" where
  "input_fin i p window receiveRight now s =
     (let c = s_conn s i; finSeq = tcp_SeqNum p + of_nat (length (tcp_Payload p)) in
      if has_flag p TCP_FLAGS_FIN \<and> \<not> c_recvFin c \<and> finSeq = c_rcvNxt c \<and> window > 0 \<and> seqLess finSeq receiveRight then
        let s = upd_conn i (\<lambda>c. c\<lparr>c_recvFin := True, c_rcvNxt := c_rcvNxt c + 1\<rparr>) s;
            s = (case c_state c of
                   established \<Rightarrow> upd_conn i (\<lambda>c. c\<lparr>c_state := closeWait\<rparr>) s
                 | finWait1 \<Rightarrow> upd_conn i (\<lambda>c. c\<lparr>c_state := closing\<rparr>) s
                 | finWait2 \<Rightarrow> enterTimeWait i now s
                 | _ \<Rightarrow> s)
        in notify i s
      else s)"

text \<open>A segment whose acknowledgement is acceptable, from the state update on.\<close>

definition input_segment :: "bool \<Rightarrow> cid \<Rightarrow> TcpPkt \<Rightarrow> time \<Rightarrow> Stack \<Rightarrow> Stack option" where
  "input_segment ce i p now s0 =
     do {
       let c = s_conn s0 i;
       let window = rcv_window c;
       let receiveRight = c_rcvNxt c + of_int window;
       s \<leftarrow> (if c_state c = synReceived then input_establish i p s0 else Some s0);
       let s = input_window i p now s;
       (s, more) \<leftarrow> input_ackno ce i p now s;
       if \<not> more then Some s
       else do {
         (s, more) \<leftarrow> input_data ce i p (seg_offset c p) s;
         if \<not> more then Some s
         else do {
           let s = input_fin i p window receiveRight now s;
           let s = (if tcp_Payload p \<noteq> [] \<or> has_flag p TCP_FLAGS_FIN then send_ack ce i s else s);
           pump ce i now s
         }
       }
     }"

definition input :: "bool \<Rightarrow> cid \<Rightarrow> TcpPkt \<Rightarrow> time \<Rightarrow> Stack \<Rightarrow> Stack option" where
  "input ce i p now s =
     (let c = s_conn s i in
      if c_state c = synSent then Some (input_synSent ce i p s)
      else if c_state c = synReceived \<and>
          tcp_Flags p AND (TCP_FLAGS_SYN OR TCP_FLAGS_ACK OR TCP_FLAGS_RST) = TCP_FLAGS_SYN \<and> tcp_SeqNum p = c_irs c
      then Some (emit ce i (TCP_FLAGS_SYN OR TCP_FLAGS_ACK) (c_iss c) [] True s)
      else if c_state c = timeWait then Some (input_timeWait ce i p now s)
      else if tcp_Flags p AND (TCP_FLAGS_SYN OR TCP_FLAGS_ACK OR TCP_FLAGS_RST) = TCP_FLAGS_SYN OR TCP_FLAGS_ACK \<and>
          tcp_SeqNum p = c_irs c \<and> tcp_AckNum p = c_iss c + 1
      then Some (send_ack ce i s)
      else if has_flag p TCP_FLAGS_RST then
        Some (if tcp_SeqNum p = c_rcvNxt c then fail ce i (Some (ErrMsg ''tcp: connection reset by peer'')) False s
              else if acceptable c p then send_ack ce i s
              else s)
      else if \<not> acceptable c p \<or> has_flag p TCP_FLAGS_SYN then Some (send_ack ce i s)
      else if \<not> has_flag p TCP_FLAGS_ACK then Some s
      else if seqLess (c_sndNxt c) (tcp_AckNum p) then Some (send_ack ce i s)
      else if c_state c = synReceived \<and> (tcp_AckNum p \<noteq> c_sndNxt c \<or> tcp_SeqNum p \<noteq> c_rcvNxt c) then Some s
      else input_segment ce i p now s)"

subsection \<open>Timers\<close>

definition tick_probe :: "bool \<Rightarrow> cid \<Rightarrow> time \<Rightarrow> Stack \<Rightarrow> Stack option" where
  "tick_probe ce i now s =
     do {
       let s = (if c_probeAt (s_conn s i) = 0
                then upd_conn i (\<lambda>c. c\<lparr>c_probeInterval := c_rto c, c_probeAt := now + c_rto c\<rparr>) s else s);
       if now < c_probeAt (s_conn s i) then Some s
       else do {
         let s = upd_conn i (\<lambda>c. c\<lparr>c_rttValid := False\<rparr>) s;
         s \<leftarrow> (if bb_size (c_tx (s_conn s i)) \<noteq> 0 then
                 do {
                   let s = (if c_inflight (s_conn s i) = 0
                            then upd_conn i (\<lambda>c. c\<lparr>c_inflight := 1, c_sndNxt := c_sndNxt c + 1\<rparr>) s else s);
                   data \<leftarrow> bb_peek (c_tx (s_conn s i)) 1;
                   Some (emit ce i TCP_FLAGS_ACK (c_sndUna (s_conn s i)) data True s)
                 }
               else Some (emit ce i TCP_FLAGS_ACK (c_sndNxt (s_conn s i) - 1) [0] False s));
         Some (upd_conn i (\<lambda>c. let iv = min (c_probeInterval c * 2) (60 * second)
                               in c\<lparr>c_probeInterval := iv, c_probeAt := now + iv\<rparr>) s)
       }
     }"

definition tick_retransmit :: "bool \<Rightarrow> cid \<Rightarrow> time \<Rightarrow> Stack \<Rightarrow> Stack option" where
  "tick_retransmit ce i now s =
     (let c = s_conn s i in
      if c_sndUna c \<noteq> c_sndNxt c \<and> \<not> now < c_retransmitAt c then
        let s = upd_conn i (\<lambda>c. let r = min (c_rto c * 2) (60 * second)
                                in c\<lparr>c_rttValid := False, c_rto := r, c_retransmitAt := now + r\<rparr>) s
        in
        if c_inflight c \<noteq> 0 then
          do {
            data \<leftarrow> bb_peek (c_tx c) (c_inflight c);
            Some (emit ce i (TCP_FLAGS_ACK OR TCP_FLAGS_PSH) (c_sndUna c) data True s)
          }
        else if c_finSent c then Some (emit ce i (TCP_FLAGS_ACK OR TCP_FLAGS_FIN) (c_finSeq c) [] True s)
        else Some s
      else Some s)"

text \<open>Whether a deadline of the connection has passed.\<close>

definition tick_expired :: "Conn \<Rightarrow> time \<Rightarrow> bool" where
  "tick_expired c now \<longleftrightarrow>
     (if c_state c = synSent \<or> c_state c = synReceived then \<not> now < c_handshakeEnd c
      else c_closeEnd c \<noteq> 0 \<and> \<not> now < c_closeEnd c \<or>
           bb_size (c_tx c) \<noteq> 0 \<and> c_progress c \<noteq> 0 \<and> now - c_progress c \<ge> userTimeout)"

definition tick_pending :: "cid \<Rightarrow> outbound \<Rightarrow> time \<Rightarrow> Stack \<Rightarrow> Stack" where
  "tick_pending i out now s =
     (let s = upd_conn i (\<lambda>c. c\<lparr>c_pending := None, c_pendingAt := now + 100 * millisecond\<rparr>) s in
      if seqLess (c_sndUna (s_conn s i)) (out_end out) then queue out s else s)"

definition tick :: "bool \<Rightarrow> cid \<Rightarrow> time \<Rightarrow> Stack \<Rightarrow> Stack option" where
  "tick ce i now s =
     (let c = s_conn s i in
      if c_state c = closed then Some s
      else if c_state c = timeWait then Some (if now < c_timeWaitEnd c then s else fail ce i None False s)
      else if tick_expired c now then Some (fail ce i (Some ErrTimeout) True s)
      else
        case (if now < c_pendingAt c then None else c_pending c) of
          Some out \<Rightarrow> Some (tick_pending i out now s)
        | None \<Rightarrow>
            if c_state c = synSent \<or> c_state c = synReceived then Some s
            else if c_peerWindow c = 0 \<and> (bb_size (c_tx c) \<noteq> 0 \<or> c_writeClosed c \<and> \<not> c_finSent c)
            then tick_probe ce i now s
            else do {
              s \<leftarrow> tick_retransmit ce i now s;
              pump ce i now s
            })"

end
