(* ===== verification/Tcp_Stack.thy ===== *)
theory Tcp_Stack
  imports Tcp_Conn "HOL-Library.Signed_Division"
begin

text \<open>
  The stack, its listeners and the calls of the application: \<^verbatim>\<open>stack.go\<close>, \<^verbatim>\<open>listener.go\<close> and
  \<^verbatim>\<open>conn.go\<close> of \<^verbatim>\<open>src/protocol/tcp\<close>. A call that blocks is a loop that releases the lock while it
  waits; each turn of the loop is one step here, which says whether the call returns or
  waits. The goroutine of the stack is the timer step and the two halves of sending a
  packet, before and after the output callback. The order in which Go iterates over the
  connections is an argument of the steps that do.
\<close>

subsection \<open>Addresses and ports\<close>

definition unicast :: "Ipv4Addr \<Rightarrow> bool" where
  "unicast ip \<longleftrightarrow> ip_bytes ip ! 0 \<noteq> 0 \<and> ip_bytes ip ! 0 < 224 \<and> ip \<noteq> BROADCAST_IPV4_ADDR"

definition reserve :: "Addr \<Rightarrow> Stack \<Rightarrow> Stack \<times> bool" where
  "reserve local s =
     (if s_ports s local \<noteq> 0 then (s, False) else (s\<lparr>s_ports := (s_ports s)(local := 1)\<rparr>, True))"

text \<open>The search for a free ephemeral port, at most \<open>n\<close> candidates.\<close>

fun find_port :: "nat \<Rightarrow> Ipv4Addr \<Rightarrow> Stack \<Rightarrow> Stack \<times> Addr option" where
  "find_port 0 ip s = (s, None)"
| "find_port (Suc n) ip s =
     (let candidate = \<lparr>addr_Ip = ip, addr_Port = s_nextPort s\<rparr>;
          np = s_nextPort s + 1;
          s = s\<lparr>s_nextPort := (if np < 49152 then 49152 else np)\<rparr>;
          (s, free) = reserve candidate s
      in if free then (s, Some candidate) else find_port n ip s)"

definition portTries :: nat where "portTries = 16384"

subsection \<open>Connections\<close>

text \<open>Microseconds of Unix time.\<close>

definition UnixMicro :: "time \<Rightarrow> int" where
  "UnixMicro t = (t - 62135596800 * second) div microsecond"

definition new_iss :: "(bytes \<Rightarrow> bytes) \<Rightarrow> Addr \<Rightarrow> Addr \<Rightarrow> time \<Rightarrow> u32" where
  "new_iss mac local remote now =
     get_be32 (mac (ip_bytes (addr_Ip local) @ ip_bytes (addr_Ip remote) @ be16 (addr_Port local) @ be16 (addr_Port remote))) +
     of_int (UnixMicro now sdiv 4)"

definition fresh_conn :: "u32 \<Rightarrow> Addr \<Rightarrow> Addr \<Rightarrow> time \<Rightarrow> Conn" where
  "fresh_conn iss local remote now =
     \<lparr>c_local = local, c_remote = remote, c_event = 0, c_rd = 0, c_wd = 0, c_err = None, c_appClosed = False,
      c_writeClosed = False, c_listener = None, c_state = closed, c_iss = iss, c_irs = 0, c_sndUna = iss, c_sndNxt = iss,
      c_rcvNxt = 0, c_wlSeq = 0, c_wlAck = 0, c_peerWindow = 0, c_peerMss = 536, c_tx = bb_new sendBufferSize,
      c_rx = bb_new receiveBufferSize, c_inflight = 0, c_finSent = False, c_recvFin = False, c_finSeq = 0,
      c_handshakeEnd = now + handshakeTimeout, c_closeEnd = 0, c_timeWaitEnd = 0, c_progress = 0, c_retransmitAt = 0,
      c_sentAt = 0, c_probeAt = 0, c_rto = second, c_srtt = 0, c_rttvar = 0, c_probeInterval = 0, c_rttValid = False,
      c_pending = None, c_pendingAt = 0\<rparr>"

definition newConn :: "(bytes \<Rightarrow> bytes) \<Rightarrow> Addr \<Rightarrow> Addr \<Rightarrow> time \<Rightarrow> Stack \<Rightarrow> Stack \<times> cid" where
  "newConn mac local remote now s =
     (let i = s_ncid s; c = fresh_conn (new_iss mac local remote now) local remote now in
      (s\<lparr>s_conn := (s_conn s)(i := c), s_ncid := i + 1,
         s_conns := ((local, remote), i) # filter (\<lambda>(k, _). k \<noteq> (local, remote)) (s_conns s)\<rparr>, i))"

text \<open>\<^verbatim>\<open>Dial\<close> up to the wait for the handshake.\<close>

definition Dial :: "bool \<Rightarrow> (bytes \<Rightarrow> bytes) \<Rightarrow> Addr \<Rightarrow> Addr \<Rightarrow> time \<Rightarrow> Stack \<Rightarrow> Stack \<times> (tcp_error + cid)" where
  "Dial ce mac remote local now s =
     (if \<not> unicast (addr_Ip remote) \<or> addr_Port remote = 0 then (s, Err (ErrMsg ''tcp: invalid remote address''))
      else if \<not> unicast (addr_Ip local) then (s, Err (ErrMsg ''tcp: invalid local address''))
      else if s_closed s then (s, Err ErrClosed)
      else if maxConnections \<le> length (s_conns s) then (s, Err (ErrMsg ''tcp: connection limit reached''))
      else
        let open_conn = (\<lambda>local s.
              let (s, i) = newConn mac local remote now s;
                  s = upd_conn i (\<lambda>c. c\<lparr>c_state := synSent, c_sndNxt := c_sndNxt c + 1\<rparr>) s
              in (emit ce i TCP_FLAGS_SYN (c_iss (s_conn s i)) [] True s, Ok i))
        in
        if addr_Port local \<noteq> 0 then
          (case reserve local s of
             (s, False) \<Rightarrow> (s, Err (ErrMsg ''tcp: local port is in use''))
           | (s, True) \<Rightarrow> open_conn local s)
        else
          (case find_port portTries (addr_Ip local) s of
             (s, None) \<Rightarrow> (s, Err (ErrMsg ''tcp: no available local port''))
           | (s, Some local) \<Rightarrow> open_conn local s))"

text \<open>One look of a dialling application at its connection.\<close>

datatype 'a poll = Waiting | Returned 'a

definition Dial_poll :: "cid \<Rightarrow> Stack \<Rightarrow> (tcp_error + cid) poll" where
  "Dial_poll i s =
     (let c = s_conn s i in
      if c_state c = synSent then Waiting
      else Returned (case c_err c of
                       Some e \<Rightarrow> Err e
                     | None \<Rightarrow> if c_state c = closed then Err ErrClosed else Ok i))"

definition input_listen :: "bool \<Rightarrow> (bytes \<Rightarrow> bytes) \<Rightarrow> lid \<Rightarrow> Addr \<times> Addr \<Rightarrow> TcpPkt \<Rightarrow> time \<Rightarrow> Stack \<Rightarrow> Stack" where
  "input_listen ce mac l key p now s =
     (let s = s\<lparr>s_ports := (s_ports s)(fst key := s_ports s (fst key) + 1)\<rparr>;
          (s, i) = newConn mac (fst key) (snd key) now s;
          s = upd_lis l (\<lambda>x. x\<lparr>l_incomplete := l_incomplete x + 1\<rparr>) s;
          s = upd_conn i (\<lambda>c. c\<lparr>c_listener := Some l, c_state := synReceived, c_irs := tcp_SeqNum p,
                c_rcvNxt := tcp_SeqNum p + 1, c_peerMss := (if tcp_Mss p \<noteq> 0 then uint (tcp_Mss p) else 536),
                c_peerWindow := ucast (tcp_Window p), c_wlSeq := tcp_SeqNum p, c_wlAck := tcp_AckNum p,
                c_sndNxt := c_sndNxt c + 1\<rparr>) s
      in emit ce i (TCP_FLAGS_SYN OR TCP_FLAGS_ACK) (c_iss (s_conn s i)) [] True s)"

definition Input :: "bool \<Rightarrow> (bytes \<Rightarrow> bytes) \<Rightarrow> Packet \<Rightarrow> time \<Rightarrow> Stack \<Rightarrow> (Stack \<times> tcp_error option) option" where
  "Input ce mac packet now s =
     (let addr = packet_Addr packet in
      if \<not> unicast (pair_SrcAddr addr) \<or> \<not> unicast (pair_DstAddr addr)
      then Some (s, Some (ErrMsg ''tcp: invalid packet address''))
      else case ParseTcpPkt ce (packet_Data packet) addr of
        None \<Rightarrow> None
      | Some (Inl e) \<Rightarrow> Some (s, Some (ErrMsg e))
      | Some (Inr p) \<Rightarrow>
          if tcp_SrcPort p = 0 \<or> tcp_DstPort p = 0 then Some (s, Some (ErrMsg ''tcp: invalid packet port''))
          else if s_closed s then Some (s, Some ErrClosed)
          else
            let key = (\<lparr>addr_Ip = pair_DstAddr addr, addr_Port = tcp_DstPort p\<rparr>,
                       \<lparr>addr_Ip = pair_SrcAddr addr, addr_Port = tcp_SrcPort p\<rparr>)
            in
            case map_of (s_conns s) key of
              Some i \<Rightarrow> map_option (\<lambda>s. (s, None)) (input ce i p now s)
            | None \<Rightarrow>
                Some (if has_flag p TCP_FLAGS_RST then s
                      else case map_of (s_listeners s) (fst key) of
                        None \<Rightarrow> reset_seg ce key p s
                      | Some l \<Rightarrow>
                          if has_flag p TCP_FLAGS_ACK then reset_seg ce key p s
                          else if tcp_Flags p AND (TCP_FLAGS_SYN OR TCP_FLAGS_FIN) \<noteq> TCP_FLAGS_SYN then s
                          else if maxConnections \<le> length (s_conns s) \<or>
                              int listenBacklog \<le> l_incomplete (s_lis s l) + int (length (l_pending (s_lis s l)))
                          then s
                          else input_listen ce mac l key p now s,
                      None))"

subsection \<open>The goroutine of the stack\<close>

fun tick_all :: "bool \<Rightarrow> cid list \<Rightarrow> time \<Rightarrow> Stack \<Rightarrow> Stack option" where
  "tick_all ce [] now s = Some s"
| "tick_all ce (i # order) now s = do { s \<leftarrow> tick ce i now s; tick_all ce order now s }"

definition run_tick :: "bool \<Rightarrow> cid list \<Rightarrow> time \<Rightarrow> Stack \<Rightarrow> Stack option" where
  "run_tick ce order now s = (if s_closed s then Some s else tick_all ce order now s)"

text \<open>Taking the next packet off the queue, and whether it still has to be sent.\<close>

definition run_take :: "Stack \<Rightarrow> (Stack \<times> outbound \<times> bool) option" where
  "run_take s =
     (if s_closed s then None
      else case s_tx s of
        [] \<Rightarrow> None
      | out # rest \<Rightarrow>
          let valid = (case out_conn out of
                         None \<Rightarrow> True
                       | Some i \<Rightarrow> c_state (s_conn s i) \<noteq> closed \<and>
                           (out_track out \<longrightarrow> seqLess (c_sndUna (s_conn s i)) (out_end out)))
          in Some (s\<lparr>s_tx := rest\<rparr>, out, valid))"

text \<open>After the output callback refused a packet.\<close>

definition run_unsent :: "outbound \<Rightarrow> Stack \<Rightarrow> Stack" where
  "run_unsent out s =
     (case out_conn out of
        None \<Rightarrow> s
      | Some i \<Rightarrow>
          if out_track out \<and> c_state (s_conn s i) \<noteq> closed \<and> \<not> s_closed s \<and>
             seqLess (c_sndUna (s_conn s i)) (out_end out)
          then upd_conn i (\<lambda>c. c\<lparr>c_pending := Some out\<rparr>) s else s)"

fun fail_all :: "bool \<Rightarrow> cid list \<Rightarrow> tcp_error option \<Rightarrow> bool \<Rightarrow> Stack \<Rightarrow> Stack" where
  "fail_all ce [] err reset s = s"
| "fail_all ce (i # order) err reset s = fail_all ce order err reset (fail ce i err reset s)"

fun close_listeners :: "(Addr \<times> lid) list \<Rightarrow> Stack \<Rightarrow> Stack" where
  "close_listeners [] s = s"
| "close_listeners ((a, l) # ls) s =
     close_listeners ls (release (l_local (s_lis s l))
       (upd_lis l (\<lambda>x. x\<lparr>l_closed := True, l_event := l_event x + 1\<rparr>) s))"

definition Stack_Close :: "bool \<Rightarrow> cid list \<Rightarrow> Stack \<Rightarrow> Stack" where
  "Stack_Close ce order s =
     (if s_closed s then s
      else
        let s = s\<lparr>s_closed := True\<rparr>;
            s = fail_all ce order (Some ErrClosed) False s;
            s = close_listeners (s_listeners s) s
        in s\<lparr>s_listeners := [], s_tx := []\<rparr>)"

subsection \<open>Listeners\<close>

definition new_listener :: "Addr \<Rightarrow> Stack \<Rightarrow> Stack \<times> lid" where
  "new_listener local s =
     (let l = s_nlid s in
      (s\<lparr>s_lis := (s_lis s)(l := \<lparr>l_local = local, l_incomplete = 0, l_pending = [], l_event = 0, l_closed = False\<rparr>),
         s_nlid := l + 1, s_listeners := (local, l) # filter (\<lambda>(k, _). k \<noteq> local) (s_listeners s)\<rparr>, l))"

definition Listen :: "Addr \<Rightarrow> Stack \<Rightarrow> Stack \<times> (tcp_error + lid)" where
  "Listen local s =
     (if \<not> unicast (addr_Ip local) then (s, Err (ErrMsg ''tcp: invalid local address''))
      else if s_closed s then (s, Err ErrClosed)
      else if maxConnections \<le> length (s_listeners s) then (s, Err (ErrMsg ''tcp: listener limit reached''))
      else if addr_Port local = 0 then
        (case find_port portTries (addr_Ip local) s of
           (s, None) \<Rightarrow> (s, Err (ErrMsg ''tcp: no available local port''))
         | (s, Some local) \<Rightarrow> (let (s, l) = new_listener local s in (s, Ok l)))
      else
        (case reserve local s of
           (s, False) \<Rightarrow> (s, Err (ErrMsg ''tcp: local port is in use''))
         | (s, True) \<Rightarrow> (let (s, l) = new_listener local s in (s, Ok l))))"

text \<open>Accepting: connections that failed while they waited are skipped.\<close>

fun accept_from :: "(cid \<Rightarrow> Conn) \<Rightarrow> cid list \<Rightarrow> cid list \<times> cid option" where
  "accept_from conn [] = ([], None)"
| "accept_from conn (i # is) =
     (if c_err (conn i) \<noteq> None \<or> c_state (conn i) = closed then accept_from conn is else (is, Some i))"

definition Accept :: "lid \<Rightarrow> Stack \<Rightarrow> Stack \<times> (tcp_error + cid) poll" where
  "Accept l s =
     (if l_closed (s_lis s l) then (s, Returned (Err ErrClosed))
      else
        let (rest, r) = accept_from (s_conn s) (l_pending (s_lis s l));
            s = upd_lis l (\<lambda>x. x\<lparr>l_pending := rest\<rparr>) s
        in case r of
             None \<Rightarrow> (s, Waiting)
           | Some i \<Rightarrow> (upd_conn i (\<lambda>c. c\<lparr>c_listener := None\<rparr>) s, Returned (Ok i)))"

definition Listener_Close :: "bool \<Rightarrow> cid list \<Rightarrow> lid \<Rightarrow> Stack \<Rightarrow> Stack \<times> tcp_error option" where
  "Listener_Close ce order l s =
     (if l_closed (s_lis s l) then (s, Some ErrClosed)
      else
        let a = l_local (s_lis s l);
            s = upd_lis l (\<lambda>x. x\<lparr>l_closed := True, l_event := l_event x + 1\<rparr>) s;
            s = s\<lparr>s_listeners := filter (\<lambda>(k, _). k \<noteq> a) (s_listeners s)\<rparr>;
            s = fail_all ce (filter (\<lambda>i. c_listener (s_conn s i) = Some l) order) (Some ErrClosed) True s;
            s = upd_lis l (\<lambda>x. x\<lparr>l_pending := []\<rparr>) s
        in (release a s, None))"

subsection \<open>Calls on a connection\<close>

definition Conn_Read :: "bool \<Rightarrow> cid \<Rightarrow> nat \<Rightarrow> time \<Rightarrow> Stack \<Rightarrow> (Stack \<times> (bytes \<times> tcp_error option) poll) option" where
  "Conn_Read ce i l now s =
     (let c = s_conn s i in
      if c_appClosed c then Some (s, Returned ([], Some ErrClosed))
      else if c_rd c \<noteq> 0 \<and> \<not> now < c_rd c then Some (s, Returned ([], Some ErrDeadlineExceeded))
      else if l = 0 then Some (s, Returned ([], None))
      else if bb_size (c_rx c) > 0 then
        do {
          (rx, data) \<leftarrow> bb_read (c_rx c) l;
          let s = upd_conn i (\<lambda>c. c\<lparr>c_rx := rx\<rparr>) s;
          let s = (if c_state c \<noteq> closed \<and> c_state c \<noteq> timeWait then send_ack ce i s else s);
          Some (s, Returned (data, None))
        }
      else if c_err c \<noteq> None then Some (s, Returned ([], c_err c))
      else if c_recvFin c then Some (s, Returned ([], Some ErrEOF))
      else if c_state c = closed then Some (s, Returned ([], Some ErrClosed))
      else Some (s, Waiting))"

text \<open>One turn of \<^verbatim>\<open>Write\<close>, with the number of bytes already written; the turn that waits says
  how many have been written by then.\<close>

datatype write_poll = Write_wait nat | Write_done nat "tcp_error option"

definition Conn_Write :: "bool \<Rightarrow> cid \<Rightarrow> bytes \<Rightarrow> nat \<Rightarrow> time \<Rightarrow> Stack \<Rightarrow> (Stack \<times> write_poll) option" where
  "Conn_Write ce i p n now s =
     (let c = s_conn s i in
      if c_appClosed c \<or> c_writeClosed c then Some (s, Write_done n (Some ErrClosed))
      else if c_err c \<noteq> None then Some (s, Write_done n (c_err c))
      else if c_state c \<noteq> established \<and> c_state c \<noteq> closeWait then Some (s, Write_done n (Some ErrClosed))
      else if c_wd c \<noteq> 0 \<and> \<not> now < c_wd c then Some (s, Write_done n (Some ErrDeadlineExceeded))
      else if n = length p then Some (s, Write_done n None)
      else do {
        let s = (if bb_size (c_tx c) = 0 then upd_conn i (\<lambda>c. c\<lparr>c_progress := now\<rparr>) s else s);
        (tx, k) \<leftarrow> bb_write (c_tx c) (drop n p);
        let s = upd_conn i (\<lambda>c. c\<lparr>c_tx := tx\<rparr>) s;
        s \<leftarrow> pump ce i now s;
        Some (s, if n + k = length p then Write_done (n + k) None else Write_wait (n + k))
      })"

definition Conn_CloseWrite :: "bool \<Rightarrow> cid \<Rightarrow> time \<Rightarrow> Stack \<Rightarrow> (Stack \<times> tcp_error option) option" where
  "Conn_CloseWrite ce i now s =
     (let c = s_conn s i in
      if c_appClosed c \<or> c_state c = closed then Some (s, Some ErrClosed)
      else if c_writeClosed c then Some (s, None)
      else do {
        let s = notify i (upd_conn i (\<lambda>c. c\<lparr>c_writeClosed := True, c_closeEnd := now + closeTimeout\<rparr>) s);
        s \<leftarrow> pump ce i now s;
        Some (s, None)
      })"

definition Conn_Close :: "bool \<Rightarrow> cid \<Rightarrow> time \<Rightarrow> Stack \<Rightarrow> (Stack \<times> tcp_error option) option" where
  "Conn_Close ce i now s =
     (let c = s_conn s i in
      if c_appClosed c then Some (s, Some ErrClosed)
      else
        let s = notify i (upd_conn i (\<lambda>c. c\<lparr>c_appClosed := True, c_writeClosed := True\<rparr>) s) in
        if bb_size (c_rx c) \<noteq> 0 then Some (fail ce i (Some ErrClosed) True s, None)
        else if c_state c \<noteq> closed \<and> c_state c \<noteq> timeWait then
          do {
            s \<leftarrow> pump ce i now (upd_conn i (\<lambda>c. c\<lparr>c_closeEnd := now + closeTimeout\<rparr>) s);
            Some (s, None)
          }
        else Some (s, None))"

definition set_deadlines :: "(Conn \<Rightarrow> Conn) \<Rightarrow> cid \<Rightarrow> Stack \<Rightarrow> Stack \<times> tcp_error option" where
  "set_deadlines f i s =
     (if c_appClosed (s_conn s i) \<or> c_state (s_conn s i) = closed then (s, Some ErrClosed)
      else (notify i (upd_conn i f s), None))"

definition SetDeadline :: "cid \<Rightarrow> time \<Rightarrow> Stack \<Rightarrow> Stack \<times> tcp_error option" where
  "SetDeadline i t = set_deadlines (\<lambda>c. c\<lparr>c_rd := t, c_wd := t\<rparr>) i"

definition SetReadDeadline :: "cid \<Rightarrow> time \<Rightarrow> Stack \<Rightarrow> Stack \<times> tcp_error option" where
  "SetReadDeadline i t = set_deadlines (\<lambda>c. c\<lparr>c_rd := t\<rparr>) i"

definition SetWriteDeadline :: "cid \<Rightarrow> time \<Rightarrow> Stack \<Rightarrow> Stack \<times> tcp_error option" where
  "SetWriteDeadline i t = set_deadlines (\<lambda>c. c\<lparr>c_wd := t\<rparr>) i"

text \<open>A stack as \<^verbatim>\<open>NewStack\<close> makes it, with the random secret's first two bytes.\<close>

definition NewStack :: "u8 \<Rightarrow> u8 \<Rightarrow> Stack" where
  "NewStack a b =
     \<lparr>s_conns = [], s_listeners = [], s_ports = (\<lambda>_. 0), s_nextPort = 49152 + get_be16 [a, b] mod 16384, s_tx = [],
      s_closed = False, s_conn = (\<lambda>_. fresh_conn 0 \<lparr>addr_Ip = Ipv4Addr 0 0 0 0, addr_Port = 0\<rparr>
        \<lparr>addr_Ip = Ipv4Addr 0 0 0 0, addr_Port = 0\<rparr> 0),
      s_lis = (\<lambda>_. \<lparr>l_local = \<lparr>addr_Ip = Ipv4Addr 0 0 0 0, addr_Port = 0\<rparr>, l_incomplete = 0, l_pending = [], l_event = 0,
        l_closed = False\<rparr>), s_ncid = 0, s_nlid = 0\<rparr>"

end
