(* ===== verification/Segment_Heap.thy ===== *)
theory Segment_Heap
  imports Halo_Prelude "HOL-Library.Multiset"
begin

text \<open>
  The segments of \<^verbatim>\<open>src/protocol/kcp/kcp.go\<close> and the binary heap that holds the ones received out
  of order. The heap is ordered by the signed distance of the 32-bit sequence numbers, which
  is an order only while all of them lie within half of the number space; under that
  condition the heap gives the segments back in order of their sequence numbers.
\<close>

definition imin :: "u32 \<Rightarrow> u32 \<Rightarrow> u32" where
  "imin a b = (if a \<le> b then a else b)"

definition imax :: "u32 \<Rightarrow> u32 \<Rightarrow> u32" where
  "imax a b = (if b \<le> a then a else b)"

definition ibound :: "u32 \<Rightarrow> u32 \<Rightarrow> u32 \<Rightarrow> u32" where
  "ibound lower middle upper = imin (imax lower middle) upper"

definition itimediff :: "u32 \<Rightarrow> u32 \<Rightarrow> int" where
  "itimediff later earlier = sint (later - earlier)"

record segment =
  seg_conv :: u64
  seg_cmd :: u8
  seg_frg :: u8
  seg_wnd :: u16
  seg_ts :: u32
  seg_sn :: u32
  seg_una :: u32
  seg_rto :: u32
  seg_xmit :: u32
  seg_resendts :: u32
  seg_fastack :: u32
  seg_acked :: u32
  seg_data :: bytes

text \<open>The zero value of a segment.\<close>

definition zero_seg :: segment where
  "zero_seg = \<lparr>seg_conv = 0, seg_cmd = 0, seg_frg = 0, seg_wnd = 0, seg_ts = 0, seg_sn = 0, seg_una = 0, seg_rto = 0,
     seg_xmit = 0, seg_resendts = 0, seg_fastack = 0, seg_acked = 0, seg_data = []\<rparr>"

text \<open>The heap: its array, and the set of sequence numbers in it.\<close>

record segmentHeap =
  sh_segments :: "segment list"
  sh_marks :: "u32 set"

definition newSegmentHeap :: segmentHeap where
  "newSegmentHeap = \<lparr>sh_segments = [], sh_marks = {}\<rparr>"

definition sh_Len :: "segmentHeap \<Rightarrow> nat" where
  "sh_Len h = length (sh_segments h)"

definition sh_less :: "segment list \<Rightarrow> nat \<Rightarrow> nat \<Rightarrow> bool" where
  "sh_less xs i j \<longleftrightarrow> itimediff (seg_sn (xs ! j)) (seg_sn (xs ! i)) > 0"

definition sh_swap :: "'a list \<Rightarrow> nat \<Rightarrow> nat \<Rightarrow> 'a list" where
  "sh_swap xs i j = xs[i := xs ! j, j := xs ! i]"

fun sift_up :: "segment list \<Rightarrow> nat \<Rightarrow> segment list" where
  "sift_up xs index =
     (if index = 0 then xs
      else
        let parent = (index - 1) div 2 in
        if \<not> sh_less xs index parent then xs
        else sift_up (sh_swap xs index parent) parent)"

declare sift_up.simps [simp del]

definition sh_Push :: "segment \<Rightarrow> segmentHeap \<Rightarrow> segmentHeap" where
  "sh_Push seg h =
     \<lparr>sh_segments = sift_up (sh_segments h @ [seg]) (length (sh_segments h)), sh_marks = insert (seg_sn seg) (sh_marks h)\<rparr>"

function sift_down :: "segment list \<Rightarrow> nat \<Rightarrow> segment list" where
  "sift_down xs index =
     (let left = index * 2 + 1 in
      if length xs \<le> left then xs
      else
        let right = left + 1;
            smallest = (if right < length xs \<and> sh_less xs right left then right else left)
        in
        if \<not> sh_less xs smallest index then xs
        else sift_down (sh_swap xs index smallest) smallest)"
  by pat_completeness auto
termination
  by (relation "measure (\<lambda>(xs, i). length xs - i)") (auto simp: sh_swap_def Let_def split: if_splits)

declare sift_down.simps [simp del]

definition sh_Pop :: "segmentHeap \<Rightarrow> segmentHeap \<times> segment option" where
  "sh_Pop h =
     (if sh_segments h = [] then (h, None)
      else
        let result = sh_segments h ! 0;
            last' = length (sh_segments h) - 1;
            tail = sh_segments h ! last';
            xs = take last' (sh_segments h);
            marks = sh_marks h - {seg_sn result};
            xs = (if last' > 0 then sift_down (xs[0 := tail]) 0 else xs)
        in (\<lparr>sh_segments = xs, sh_marks = marks\<rparr>, Some result))"

definition sh_Has :: "u32 \<Rightarrow> segmentHeap \<Rightarrow> bool" where
  "sh_Has sn h \<longleftrightarrow> sn \<in> sh_marks h"

subsection \<open>Sequence numbers as distances from a base\<close>

text \<open>The distance of a segment from the next expected sequence number \<open>b\<close>.\<close>

definition rank :: "u32 \<Rightarrow> segment \<Rightarrow> nat" where
  "rank b s = unat (seg_sn s - b)"

definition ranked :: "u32 \<Rightarrow> segment list \<Rightarrow> bool" where
  "ranked b xs \<longleftrightarrow> (\<forall>x \<in> set xs. rank b x < 2 ^ 31)"

lemma sint_diff_ranks:
  fixes x y b :: u32
  assumes "unat (x - b) < 2 ^ 31" "unat (y - b) < 2 ^ 31"
  shows "sint (x - y) = int (unat (x - b)) - int (unat (y - b))"
proof -
  define m n where "m = unat (x - b)" and "n = unat (y - b)"
  have "x - y = (x - b) - (y - b)"
    by simp
  also have "\<dots> = word_of_int (int m - int n)"
    by (simp add: m_def n_def)
  finally have "sint (x - y) = signed_take_bit 31 (int m - int n)"
    by (simp only: sint_sbintrunc') simp
  moreover have "int m < 2 ^ 31" "int n < 2 ^ 31"
    using assms by (simp_all add: m_def [symmetric] n_def [symmetric])
  then have "signed_take_bit 31 (int m - int n) = int m - int n"
    by (intro signed_take_bit_int_eq_self) simp_all
  ultimately show ?thesis
    by (simp add: m_def n_def)
qed

lemma sh_less_rank:
  assumes "ranked b xs" "i < length xs" "j < length xs"
  shows "sh_less xs i j \<longleftrightarrow> rank b (xs ! i) < rank b (xs ! j)"
proof -
  have "itimediff (seg_sn (xs ! j)) (seg_sn (xs ! i)) = int (rank b (xs ! j)) - int (rank b (xs ! i))"
    unfolding itimediff_def rank_def using assms by (intro sint_diff_ranks) (simp_all add: ranked_def rank_def)
  then show ?thesis
    by (simp add: sh_less_def)
qed

subsection \<open>The heap order\<close>

definition par :: "nat \<Rightarrow> nat" where
  "par i = (i - 1) div 2"

lemma par_less [simp]: "0 < i \<Longrightarrow> par i < i"
  by (simp add: par_def)

lemma par_bound: "0 < i \<Longrightarrow> i < n \<Longrightarrow> par i < n"
  using par_less [of i] by linarith

lemma sift_up_unfold:
  "sift_up xs i = (if i = 0 \<or> \<not> sh_less xs i (par i) then xs else sift_up (sh_swap xs i (par i)) (par i))"
  by (subst sift_up.simps) (simp add: Let_def par_def)

lemma sift_up_par_induct:
  assumes "\<And>xs i. (i \<noteq> 0 \<Longrightarrow> sh_less xs i (par i) \<Longrightarrow> P (sh_swap xs i (par i)) (par i)) \<Longrightarrow> P xs i"
  shows "P xs i"
proof (induction xs i rule: sift_up.induct)
  case (1 xs i)
  show ?case
    by (rule assms, rule "1.IH") (simp_all add: par_def)
qed

definition heap :: "('a \<Rightarrow> nat) \<Rightarrow> 'a list \<Rightarrow> bool" where
  "heap f xs \<longleftrightarrow> (\<forall>i. 0 < i \<and> i < length xs \<longrightarrow> f (xs ! par i) \<le> f (xs ! i))"

text \<open>The order holds except between \<open>k\<close> and its parent, or except between \<open>k\<close> and its children.\<close>

definition heap_up :: "('a \<Rightarrow> nat) \<Rightarrow> 'a list \<Rightarrow> nat \<Rightarrow> bool" where
  "heap_up f xs k \<longleftrightarrow>
     (\<forall>i. 0 < i \<and> i < length xs \<and> i \<noteq> k \<longrightarrow> f (xs ! par i) \<le> f (xs ! i)) \<and>
     (\<forall>i. 0 < k \<and> 0 < i \<and> i < length xs \<and> par i = k \<longrightarrow> f (xs ! par k) \<le> f (xs ! i))"

definition heap_down :: "('a \<Rightarrow> nat) \<Rightarrow> 'a list \<Rightarrow> nat \<Rightarrow> bool" where
  "heap_down f xs k \<longleftrightarrow>
     (\<forall>i. 0 < i \<and> i < length xs \<and> par i \<noteq> k \<longrightarrow> f (xs ! par i) \<le> f (xs ! i)) \<and>
     (\<forall>i. 0 < k \<and> 0 < i \<and> i < length xs \<and> par i = k \<longrightarrow> f (xs ! par k) \<le> f (xs ! i))"

lemma heap_top: "heap f xs \<Longrightarrow> i < length xs \<Longrightarrow> f (xs ! 0) \<le> f (xs ! i)"
proof (induction i rule: less_induct)
  case (less i)
  show ?case
  proof (cases "i = 0")
    case False
    then have "par i < i" "f (xs ! par i) \<le> f (xs ! i)"
      using less.prems by (auto simp: heap_def)
    then show ?thesis
      using less.IH [of "par i"] less.prems by force
  qed simp
qed

lemma length_swap [simp]: "length (sh_swap xs i j) = length xs"
  by (simp add: sh_swap_def)

lemma nth_swap:
  "i < length xs \<Longrightarrow> j < length xs \<Longrightarrow> k < length xs \<Longrightarrow>
    sh_swap xs i j ! k = (if k = j then xs ! i else if k = i then xs ! j else xs ! k)"
  by (simp add: sh_swap_def nth_list_update)

lemma mset_sh_swap: "i < length xs \<Longrightarrow> j < length xs \<Longrightarrow> mset (sh_swap xs i j) = mset xs"
  unfolding sh_swap_def by (rule mset_swap)

lemma ranked_mset: "mset ys = mset xs \<Longrightarrow> ranked b ys \<longleftrightarrow> ranked b xs"
  unfolding ranked_def by (metis set_mset_mset)

lemma heap_up_step:
  assumes "heap_up f xs k" "0 < k" "k < length xs" "f (xs ! k) < f (xs ! par k)"
  shows "heap_up f (sh_swap xs k (par k)) (par k)"
proof -
  let ?ys = "sh_swap xs k (par k)"
  have p: "par k < k" "par k < length xs"
    using assms(2,3) par_bound by auto
  have ys: "?ys ! i = (if i = par k then xs ! k else if i = k then xs ! par k else xs ! i)" if "i < length xs" for i
    using nth_swap [OF assms(3) p(2) that] .
  have a: "f (xs ! par i) \<le> f (xs ! i)" if "0 < i" "i < length xs" "i \<noteq> k" for i
    using assms(1) that by (simp add: heap_up_def)
  have c: "f (xs ! par k) \<le> f (xs ! i)" if "0 < i" "i < length xs" "par i = k" for i
    using assms(1,2) that by (simp add: heap_up_def)
  have "f (?ys ! par i) \<le> f (?ys ! i)" if "0 < i" "i < length xs" "i \<noteq> par k" for i
  proof -
    have "par i < length xs"
      using that par_bound by auto
    consider "i = k" | "i \<noteq> k" "par i = k" | "i \<noteq> k" "par i = par k" | "i \<noteq> k" "par i \<noteq> k" "par i \<noteq> par k"
      by blast
    then show ?thesis
      using that p a [OF that(1,2)] c [OF that(1,2)] assms(4) ys [OF that(2)] ys [OF \<open>par i < length xs\<close>] by cases auto
  qed
  moreover have "f (?ys ! par (par k)) \<le> f (?ys ! i)" if "0 < par k" "0 < i" "i < length xs" "par i = par k" for i
  proof -
    have q: "par (par k) < par k" "par (par k) < length xs"
      using that(1) p par_less [of "par k"] by linarith+
    have "f (xs ! par (par k)) \<le> f (xs ! par k)"
      using a [of "par k"] that(1) p by auto
    moreover have "f (xs ! par k) \<le> f (xs ! i)" if "i \<noteq> k"
      using a [of i] \<open>0 < i\<close> \<open>i < length xs\<close> \<open>par i = par k\<close> that by metis
    moreover have "i \<noteq> par k"
      using that(1,4) par_less [of "par k"] by (metis less_irrefl)
    ultimately show ?thesis
      using ys [OF q(2)] ys [OF that(3)] q p by (cases "i = k") auto
  qed
  ultimately show ?thesis
    by (simp add: heap_up_def)
qed

lemma sift_up_ok:
  assumes "ranked b xs" "index < length xs" "heap_up (rank b) xs index"
  shows "heap (rank b) (sift_up xs index) \<and> mset (sift_up xs index) = mset xs"
  using assms
proof (induction xs index rule: sift_up_par_induct)
  case (1 xs index)
  note less = sh_less_rank [OF "1.prems"(1,2) par_bound [OF _ "1.prems"(2)]]
  show ?case
  proof (cases "index = 0 \<or> \<not> sh_less xs index (par index)")
    case True
    then have "rank b (xs ! par i) \<le> rank b (xs ! i)" if "0 < i" "i < length xs" for i
      using that less "1.prems"(3) by (cases "i = index") (auto simp: heap_up_def)
    then have "heap (rank b) xs"
      by (simp add: heap_def)
    then show ?thesis
      using True by (subst (1 2) sift_up_unfold) auto
  next
    case False
    let ?ys = "sh_swap xs index (par index)"
    have p: "0 < index" "par index < length xs" "rank b (xs ! index) < rank b (xs ! par index)"
      using False less par_bound [OF _ "1.prems"(2)] by auto
    have m: "mset ?ys = mset xs"
      using mset_sh_swap [OF "1.prems"(2) p(2)] .
    have "heap (rank b) (sift_up ?ys (par index)) \<and> mset (sift_up ?ys (par index)) = mset ?ys"
      using False p heap_up_step [OF "1.prems"(3) p(1) "1.prems"(2) p(3)] "1.prems"(1) ranked_mset [OF m]
      by (intro "1.IH") auto
    then show ?thesis
      using False m by (subst (1 2) sift_up_unfold) simp
  qed
qed

lemma heap_down_step:
  assumes "heap_down f xs k" "k < c" "c < length xs" "par c = k" "f (xs ! c) < f (xs ! k)"
    and "\<And>i. 0 < i \<Longrightarrow> i < length xs \<Longrightarrow> par i = k \<Longrightarrow> f (xs ! c) \<le> f (xs ! i)"
  shows "heap_down f (sh_swap xs k c) c"
proof -
  let ?ys = "sh_swap xs k c"
  have k: "k < length xs" "0 < c"
    using assms(2,3) by auto
  have ys: "?ys ! i = (if i = c then xs ! k else if i = k then xs ! c else xs ! i)" if "i < length xs" for i
    using nth_swap [OF k(1) assms(3) that] .
  have a: "f (xs ! par i) \<le> f (xs ! i)" if "0 < i" "i < length xs" "par i \<noteq> k" for i
    using assms(1) that by (simp add: heap_down_def)
  have up: "f (xs ! par k) \<le> f (xs ! i)" if "0 < k" "0 < i" "i < length xs" "par i = k" for i
    using assms(1) that by (simp add: heap_down_def)
  have "f (?ys ! par i) \<le> f (?ys ! i)" if i: "0 < i" "i < length xs" "par i \<noteq> c" for i
  proof -
    have p: "par i < length xs" "par i < i"
      using i par_bound by auto
    show ?thesis
    proof (cases "i = k")
      case True
      then have "f (xs ! par k) \<le> f (xs ! c)"
        using up [of c] i(1) assms(3,4) k(2) by simp
      then show ?thesis
        using True ys [OF p(1)] ys [OF i(2)] p assms(2) by auto
    next
      case False
      then show ?thesis
        using a [OF i(1,2)] assms(4-6) i p ys [OF p(1)] ys [OF i(2)] by (cases "par i = k") auto
    qed
  qed
  moreover have "f (?ys ! par c) \<le> f (?ys ! i)" if i: "0 < i" "i < length xs" "par i = c" for i
  proof -
    have "i \<noteq> c" "i \<noteq> k"
      using i assms(2) par_less [of i] by auto
    then show ?thesis
      using a [of i] i assms(2,4) ys [OF k(1)] ys [OF i(2)] by auto
  qed
  ultimately show ?thesis
    by (simp add: heap_down_def)
qed

lemma par_eq: "0 < i \<Longrightarrow> par i = k \<longleftrightarrow> i = k * 2 + 1 \<or> i = k * 2 + 2"
  by (auto simp: par_def)

lemma sift_down_ok:
  assumes "ranked b xs" "index < length xs" "heap_down (rank b) xs index"
  shows "heap (rank b) (sift_down xs index) \<and> mset (sift_down xs index) = mset xs"
  using assms
proof (induction xs index rule: sift_down.induct)
  case (1 xs index)
  define l r where "l = index * 2 + 1" and "r = index * 2 + 1 + 1"
  define c where "c = (if r < length xs \<and> sh_less xs r l then r else l)"
  have unf: "sift_down xs index =
    (if length xs \<le> l then xs else if \<not> sh_less xs c index then xs else sift_down (sh_swap xs index c) c)"
    by (subst sift_down.simps) (simp add: Let_def l_def r_def c_def)
  have fin: "heap (rank b) xs" if "\<And>i. 0 < i \<Longrightarrow> i < length xs \<Longrightarrow> par i = index \<Longrightarrow> rank b (xs ! index) \<le> rank b (xs ! i)"
    unfolding heap_def using that "1.prems"(3) by (metis heap_down_def)
  show ?case
  proof (cases "length xs \<le> l")
    case True
    then have "heap (rank b) xs"
      by (intro fin) (auto simp: par_eq l_def)
    then show ?thesis
      using True unf by simp
  next
    case False
    have c: "index < c" "c < length xs" "par c = index" "l < length xs"
      using False par_eq [of c index] by (auto simp: c_def l_def r_def)
    have small: "rank b (xs ! c) \<le> rank b (xs ! i)" if "0 < i" "i < length xs" "par i = index" for i
      using that False sh_less_rank [OF "1.prems"(1), of r l] by (auto simp: par_eq c_def l_def r_def)
    show ?thesis
    proof (cases "sh_less xs c index")
      case True
      let ?ys = "sh_swap xs index c"
      have m: "mset ?ys = mset xs"
        using mset_sh_swap [OF "1.prems"(2) c(2)] .
      have "rank b (xs ! c) < rank b (xs ! index)"
        using True sh_less_rank [OF "1.prems"(1) c(2) "1.prems"(2)] by simp
      then have "heap_down (rank b) ?ys c"
        by (rule heap_down_step [OF "1.prems"(3) c(1-3) _ small])
      moreover have "ranked b ?ys"
        using "1.prems"(1) ranked_mset [OF m] by simp
      ultimately have "heap (rank b) (sift_down ?ys c) \<and> mset (sift_down ?ys c) = mset ?ys"
        using "1.IH" [OF l_def _ _ c_def] False True c(2) by (simp add: l_def r_def)
      then show ?thesis
        using False True m unf by simp
    next
      case F: False
      then have "rank b (xs ! index) \<le> rank b (xs ! c)"
        using sh_less_rank [OF "1.prems"(1) c(2) "1.prems"(2)] by simp
      then have "heap (rank b) xs"
        by (intro fin) (rule order_trans [OF _ small])
      then show ?thesis
        using False F unf by simp
    qed
  qed
qed

subsection \<open>The buffer of segments received out of order\<close>

text \<open>A well-formed heap, relative to the next expected sequence number.\<close>

definition sh_wf :: "u32 \<Rightarrow> segmentHeap \<Rightarrow> bool" where
  "sh_wf b h \<longleftrightarrow> heap (rank b) (sh_segments h) \<and> ranked b (sh_segments h) \<and>
     distinct (map seg_sn (sh_segments h)) \<and> sh_marks h = seg_sn ` set (sh_segments h)"

abbreviation sh_set :: "segmentHeap \<Rightarrow> segment set" where
  "sh_set h \<equiv> set (sh_segments h)"

lemma newSegmentHeap_ok [simp]: "sh_wf b newSegmentHeap" "sh_segments newSegmentHeap = []"
  by (simp_all add: sh_wf_def newSegmentHeap_def heap_def ranked_def)

lemma sh_Has_ok: "sh_wf b h \<Longrightarrow> sh_Has sn h \<longleftrightarrow> (\<exists>x \<in> sh_set h. seg_sn x = sn)"
  by (auto simp: sh_wf_def sh_Has_def)

lemma heap_up_snoc:
  assumes "heap f xs"
  shows "heap_up f (xs @ [x]) (length xs)"
proof -
  have "f ((xs @ [x]) ! par i) \<le> f ((xs @ [x]) ! i)" if "0 < i" "i < length (xs @ [x])" "i \<noteq> length xs" for i
    using that assms par_bound [of i "length xs"] by (simp add: nth_append heap_def)
  moreover have "\<not> (0 < i \<and> i < length (xs @ [x]) \<and> par i = length xs)" for i
    using par_less [of i] by fastforce
  ultimately show ?thesis
    by (auto simp: heap_up_def)
qed

lemma mset_distinct_sn: "mset ys = mset xs \<Longrightarrow> distinct (map seg_sn ys) \<longleftrightarrow> distinct (map seg_sn xs)"
  by (metis mset_eq_imp_distinct_iff mset_map)

lemma sh_Push_ok:
  assumes "sh_wf b h" "rank b x < 2 ^ 31" "\<not> sh_Has (seg_sn x) h"
  shows "sh_wf b (sh_Push x h) \<and> mset (sh_segments (sh_Push x h)) = add_mset x (mset (sh_segments h))"
proof -
  let ?xs = "sh_segments h"
  have "ranked b (?xs @ [x])" "heap_up (rank b) (?xs @ [x]) (length ?xs)"
    using assms(1,2) heap_up_snoc by (auto simp: sh_wf_def ranked_def)
  then have *: "heap (rank b) (sift_up (?xs @ [x]) (length ?xs))" "mset (sift_up (?xs @ [x]) (length ?xs)) = mset (?xs @ [x])"
    using sift_up_ok [of b "?xs @ [x]" "length ?xs"] by auto
  moreover have "distinct (map seg_sn (?xs @ [x]))"
    using assms(1,3) sh_Has_ok [OF assms(1)] by (auto simp: sh_wf_def)
  moreover have "set (sift_up (?xs @ [x]) (length ?xs)) = insert x (set ?xs)"
    using mset_eq_setD [OF *(2)] by simp
  ultimately show ?thesis
    using assms(1) \<open>ranked b (?xs @ [x])\<close> ranked_mset [OF *(2)] mset_distinct_sn [OF *(2)]
    by (simp add: sh_wf_def sh_Push_def)
qed

lemma heap_down_replace:
  assumes "heap f xs" "n = length xs - 1" "0 < n"
  shows "heap_down f ((take n xs)[0 := xs ! n]) 0"
proof -
  have "f ((take n xs)[0 := xs ! n] ! par i) \<le> f ((take n xs)[0 := xs ! n] ! i)" if "0 < i" "i < n" "par i \<noteq> 0" for i
    using that assms par_bound [of i n] by (simp add: heap_def)
  then show ?thesis
    using assms(2,3) by (auto simp: heap_down_def)
qed

lemma mset_replace_first:
  assumes "n = length xs - 1" "0 < n"
  shows "mset xs = add_mset (xs ! 0) (mset ((take n xs)[0 := xs ! n]))"
proof -
  obtain x ys where xs: "xs = x # ys" "ys \<noteq> []"
    using assms by (cases xs) auto
  then have "(take n xs)[0 := xs ! n] = last ys # butlast ys"
    using assms by (simp add: last_conv_nth butlast_conv_take take_Cons' nth_Cons')
  moreover have "mset ys = add_mset (last ys) (mset (butlast ys))"
    using xs(2) append_butlast_last_id [of ys] by (metis add.right_neutral add_mset_add_single mset.simps mset_append)
  ultimately show ?thesis
    by (simp add: xs(1))
qed

lemma sh_Pop_ok:
  assumes "sh_wf b h" "sh_segments h \<noteq> []"
  obtains h' x where "sh_Pop h = (h', Some x)" "sh_wf b h'" "mset (sh_segments h) = add_mset x (mset (sh_segments h'))"
    "\<And>y. y \<in> sh_set h' \<Longrightarrow> rank b x < rank b y"
proof -
  let ?xs = "sh_segments h"
  define n where "n = length ?xs - 1"
  define ys where "ys = (if 0 < n then sift_down ((take n ?xs)[0 := ?xs ! n]) 0 else take n ?xs)"
  let ?h = "\<lparr>sh_segments = ys, sh_marks = sh_marks h - {seg_sn (?xs ! 0)}\<rparr>"
  have wf: "heap (rank b) ?xs" "ranked b ?xs" "distinct (map seg_sn ?xs)" "sh_marks h = seg_sn ` set ?xs"
    using assms(1) by (auto simp: sh_wf_def)
  have ys: "heap (rank b) ys \<and> mset ?xs = add_mset (?xs ! 0) (mset ys)"
  proof (cases "0 < n")
    case True
    let ?zs = "(take n ?xs)[0 := ?xs ! n]"
    have m: "mset ?xs = add_mset (?xs ! 0) (mset ?zs)"
      by (rule mset_replace_first [OF n_def True])
    then have "set ?zs \<subseteq> set ?xs"
      by (metis set_mset_add_mset_insert set_mset_mset subset_insertI)
    then have "ranked b ?zs"
      using wf(2) by (auto simp: ranked_def)
    then have "heap (rank b) ys \<and> mset ys = mset ?zs"
      using sift_down_ok [OF _ _ heap_down_replace [OF wf(1) n_def True]] True by (simp add: ys_def n_def)
    then show ?thesis
      using m by simp
  next
    case False
    then obtain x where "?xs = [x]"
      using assms(2) by (cases ?xs) (auto simp: n_def)
    then show ?thesis
      using False by (simp add: ys_def heap_def)
  qed
  then have m: "mset ?xs = mset (?xs ! 0 # ys)"
    by simp
  have d: "distinct (map seg_sn (?xs ! 0 # ys))" "ranked b (?xs ! 0 # ys)" "set ?xs = insert (?xs ! 0) (set ys)"
    using wf(2,3) mset_distinct_sn [OF m] ranked_mset [OF m, of b] mset_eq_setD [OF m] by auto
  have "sh_wf b ?h"
    using ys d wf(4) by (auto simp: sh_wf_def ranked_def)
  moreover have "sh_Pop h = (?h, Some (?xs ! 0))"
    using assms(2) by (simp add: sh_Pop_def Let_def ys_def n_def)
  moreover have "rank b (?xs ! 0) < rank b y" if y: "y \<in> set ys" for y
  proof -
    have "rank b (?xs ! 0) \<le> rank b y"
      using heap_top [OF wf(1)] y d(3) by (metis in_set_conv_nth insertCI)
    moreover have "seg_sn (?xs ! 0) \<noteq> seg_sn y"
      using d(1) y by auto
    then have "rank b (?xs ! 0) \<noteq> rank b y"
      using word_unat_eq_iff [of "seg_sn (?xs ! 0) - b" "seg_sn y - b"] by (simp add: rank_def)
    ultimately show ?thesis
      by simp
  qed
  ultimately show ?thesis
    using that [of ?h "?xs ! 0"] ys by simp
qed

text \<open>Moving the base forward over a sequence number that is not in the heap.\<close>

lemma rank_next: "rank b x \<noteq> 0 \<Longrightarrow> rank (b + 1) x = rank b x - 1"
proof -
  assume "rank b x \<noteq> 0"
  then have "seg_sn x - b \<noteq> 0"
    by (simp add: rank_def unat_eq_0)
  then have "unat (seg_sn x - b - 1) = unat (seg_sn x - b) - 1"
    by (rule unat_minus_one)
  then show ?thesis
    by (simp add: rank_def diff_diff_eq)
qed

lemma sh_wf_next:
  assumes "sh_wf b h" "\<And>x. x \<in> sh_set h \<Longrightarrow> rank b x \<noteq> 0"
  shows "sh_wf (b + 1) h"
proof -
  have "heap (rank (b + 1)) (sh_segments h)"
    using assms rank_next par_bound unfolding heap_def sh_wf_def by (metis diff_le_mono nth_mem)
  moreover have "ranked (b + 1) (sh_segments h)"
    using assms rank_next unfolding ranked_def sh_wf_def by (metis less_imp_diff_less)
  ultimately show ?thesis
    using assms(1) by (simp add: sh_wf_def)
qed

end
