(* ===== verification/Kcp_Ring.thy ===== *)
theory Kcp_Ring
  imports Ring_Lists
begin

text \<open>
  The growing circular queue of the KCP sessions, \<^verbatim>\<open>src/protocol/kcp/ring_buffer.go\<close>. The zero
  value of the element type is an argument \<open>z\<close> of the operations that store it. An index or a
  slice out of range, where Go panics, is the value \<^const>\<open>None\<close>. On a well-formed queue no
  operation panics, and every operation is the one on the list of the queued elements.
\<close>

definition ringBufferMinCapacity :: nat where "ringBufferMinCapacity = 8"
definition ringBufferGrowthThreshold :: nat where "ringBufferGrowthThreshold = 1024"

record 'a ringBuffer =
  rb_elements :: "'a list"
  rb_head :: nat
  rb_length :: nat

definition newRingBuffer :: "'a \<Rightarrow> nat \<Rightarrow> 'a ringBuffer" where
  "newRingBuffer z capacity =
     (let capacity = (if capacity < ringBufferMinCapacity then ringBufferMinCapacity else capacity) in
      \<lparr>rb_elements = replicate capacity z, rb_head = 0, rb_length = 0\<rparr>)"

definition rb_Len :: "'a ringBuffer \<Rightarrow> nat" where
  "rb_Len r = rb_length r"

definition rb_grow :: "'a \<Rightarrow> 'a ringBuffer \<Rightarrow> 'a ringBuffer option" where
  "rb_grow z r =
     do {
       let currentCapacity = length (rb_elements r);
       let newCapacity = (if ringBufferGrowthThreshold \<le> currentCapacity then currentCapacity + currentCapacity div 4
                          else currentCapacity * 2);
       let newElements = replicate newCapacity z;
       let firstPart = min (rb_length r) (currentCapacity - rb_head r);
       a \<leftarrow> go_sub (rb_elements r) (rb_head r) (rb_head r + firstPart);
       b \<leftarrow> go_sub (rb_elements r) 0 (rb_length r - firstPart);
       if newCapacity < firstPart then None
       else Some (r\<lparr>rb_elements := go_copy (go_copy newElements 0 a) firstPart b, rb_head := 0\<rparr>)
     }"

definition rb_Push :: "'a \<Rightarrow> 'a \<Rightarrow> 'a ringBuffer \<Rightarrow> 'a ringBuffer option" where
  "rb_Push z v r =
     do {
       r \<leftarrow> (if rb_length r = length (rb_elements r) then rb_grow z r else Some r);
       let index = rb_head r + rb_length r;
       let index = (if length (rb_elements r) \<le> index then index - length (rb_elements r) else index);
       if length (rb_elements r) \<le> index then None
       else Some (r\<lparr>rb_elements := (rb_elements r)[index := v], rb_length := rb_length r + 1\<rparr>)
     }"

text \<open>The queue and the removed element, if there is one.\<close>

definition rb_Pop :: "'a \<Rightarrow> 'a ringBuffer \<Rightarrow> ('a ringBuffer \<times> 'a option) option" where
  "rb_Pop z r =
     (if rb_length r = 0 then Some (r, None)
      else do {
        v \<leftarrow> go_nth (rb_elements r) (rb_head r);
        let es = (rb_elements r)[rb_head r := z];
        let head = rb_head r + 1;
        let head = (if head = length es then 0 else head);
        let len = rb_length r - 1;
        let head = (if len = 0 then 0 else head);
        Some (\<lparr>rb_elements = es, rb_head = head, rb_length = len\<rparr>, Some v)
      })"

text \<open>\<^verbatim>\<open>Peek\<close> and \<^verbatim>\<open>Last\<close> return a pointer: the element, and for \<^verbatim>\<open>Last\<close> a store through it.\<close>

definition rb_Peek :: "'a ringBuffer \<Rightarrow> 'a option option" where
  "rb_Peek r = (if rb_length r = 0 then Some None else map_option Some (go_nth (rb_elements r) (rb_head r)))"

definition rb_last_index :: "'a ringBuffer \<Rightarrow> nat" where
  "rb_last_index r =
     (let index = rb_head r + rb_length r - 1 in
      if length (rb_elements r) \<le> index then index - length (rb_elements r) else index)"

definition rb_Last :: "'a ringBuffer \<Rightarrow> 'a option option" where
  "rb_Last r = (if rb_length r = 0 then Some None else map_option Some (go_nth (rb_elements r) (rb_last_index r)))"

definition rb_set_Last :: "'a \<Rightarrow> 'a ringBuffer \<Rightarrow> 'a ringBuffer" where
  "rb_set_Last v r = r\<lparr>rb_elements := (rb_elements r)[rb_last_index r := v]\<rparr>"

definition rb_clear :: "'a \<Rightarrow> nat \<Rightarrow> nat \<Rightarrow> 'a list \<Rightarrow> 'a list option" where
  "rb_clear z i j xs = (if i \<le> j \<and> j \<le> length xs then Some (go_copy xs i (replicate (j - i) z)) else None)"

definition rb_Discard :: "'a \<Rightarrow> int \<Rightarrow> 'a ringBuffer \<Rightarrow> ('a ringBuffer \<times> nat) option" where
  "rb_Discard z count r =
     (if count \<le> 0 \<or> rb_length r = 0 then Some (r, 0)
      else do {
        let count = min (nat count) (rb_length r);
        let firstPart = min count (length (rb_elements r) - rb_head r);
        es \<leftarrow> rb_clear z (rb_head r) (rb_head r + firstPart) (rb_elements r);
        es \<leftarrow> rb_clear z 0 (count - firstPart) es;
        let head = rb_head r + count;
        let head = (if length es \<le> head then head - length es else head);
        let len = rb_length r - count;
        let head = (if len = 0 then 0 else head);
        Some (\<lparr>rb_elements = es, rb_head = head, rb_length = len\<rparr>, count)
      })"

definition rb_Clear :: "'a \<Rightarrow> 'a ringBuffer \<Rightarrow> 'a ringBuffer option" where
  "rb_Clear z r = map_option fst (rb_Discard z (int (rb_length r)) r)"

text \<open>
  \<^verbatim>\<open>ForEach\<close> gives its callback a pointer to the element: the callback may store through it and
  has variables of its own, the state \<open>s\<close>; it says whether to go on, and may panic.
\<close>

fun rb_visit :: "('a \<Rightarrow> 's \<Rightarrow> ('a \<times> 's \<times> bool) option) \<Rightarrow> nat list \<Rightarrow> 'a list \<Rightarrow> 's \<Rightarrow> ('a list \<times> 's \<times> bool) option" where
  "rb_visit visit [] xs s = Some (xs, s, True)"
| "rb_visit visit (i # is) xs s =
     do {
       x \<leftarrow> go_nth xs i;
       (x, s, more) \<leftarrow> visit x s;
       if more then rb_visit visit is (xs[i := x]) s else Some (xs[i := x], s, False)
     }"

definition rb_ForEach :: "('a \<Rightarrow> 's \<Rightarrow> ('a \<times> 's \<times> bool) option) \<Rightarrow> 'a ringBuffer \<Rightarrow> 's \<Rightarrow> ('a ringBuffer \<times> 's) option" where
  "rb_ForEach visit r s =
     do {
       let firstPart = min (rb_length r) (length (rb_elements r) - rb_head r);
       (es, s, more) \<leftarrow> rb_visit visit [rb_head r..<rb_head r + firstPart] (rb_elements r) s;
       (es, s, more) \<leftarrow> (if more then rb_visit visit [0..<rb_length r - firstPart] es s else Some (es, s, False));
       Some (r\<lparr>rb_elements := es\<rparr>, s)
     }"

subsection \<open>The elements queued\<close>

definition rb_wf :: "'a ringBuffer \<Rightarrow> bool" where
  "rb_wf r \<longleftrightarrow> rb_head r < length (rb_elements r) \<and> rb_length r \<le> length (rb_elements r)"

definition rb_abs :: "'a ringBuffer \<Rightarrow> 'a list" where
  "rb_abs r = ring (rb_elements r) (rb_head r) (rb_length r)"

text \<open>What \<^verbatim>\<open>ForEach\<close> does on a list.\<close>

fun visit_list :: "('a \<Rightarrow> 's \<Rightarrow> ('a \<times> 's \<times> bool) option) \<Rightarrow> 'a list \<Rightarrow> 's \<Rightarrow> ('a list \<times> 's \<times> bool) option" where
  "visit_list visit [] s = Some ([], s, True)"
| "visit_list visit (x # xs) s =
     do {
       (x, s, more) \<leftarrow> visit x s;
       if more then do { (xs, s, more) \<leftarrow> visit_list visit xs s; Some (x # xs, s, more) } else Some (x # xs, s, False)
     }"

lemma newRingBuffer_ok [simp]: "rb_wf (newRingBuffer z c)" "rb_abs (newRingBuffer z c) = []"
  by (simp_all add: newRingBuffer_def rb_wf_def rb_abs_def ringBufferMinCapacity_def)

lemma rb_Len_ok [simp]: "rb_Len r = length (rb_abs r)"
  by (simp add: rb_Len_def rb_abs_def)

lemma rb_length_eq: "rb_length r = length (rb_abs r)"
  by (simp add: rb_abs_def)

lemma rb_grow_ok:
  assumes "rb_wf r" "rb_length r = length (rb_elements r)"
  shows "\<exists>r'. rb_grow z r = Some r' \<and> rb_wf r' \<and> rb_abs r' = rb_abs r \<and> rb_length r' < length (rb_elements r')"
proof -
  let ?l = "length (rb_elements r)" and ?h = "rb_head r"
  define n where "n = (if ringBufferGrowthThreshold \<le> ?l then ?l + ?l div 4 else ?l * 2)"
  have h: "?h < ?l"
    using assms(1) by (simp add: rb_wf_def)
  have n: "?l < n"
    using h by (auto simp: n_def ringBufferGrowthThreshold_def)
  let ?a = "drop ?h (rb_elements r)" and ?b = "take ?h (rb_elements r)"
  let ?es = "go_copy (go_copy (replicate n z) 0 ?a) (?l - ?h) ?b"
  have es: "?es = ?a @ ?b @ replicate (n - ?l) z"
  proof -
    have "\<not> n + ?h - ?l \<le> ?h"
      using n by linarith
    then show ?thesis
      using h n by (simp add: go_copy_def min_def)
  qed
  have "rb_grow z r = Some (r\<lparr>rb_elements := ?es, rb_head := 0\<rparr>)"
    using h n assms(2) by (simp add: rb_grow_def go_sub_def go_slice_def Let_def flip: n_def)
  moreover have "ring ?es 0 ?l = ?a @ ?b"
    using ring_pieces [of 0 ?es ?l] h n unfolding es by simp
  moreover have "rb_abs r = ?a @ ?b"
    using ring_pieces [of ?h "rb_elements r" ?l] h by (simp add: rb_abs_def assms(2) min_def)
  ultimately have "rb_grow z r = Some (r\<lparr>rb_elements := ?es, rb_head := 0\<rparr>)" "ring ?es 0 ?l = rb_abs r"
    by simp_all
  then show ?thesis
    using h n assms(2) by (simp add: es rb_wf_def rb_abs_def)
qed

lemma rb_push_room:
  assumes "rb_wf r" "rb_length r < length (rb_elements r)"
  shows "\<exists>r'. rb_Push z v r = Some r' \<and> rb_wf r' \<and> rb_abs r' = rb_abs r @ [v]"
proof -
  let ?l = "length (rb_elements r)" and ?i = "(rb_head r + rb_length r) mod length (rb_elements r)"
  have h: "rb_head r < ?l"
    using assms(1) by (simp add: rb_wf_def)
  have i: "?i < ?l" "?i = (if ?l \<le> rb_head r + rb_length r then rb_head r + rb_length r - ?l else rb_head r + rb_length r)"
    using h assms(2) mod_once [OF h, of "rb_length r"] by auto
  have "rb_Push z v r = Some (r\<lparr>rb_elements := (rb_elements r)[?i := v], rb_length := rb_length r + 1\<rparr>)"
    using assms(2) i by (simp add: rb_Push_def Let_def)
  then show ?thesis
    using ring_snoc [OF assms(2), of "rb_head r" v] h assms(2) by (simp add: rb_wf_def rb_abs_def)
qed

lemma rb_Push_ok:
  assumes "rb_wf r"
  shows "\<exists>r'. rb_Push z v r = Some r' \<and> rb_wf r' \<and> rb_abs r' = rb_abs r @ [v]"
proof (cases "rb_length r = length (rb_elements r)")
  case True
  obtain r1 where r1: "rb_grow z r = Some r1" "rb_wf r1" "rb_abs r1 = rb_abs r" "rb_length r1 < length (rb_elements r1)"
    using rb_grow_ok [OF assms True] by blast
  have "rb_Push z v r = rb_Push z v r1"
    using r1(1,4) True by (simp add: rb_Push_def)
  then show ?thesis
    using rb_push_room [OF r1(2,4)] r1(3) by simp
next
  case False
  then show ?thesis
    using rb_push_room [OF assms] assms by (simp add: rb_wf_def)
qed

lemma rb_Pop_ok:
  assumes "rb_wf r"
  shows "\<exists>r'. rb_Pop z r = Some (r', case rb_abs r of [] \<Rightarrow> None | x # xs \<Rightarrow> Some x) \<and> rb_wf r' \<and> rb_abs r' = tl (rb_abs r)"
proof (cases "rb_length r")
  case 0
  then show ?thesis
    using assms by (simp add: rb_Pop_def rb_abs_def)
next
  case (Suc n)
  let ?l = "length (rb_elements r)" and ?h = "rb_head r"
  have h: "?h < ?l" "Suc n \<le> ?l"
    using assms Suc by (auto simp: rb_wf_def)
  have a: "rb_abs r = rb_elements r ! ?h # ring (rb_elements r) (Suc ?h) n"
    using h by (simp add: rb_abs_def Suc ring_Suc)
  let ?h' = "if n = 0 then 0 else if Suc ?h = ?l then 0 else Suc ?h"
  have "ring ((rb_elements r)[?h := z]) ?h' n = ring (rb_elements r) (Suc ?h) n"
  proof -
    have "ring ((rb_elements r)[?h := z]) ?h' n = ring ((rb_elements r)[?h := z]) (Suc ?h) n"
      using ring_mod [of "(rb_elements r)[?h := z]" "Suc ?h" n] h by (auto simp: mod_Suc)
    also have "\<dots> = ring (rb_elements r) (Suc ?h) n"
    proof (rule ring_cong)
      fix i
      assume "i < n"
      then have "Suc i < ?l" "0 < ?l"
        using h by linarith+
      then have "(Suc ?h + i) mod ?l \<noteq> (?h + 0) mod ?l"
        using mod_offsets_distinct [of "Suc i" ?l 0 ?h] by (metis add_Suc add_Suc_right nat.distinct(1))
      then show "(rb_elements r)[?h := z] ! ((Suc ?h + i) mod ?l) = rb_elements r ! ((Suc ?h + i) mod ?l)"
        using h by (simp add: nth_list_update)
    qed simp
    finally show ?thesis .
  qed
  then show ?thesis
    using h unfolding a by (auto simp: rb_Pop_def Suc go_nth_def rb_wf_def Let_def rb_abs_def)
qed

lemma rb_Peek_ok: "rb_wf r \<Longrightarrow> rb_Peek r = Some (case rb_abs r of [] \<Rightarrow> None | x # xs \<Rightarrow> Some x)"
  by (cases "rb_length r") (auto simp: rb_Peek_def rb_abs_def go_nth_def rb_wf_def ring_Suc)

lemma rb_last_index:
  assumes "rb_wf r" "rb_length r = Suc n"
  shows "rb_last_index r = (rb_head r + n) mod length (rb_elements r)" "rb_last_index r < length (rb_elements r)"
  using assms mod_once [of "rb_head r" "length (rb_elements r)" n]
  by (auto simp: rb_last_index_def rb_wf_def Let_def)

lemma rb_Last_ok: "rb_wf r \<Longrightarrow> rb_Last r = Some (if rb_abs r = [] then None else Some (last (rb_abs r)))"
proof (cases "rb_length r")
  case (Suc n)
  assume "rb_wf r"
  note i = rb_last_index [OF this Suc]
  have "rb_abs r \<noteq> []" "last (rb_abs r) = rb_elements r ! rb_last_index r"
    using i(1) by (simp_all add: rb_abs_def Suc last_conv_nth ring_def)
  then show ?thesis
    using i(2) by (simp add: rb_Last_def Suc go_nth_def)
qed (simp add: rb_Last_def rb_abs_def)

lemma rb_set_Last_ok:
  assumes "rb_wf r" "rb_abs r \<noteq> []"
  shows "rb_wf (rb_set_Last v r) \<and> rb_abs (rb_set_Last v r) = butlast (rb_abs r) @ [v]"
proof -
  obtain n where n: "rb_length r = Suc n"
    using assms(2) by (cases "rb_length r") (auto simp: rb_abs_def)
  note i = rb_last_index [OF assms(1) n]
  have l: "n < length (rb_elements r)"
    using assms(1) n by (simp add: rb_wf_def)
  have "butlast (rb_abs r) = ring (rb_elements r) (rb_head r) n"
    by (simp add: rb_abs_def n butlast_conv_take take_ring)
  then show ?thesis
    using ring_snoc [OF l, of "rb_head r" v] assms(1) by (simp add: rb_set_Last_def rb_abs_def n i(1) rb_wf_def)
qed

lemma go_copy_clear:
  assumes "i \<le> j" "j \<le> length xs"
  shows "rb_clear z i j xs = Some (map (\<lambda>k. if i \<le> k \<and> k < j then z else xs ! k) [0..<length xs])"
proof -
  have "go_copy xs i (replicate (j - i) z) = map (\<lambda>k. if i \<le> k \<and> k < j then z else xs ! k) [0..<length xs]"
    using assms by (intro nth_equalityI) (auto simp: nth_go_copy)
  then show ?thesis
    using assms by (simp add: rb_clear_def)
qed

lemma rb_Discard_ok:
  assumes "rb_wf r"
  shows "\<exists>r'. rb_Discard z c r = Some (r', min (nat c) (length (rb_abs r))) \<and> rb_wf r' \<and> rb_abs r' = drop (nat c) (rb_abs r)"
proof (cases "c \<le> 0 \<or> rb_length r = 0")
  case True
  then show ?thesis
    using assms by (auto simp: rb_Discard_def rb_abs_def)
next
  case False
  let ?l = "length (rb_elements r)" and ?h = "rb_head r" and ?n = "rb_length r"
  define k where "k = min (nat c) ?n"
  define f where "f = min k (?l - ?h)"
  have h: "?h < ?l" "?n \<le> ?l" "0 < k" "k \<le> ?n"
    using assms False by (auto simp: rb_wf_def k_def)
  have f: "?h + f \<le> ?l" "k - f \<le> ?l" "k - f \<le> ?h"
    using h by (auto simp: f_def)
  define es where "es = map (\<lambda>j. if j < k - f then z else if ?h \<le> j \<and> j < ?h + f then z else rb_elements r ! j) [0..<?l]"
  obtain e where es: "rb_clear z ?h (?h + f) (rb_elements r) = Some e" "rb_clear z 0 (k - f) e = Some es"
    using f by (simp add: go_copy_clear es_def)
  have l: "length es = ?l"
    by (simp add: es_def)
  let ?h' = "if ?n - k = 0 then 0 else if ?l \<le> ?h + k then ?h + k - ?l else ?h + k"
  let ?r = "\<lparr>rb_elements = es, rb_head = ?h', rb_length = ?n - k\<rparr>"
  have "rb_Discard z c r = Some (?r, k)"
    using False es l by (simp add: rb_Discard_def Let_def k_def [symmetric] f_def [symmetric])
  moreover have "rb_wf ?r"
    using h l by (auto simp: rb_wf_def)
  moreover have "ring es ?h' (?n - k) = ring (rb_elements r) (?h + k) (?n - k)"
  proof (cases "?n - k = 0")
    case False
    have "ring es ?h' (?n - k) = ring es (?h + k) (?n - k)"
      using ring_mod [of es "?h + k" "?n - k"] mod_once [OF h(1), of k] h False by (auto simp: l)
    also have "\<dots> = ring (rb_elements r) (?h + k) (?n - k)"
    proof (rule ring_cong)
      fix i
      assume "i < ?n - k"
      then have j: "(?h + k + i) mod ?l = (if ?h + k + i < ?l then ?h + k + i else ?h + k + i - ?l)" "k + i < ?n"
        using mod_once [OF h(1), of "k + i"] h by (auto simp: ac_simps)
      then have "\<not> (?h + k + i) mod ?l < k - f" "\<not> (?h \<le> (?h + k + i) mod ?l \<and> (?h + k + i) mod ?l < ?h + f)"
        using h by (auto simp: f_def min_def split: if_splits)
      moreover have "(?h + k + i) mod ?l < ?l"
        using h by (intro mod_less_divisor) linarith
      ultimately show "es ! ((?h + k + i) mod ?l) = rb_elements r ! ((?h + k + i) mod ?l)"
        unfolding es_def by auto
    qed (simp add: l)
    finally show ?thesis .
  qed simp
  moreover have "drop (nat c) (rb_abs r) = ring (rb_elements r) (?h + k) (?n - k)"
    by (cases "nat c \<le> ?n") (auto simp: rb_abs_def drop_ring k_def)
  ultimately show ?thesis
    by (simp add: rb_abs_def k_def)
qed

lemma rb_Clear_ok: "rb_wf r \<Longrightarrow> \<exists>r'. rb_Clear z r = Some r' \<and> rb_wf r' \<and> rb_abs r' = []"
  using rb_Discard_ok [of r z "int (rb_length r)"] by (auto simp: rb_Clear_def rb_length_eq)

subsection \<open>Iteration\<close>

lemma visit_list_append:
  "visit_list visit (xs @ ys) s =
     do {
       (xs, s, more) \<leftarrow> visit_list visit xs s;
       if more then do { (ys, s, more) \<leftarrow> visit_list visit ys s; Some (xs @ ys, s, more) } else Some (xs @ ys, s, False)
     }"
  by (induction xs arbitrary: s) (auto split: bind_splits simp: bind_assoc split: if_splits)

lemma length_visit_list: "visit_list visit xs s = Some (ys, s', go) \<Longrightarrow> length ys = length xs"
  by (induction xs arbitrary: s ys s' go) (auto split: bind_splits if_splits)

lemma rb_visit_None:
  assumes "distinct is" "\<And>i. i \<in> set is \<Longrightarrow> i < length xs" "visit_list visit (map ((!) xs) is) s = None"
  shows "rb_visit visit is xs s = None"
  using assms
proof (induction "is" arbitrary: xs s)
  case (Cons i "is")
  have e: "map ((!) (xs[i := x])) is = map ((!) xs) is" for x
    using Cons.prems(1) by (auto intro!: nth_list_update_neq)
  show ?case
    using Cons.prems Cons.IH [where xs = "xs[i := _]"] by (auto simp: go_nth_def e split: bind_splits if_splits)
qed simp

lemma rb_visit_Some:
  assumes "distinct is" "\<And>i. i \<in> set is \<Longrightarrow> i < length xs" "visit_list visit (map ((!) xs) is) s = Some (ys, s', go)"
  shows "\<exists>xs'. rb_visit visit is xs s = Some (xs', s', go) \<and> length xs' = length xs \<and> map ((!) xs') is = ys \<and>
    (\<forall>j. j \<notin> set is \<longrightarrow> xs' ! j = xs ! j)"
  using assms
proof (induction "is" arbitrary: xs s ys)
  case (Cons i "is")
  have e: "map ((!) (xs[i := x])) is = map ((!) xs) is" for x
    using Cons.prems(1) by (auto intro!: nth_list_update_neq)
  have i: "i < length xs" "go_nth xs i = Some (xs ! i)" "i \<notin> set is" "distinct is"
    using Cons.prems(1,2) by (auto simp: go_nth_def)
  obtain x s1 m where v: "visit (xs ! i) s = Some (x, s1, m)"
    using Cons.prems(3) by (auto split: bind_splits)
  show ?case
  proof (cases m)
    case True
    obtain ys1 where l: "visit_list visit (map ((!) xs) is) s1 = Some (ys1, s', go)" "ys = x # ys1"
      using Cons.prems(3) v True by (auto split: bind_splits)
    obtain xs' where "rb_visit visit is (xs[i := x]) s1 = Some (xs', s', go)" "length xs' = length xs"
      "map ((!) xs') is = ys1" "\<forall>j. j \<notin> set is \<longrightarrow> xs' ! j = xs[i := x] ! j"
      using Cons.IH [of "xs[i := x]" s1 ys1] i(4) l(1) Cons.prems(2) unfolding e by auto
    then show ?thesis
      using i v True l(2) by auto
  next
    case False
    then have "ys = x # map ((!) xs) is" "s' = s1" "\<not> go"
      using Cons.prems(3) v by auto
    then show ?thesis
      using i v False e [of x] by auto
  qed
qed simp

lemma rb_indices:
  fixes r :: "'a ringBuffer"
  assumes "rb_wf r"
  defines "f \<equiv> min (rb_length r) (length (rb_elements r) - rb_head r)"
  defines "A \<equiv> [rb_head r..<rb_head r + f]" and "B \<equiv> [0..<rb_length r - f]"
  shows "\<And>xs :: 'a list. length xs = length (rb_elements r) \<Longrightarrow> ring xs (rb_head r) (rb_length r) = map ((!) xs) A @ map ((!) xs) B"
    and "\<And>i. i \<in> set A \<Longrightarrow> i < length (rb_elements r)" "\<And>i. i \<in> set B \<Longrightarrow> i < length (rb_elements r)"
    and "set A \<inter> set B = {}"
proof -
  have h: "rb_head r < length (rb_elements r)" "rb_length r \<le> length (rb_elements r)"
    using assms(1) by (auto simp: rb_wf_def)
  show "ring xs (rb_head r) (rb_length r) = map ((!) xs) A @ map ((!) xs) B" if l: "length xs = length (rb_elements r)" for xs :: "'a list"
  proof (rule nth_equalityI)
    fix i
    assume "i < length (ring xs (rb_head r) (rb_length r))"
    then show "ring xs (rb_head r) (rb_length r) ! i = (map ((!) xs) A @ map ((!) xs) B) ! i"
      using h mod_once [OF h(1), of i] by (auto simp: A_def B_def f_def nth_append l min_def add.commute [of i] split: if_splits)
  qed (auto simp: A_def B_def f_def)
  show "i < length (rb_elements r)" if "i \<in> set A" for i
    using that h by (auto simp: A_def f_def)
  show "i < length (rb_elements r)" if "i \<in> set B" for i
    using that h by (auto simp: B_def f_def)
  show "set A \<inter> set B = {}"
    using h by (auto simp: A_def B_def f_def min_def)
qed

lemma rb_ForEach_None:
  assumes "rb_wf r" "visit_list visit (rb_abs r) s = None"
  shows "rb_ForEach visit r s = None"
proof -
  let ?f = "min (rb_length r) (length (rb_elements r) - rb_head r)"
  let ?A = "[rb_head r..<rb_head r + ?f]" and ?B = "[0..<rb_length r - ?f]"
  note ix = rb_indices [OF assms(1)]
  have v: "visit_list visit (map ((!) (rb_elements r)) ?A @ map ((!) (rb_elements r)) ?B) s = None"
    using assms(2) ix(1) [of "rb_elements r"] by (simp add: rb_abs_def)
  show ?thesis
  proof (cases "visit_list visit (map ((!) (rb_elements r)) ?A) s")
    case None
    then have "rb_visit visit ?A (rb_elements r) s = None"
      by (rule rb_visit_None [rotated 2]) (use ix(2) in simp_all)
    then show ?thesis
      by (simp add: rb_ForEach_def)
  next
    case (Some a)
    then obtain ys s1 where a: "visit_list visit (map ((!) (rb_elements r)) ?A) s = Some (ys, s1, True)"
      "visit_list visit (map ((!) (rb_elements r)) ?B) s1 = None"
      using v by (cases a) (auto simp: visit_list_append split: bind_splits if_splits)
    obtain es where e: "rb_visit visit ?A (rb_elements r) s = Some (es, s1, True)" "length es = length (rb_elements r)"
      "\<forall>j. j \<notin> set ?A \<longrightarrow> es ! j = rb_elements r ! j"
      using rb_visit_Some [OF _ _ a(1)] ix(2) by auto
    have B: "map ((!) es) ?B = map ((!) (rb_elements r)) ?B"
      using e(3) ix(4) by (intro map_cong refl) blast
    have "rb_visit visit ?B es s1 = None"
      by (rule rb_visit_None [rotated 2], unfold B, rule a(2)) (use ix(3) e(2) in simp_all)
    then show ?thesis
      using e(1) by (simp add: rb_ForEach_def)
  qed
qed

lemma rb_ForEach_Some:
  assumes "rb_wf r" "visit_list visit (rb_abs r) s = Some (zs, s', go)"
  shows "\<exists>r'. rb_ForEach visit r s = Some (r', s') \<and> rb_wf r' \<and> rb_abs r' = zs"
proof -
  let ?f = "min (rb_length r) (length (rb_elements r) - rb_head r)"
  let ?A = "[rb_head r..<rb_head r + ?f]" and ?B = "[0..<rb_length r - ?f]"
  note ix = rb_indices [OF assms(1)]
  have v: "visit_list visit (map ((!) (rb_elements r)) ?A @ map ((!) (rb_elements r)) ?B) s = Some (zs, s', go)"
    using assms(2) ix(1) [of "rb_elements r"] by (simp add: rb_abs_def)
  then obtain ys s1 m where a: "visit_list visit (map ((!) (rb_elements r)) ?A) s = Some (ys, s1, m)"
    by (auto simp: visit_list_append split: bind_splits)
  obtain es where e: "rb_visit visit ?A (rb_elements r) s = Some (es, s1, m)" "length es = length (rb_elements r)"
    "map ((!) es) ?A = ys" "\<forall>j. j \<notin> set ?A \<longrightarrow> es ! j = rb_elements r ! j"
    using rb_visit_Some [OF _ _ a] ix(2) by auto
  have B: "map ((!) es) ?B = map ((!) (rb_elements r)) ?B"
    using e(4) ix(4) by (intro map_cong refl) blast
  show ?thesis
  proof (cases m)
    case True
    obtain us where u: "visit_list visit (map ((!) es) ?B) s1 = Some (us, s', go)" "zs = ys @ us"
      using v a True by (auto simp: visit_list_append B split: bind_splits)
    obtain es' where e': "rb_visit visit ?B es s1 = Some (es', s', go)" "length es' = length es"
      "map ((!) es') ?B = us" "\<forall>j. j \<notin> set ?B \<longrightarrow> es' ! j = es ! j"
      using rb_visit_Some [OF _ _ u(1)] ix(3) e(2) by auto
    have "map ((!) es') ?A = ys"
      unfolding e(3) [symmetric] using e'(4) ix(4) by (intro map_cong refl) blast
    then have "ring es' (rb_head r) (rb_length r) = zs"
      using ix(1) [of es'] e'(2,3) e(2) u(2) by simp
    then show ?thesis
      using e(1,2) e'(1,2) True assms(1) by (simp add: rb_ForEach_def rb_wf_def rb_abs_def)
  next
    case False
    then have "s' = s1" "zs = ys @ map ((!) es) ?B"
      using v a by (auto simp: visit_list_append B)
    then have "ring es (rb_head r) (rb_length r) = zs"
      using ix(1) [of es] e(2,3) by simp
    then show ?thesis
      using e(1,2) False assms(1) \<open>s' = s1\<close> by (simp add: rb_ForEach_def rb_wf_def rb_abs_def)
  qed
qed

subsection \<open>First in, first out\<close>

text \<open>
  The contract of a queue with its client: adding, removing and dropping elements are those
  of a list. A run of a client then gets from the queue what it would get from the list.
\<close>

datatype 'a qop = Enq 'a | Deq | Skip int

fun queue_run ::
    "('a \<Rightarrow> 'q \<Rightarrow> 'q option) \<Rightarrow> ('q \<Rightarrow> ('q \<times> 'a option) option) \<Rightarrow> (int \<Rightarrow> 'q \<Rightarrow> ('q \<times> nat) option) \<Rightarrow> 'q \<Rightarrow>
     'a qop list \<Rightarrow> ('q \<times> 'a option list) option" where
  "queue_run push pop skip q [] = Some (q, [])"
| "queue_run push pop skip q (Enq x # ops) = do { q \<leftarrow> push x q; queue_run push pop skip q ops }"
| "queue_run push pop skip q (Deq # ops) =
     do { (q, r) \<leftarrow> pop q; (q, rs) \<leftarrow> queue_run push pop skip q ops; Some (q, r # rs) }"
| "queue_run push pop skip q (Skip c # ops) = do { (q, k) \<leftarrow> skip c q; queue_run push pop skip q ops }"

fun list_queue_run :: "'a list \<Rightarrow> 'a qop list \<Rightarrow> 'a list \<times> 'a option list" where
  "list_queue_run xs [] = (xs, [])"
| "list_queue_run xs (Enq x # ops) = list_queue_run (xs @ [x]) ops"
| "list_queue_run xs (Deq # ops) =
     (let (ys, rs) = list_queue_run (tl xs) ops in (ys, (case xs of [] \<Rightarrow> None | x # _ \<Rightarrow> Some x) # rs))"
| "list_queue_run xs (Skip c # ops) = list_queue_run (drop (nat c) xs) ops"

locale fifo =
  fixes ok :: "'q \<Rightarrow> bool"
    and held :: "'q \<Rightarrow> 'a list"
    and push :: "'a \<Rightarrow> 'q \<Rightarrow> 'q option"
    and pop :: "'q \<Rightarrow> ('q \<times> 'a option) option"
    and skip :: "int \<Rightarrow> 'q \<Rightarrow> ('q \<times> nat) option"
  assumes push_ok: "ok q \<Longrightarrow> \<exists>q'. push x q = Some q' \<and> ok q' \<and> held q' = held q @ [x]"
    and pop_ok: "ok q \<Longrightarrow> \<exists>q'. pop q = Some (q', case held q of [] \<Rightarrow> None | x # _ \<Rightarrow> Some x) \<and> ok q' \<and> held q' = tl (held q)"
    and skip_ok: "ok q \<Longrightarrow> \<exists>q'. skip c q = Some (q', min (nat c) (length (held q))) \<and> ok q' \<and> held q' = drop (nat c) (held q)"
begin

lemma run_refines:
  assumes "ok q"
  shows "\<exists>q'. queue_run push pop skip q ops = Some (q', snd (list_queue_run (held q) ops)) \<and> ok q' \<and>
    held q' = fst (list_queue_run (held q) ops)"
  using assms
proof (induction ops arbitrary: q)
  case (Cons op ops)
  show ?case
  proof (cases op)
    case (Enq x)
    obtain q1 where "push x q = Some q1" "ok q1" "held q1 = held q @ [x]"
      using push_ok [OF Cons.prems] by blast
    then show ?thesis
      using Cons.IH [of q1] by (simp add: Enq)
  next
    case Deq
    obtain q1 where "pop q = Some (q1, case held q of [] \<Rightarrow> None | x # _ \<Rightarrow> Some x)" "ok q1" "held q1 = tl (held q)"
      using pop_ok [OF Cons.prems] by blast
    then show ?thesis
      using Cons.IH [of q1] by (auto simp: Deq split_beta)
  next
    case (Skip c)
    obtain q1 where "skip c q = Some (q1, min (nat c) (length (held q)))" "ok q1" "held q1 = drop (nat c) (held q)"
      using skip_ok [OF Cons.prems] by blast
    then show ?thesis
      using Cons.IH [of q1] by (simp add: Skip)
  qed
qed simp

end

interpretation ring_fifo: fifo rb_wf rb_abs "rb_Push z" "rb_Pop z" "rb_Discard z" for z
  by unfold_locales (rule rb_Push_ok rb_Pop_ok rb_Discard_ok, assumption)+

text \<open>C25: a KCP ring buffer is a first-in first-out queue without a bound: from a new buffer of any
  requested capacity, every sequence of pushes, pops and discards runs without a panic, through
  wrap-around and growth, returns what an unbounded list would return, and leaves the list's
  elements in the list's order.\<close>

theorem ring_buffer_refines_list:
  "\<exists>r. queue_run (rb_Push z) (rb_Pop z) (rb_Discard z) (newRingBuffer z capacity) ops =
       Some (r, snd (list_queue_run [] ops)) \<and> rb_abs r = fst (list_queue_run [] ops) \<and> rb_Len r = length (fst (list_queue_run [] ops))"
  using ring_fifo.run_refines [of "newRingBuffer z capacity" z ops] by auto

end
