(* ===== verification/Hash_Codes.thy ===== *)
theory Hash_Codes
  imports Halo_Prelude
begin

text \<open>
  The hash codes of \<^verbatim>\<open>src/hashcode\<close>: integers, BKDR, and XXH3 with its default secret. XXH3 on
  long inputs reads through unsafe pointers; here every read of the input and of the secret
  that would leave its array is \<^const>\<open>None\<close>, so that a result means that all reads were
  inside. A pointer into an array is an offset.
\<close>

definition integerHashPrime :: u64 where "integerHashPrime = 0x9e3779b97f4a7c15"

definition GetHashCodeInt :: "u64 \<Rightarrow> u64" where
  "GetHashCodeInt value =
     (let value = value XOR drop_bit 32 value;
          value = value XOR drop_bit 16 value
      in value * integerHashPrime)"

definition GetHashCodeBKDR :: "bytes \<Rightarrow> u64" where
  "GetHashCodeBKDR data = foldl (\<lambda>hashCode value. ucast value + 131 * hashCode) 0 data"

subsection \<open>XXH3\<close>

definition stripeSize :: nat where "stripeSize = 64"
definition xxh3_blockSize :: nat where "xxh3_blockSize = 1024"
definition prime32One :: u64 where "prime32One = 2654435761"
definition prime32Two :: u64 where "prime32Two = 2246822519"
definition prime32Three :: u64 where "prime32Three = 3266489917"
definition prime64One :: u64 where "prime64One = 11400714785074694791"
definition prime64Two :: u64 where "prime64Two = 14029467366897019727"
definition prime64Three :: u64 where "prime64Three = 1609587929392839161"
definition prime64Four :: u64 where "prime64Four = 9650029242287828579"
definition prime64Five :: u64 where "prime64Five = 2870177450012600261"

definition defaultSecret :: bytes where
  "defaultSecret =
     [0xb8, 0xfe, 0x6c, 0x39, 0x23, 0xa4, 0x4b, 0xbe, 0x7c, 0x01, 0x81, 0x2c, 0xf7, 0x21, 0xad, 0x1c,
      0xde, 0xd4, 0x6d, 0xe9, 0x83, 0x90, 0x97, 0xdb, 0x72, 0x40, 0xa4, 0xa4, 0xb7, 0xb3, 0x67, 0x1f,
      0xcb, 0x79, 0xe6, 0x4e, 0xcc, 0xc0, 0xe5, 0x78, 0x82, 0x5a, 0xd0, 0x7d, 0xcc, 0xff, 0x72, 0x21,
      0xb8, 0x08, 0x46, 0x74, 0xf7, 0x43, 0x24, 0x8e, 0xe0, 0x35, 0x90, 0xe6, 0x81, 0x3a, 0x26, 0x4c,
      0x3c, 0x28, 0x52, 0xbb, 0x91, 0xc3, 0x00, 0xcb, 0x88, 0xd0, 0x65, 0x8b, 0x1b, 0x53, 0x2e, 0xa3,
      0x71, 0x64, 0x48, 0x97, 0xa2, 0x0d, 0xf9, 0x4e, 0x38, 0x19, 0xef, 0x46, 0xa9, 0xde, 0xac, 0xd8,
      0xa8, 0xfa, 0x76, 0x3f, 0xe3, 0x9c, 0x34, 0x3f, 0xf9, 0xdc, 0xbb, 0xc7, 0xc7, 0x0b, 0x4f, 0x1d,
      0x8a, 0x51, 0xe0, 0x4b, 0xcd, 0xb4, 0x59, 0x31, 0xc8, 0x9f, 0x7e, 0xc9, 0xd9, 0x78, 0x73, 0x64,
      0xea, 0xc5, 0xac, 0x83, 0x34, 0xd3, 0xeb, 0xc3, 0xc5, 0x81, 0xa0, 0xff, 0xfa, 0x13, 0x63, 0xeb,
      0x17, 0x0d, 0xdd, 0x51, 0xb7, 0xf0, 0xda, 0x49, 0xd3, 0x16, 0x55, 0x26, 0x29, 0xd4, 0x68, 0x9e,
      0x2b, 0x16, 0xbe, 0x58, 0x7d, 0x47, 0xa1, 0xfc, 0x8f, 0xf8, 0xb8, 0xd1, 0x7a, 0xd0, 0x31, 0xce,
      0x45, 0xcb, 0x3a, 0x8f, 0x95, 0x16, 0x04, 0x28, 0xaf, 0xd7, 0xfb, 0xca, 0xbb, 0x4b, 0x40, 0x7e]"

definition read16 :: "bytes \<Rightarrow> nat \<Rightarrow> u16 option" where
  "read16 data offset = map_option get_le16 (go_sub data offset (offset + 2))"

definition read32 :: "bytes \<Rightarrow> nat \<Rightarrow> u32 option" where
  "read32 data offset = map_option get_le32 (go_sub data offset (offset + 4))"

definition read64 :: "bytes \<Rightarrow> nat \<Rightarrow> u64 option" where
  "read64 data offset = map_option get_le64 (go_sub data offset (offset + 8))"

definition secret32 :: "nat \<Rightarrow> u32 option" where
  "secret32 offset = read32 defaultSecret offset"

definition secret64 :: "nat \<Rightarrow> u64 option" where
  "secret64 offset = read64 defaultSecret offset"

text \<open>A read through a pointer \<open>p\<close> into an array.\<close>

definition readPointer64 :: "bytes \<Rightarrow> nat \<Rightarrow> nat \<Rightarrow> u64 option" where
  "readPointer64 a p offset = map_option get_le64 (go_sub a (p + offset) (p + offset + 8))"

text \<open>The two halves of the 128-bit product, \<^verbatim>\<open>bits.Mul64\<close>.\<close>

definition multiplyFold64 :: "u64 \<Rightarrow> u64 \<Rightarrow> u64" where
  "multiplyFold64 l r =
     (let p = uint l * uint r; high = word_of_int (p div 2 ^ 64); low = word_of_int p in high XOR low)"

definition avalancheSmall :: "u64 \<Rightarrow> u64" where
  "avalancheSmall value =
     (let value = value XOR drop_bit 33 value;
          value = value * prime64Two;
          value = value XOR drop_bit 29 value;
          value = value * prime64Three
      in value XOR drop_bit 32 value)"

definition avalanche :: "u64 \<Rightarrow> u64" where
  "avalanche value =
     (let value = value XOR drop_bit 37 value;
          value = value * 0x165667919e3779f9
      in value XOR drop_bit 32 value)"

definition rrmxmx :: "u64 \<Rightarrow> u64 \<Rightarrow> u64" where
  "rrmxmx value len =
     (let value = value XOR (word_rotl 49 value XOR word_rotl 24 value);
          value = value * 0x9fb21c651e98df25;
          value = value XOR (drop_bit 35 value + len);
          value = value * 0x9fb21c651e98df25
      in value XOR drop_bit 28 value)"

definition mix16 :: "bytes \<Rightarrow> nat \<Rightarrow> nat \<Rightarrow> u64 option" where
  "mix16 data dataOffset secretOffset =
     do {
       a \<leftarrow> read64 data dataOffset;
       k \<leftarrow> secret64 secretOffset;
       b \<leftarrow> read64 data (dataOffset + 8);
       l \<leftarrow> secret64 (secretOffset + 8);
       Some (multiplyFold64 (a XOR k) (b XOR l))
     }"

definition ReverseBytes64 :: "u64 \<Rightarrow> u64" where
  "ReverseBytes64 w = get_be64 (le64 w)"

definition hashSmall :: "bytes \<Rightarrow> u64 option" where
  "hashSmall data =
     (let len = length data;
          finish = (\<lambda>accumulator. do {
            a \<leftarrow> secret32 0;
            b \<leftarrow> secret32 4;
            Some (avalancheSmall (accumulator XOR ucast (a XOR b)))
          })
      in
      if len > 8 then
        do {
          x \<leftarrow> read64 data 0; a \<leftarrow> secret64 24; b \<leftarrow> secret64 32;
          let inputLow = x XOR (a XOR b);
          y \<leftarrow> read64 data (len - 8); c \<leftarrow> secret64 40; d \<leftarrow> secret64 48;
          let inputHigh = y XOR (c XOR d);
          let folded = multiplyFold64 inputLow inputHigh;
          Some (avalanche (of_nat len + ReverseBytes64 inputLow + inputHigh + folded))
        }
      else if len > 3 then
        do {
          inputOne \<leftarrow> read32 data 0;
          inputTwo \<leftarrow> read32 data (len - 4);
          let input = ucast inputTwo + push_bit 32 (ucast inputOne);
          a \<leftarrow> secret64 8; b \<leftarrow> secret64 16;
          Some (rrmxmx (input XOR (a XOR b)) (of_nat len))
        }
      else if len = 3 then
        do {
          firstTwo \<leftarrow> read16 data 0;
          third \<leftarrow> go_nth data 2;
          finish (push_bit 16 (ucast firstTwo) + ucast third + push_bit 8 3)
        }
      else if len = 2 then
        do {
          firstTwo \<leftarrow> read16 data 0;
          finish (drop_bit 8 (ucast firstTwo * (push_bit 24 1 + 1)) + push_bit 8 2)
        }
      else if len = 1 then
        do {
          first \<leftarrow> go_nth data 0;
          finish (ucast first * (push_bit 24 1 + push_bit 16 1 + 1) + push_bit 8 1)
        }
      else Some 0x2d06800538d394c2)"

text \<open>Adding mixed pairs to an accumulator, in order.\<close>

fun mix_all :: "bytes \<Rightarrow> (nat \<times> nat) list \<Rightarrow> u64 \<Rightarrow> u64 option" where
  "mix_all data [] accumulator = Some accumulator"
| "mix_all data ((d, s) # ds) accumulator = do { m \<leftarrow> mix16 data d s; mix_all data ds (accumulator + m) }"

definition hashMedium :: "bytes \<Rightarrow> u64 option" where
  "hashMedium data =
     (let len = length data in
      do {
        let accumulator = of_nat len * prime64One;
        accumulator \<leftarrow> mix_all data
          ((if len > 32 then
              (if len > 64 then
                 (if len > 96 then [(48, 96), (len - 64, 112)] else []) @ [(32, 64), (len - 48, 80)]
               else []) @ [(16, 32), (len - 32, 48)]
            else []) @ [(0, 0), (len - 16, 16)]) accumulator;
        Some (avalanche accumulator)
      })"

text \<open>The offsets of a loop that steps by 16.\<close>

definition by16 :: "nat \<Rightarrow> nat \<Rightarrow> nat list" where
  "by16 i j = map (\<lambda>k. i + 16 * k) [0..<(j - i + 15) div 16]"

definition hashLarge :: "bytes \<Rightarrow> u64 option" where
  "hashLarge data =
     (let len = length data in
      do {
        accumulator \<leftarrow> mix_all data (map (\<lambda>offset. (offset, offset)) (by16 0 128)) (of_nat len * prime64One);
        let accumulator = avalanche accumulator;
        let top = len - len mod 16;
        accumulator \<leftarrow> mix_all data (map (\<lambda>offset. (offset, offset - 125)) (by16 128 top)) accumulator;
        m \<leftarrow> mix16 data (len - 16) 119;
        Some (avalanche (accumulator + m))
      })"

text \<open>One pair of lanes of a stripe.\<close>

definition accumulatePair :: "bytes \<Rightarrow> nat \<Rightarrow> nat \<Rightarrow> nat \<Rightarrow> u64 list \<Rightarrow> u64 list option" where
  "accumulatePair data dataPointer secretPointer lane accumulators =
     do {
       inputA \<leftarrow> readPointer64 data dataPointer (8 * lane);
       ka \<leftarrow> readPointer64 defaultSecret secretPointer (8 * lane);
       let keyedA = inputA XOR ka;
       inputB \<leftarrow> readPointer64 data dataPointer (8 * lane + 8);
       kb \<leftarrow> readPointer64 defaultSecret secretPointer (8 * lane + 8);
       let keyedB = inputB XOR kb;
       Some (accumulators[lane := accumulators ! lane + (ucast (ucast keyedA :: u32) * drop_bit 32 keyedA + inputB),
                          lane + 1 := accumulators ! (lane + 1) + (inputA + ucast (ucast keyedB :: u32) * drop_bit 32 keyedB)])
     }"

definition accumulateStripe :: "bytes \<Rightarrow> nat \<Rightarrow> nat \<Rightarrow> u64 list \<Rightarrow> u64 list option" where
  "accumulateStripe data dataPointer secretPointer accumulators =
     do {
       accumulators \<leftarrow> accumulatePair data dataPointer secretPointer 0 accumulators;
       accumulators \<leftarrow> accumulatePair data dataPointer secretPointer 2 accumulators;
       accumulators \<leftarrow> accumulatePair data dataPointer secretPointer 4 accumulators;
       accumulatePair data dataPointer secretPointer 6 accumulators
     }"

fun scramble_lanes :: "nat \<Rightarrow> u64 list \<Rightarrow> u64 list option" where
  "scramble_lanes lane [] = Some []"
| "scramble_lanes lane (a # accumulators) =
     do {
       let a = a XOR drop_bit 47 a;
       k \<leftarrow> secret64 (128 + lane * 8);
       rest \<leftarrow> scramble_lanes (lane + 1) accumulators;
       Some ((a XOR k) * prime32One # rest)
     }"

definition scramble :: "u64 list \<Rightarrow> u64 list option" where
  "scramble accumulators = scramble_lanes 0 accumulators"

text \<open>\<open>n\<close> stripes from a data pointer on, the secret advancing by 8 bytes.\<close>

fun accumulate_stripes :: "bytes \<Rightarrow> nat \<Rightarrow> nat \<Rightarrow> nat \<Rightarrow> u64 list \<Rightarrow> u64 list option" where
  "accumulate_stripes data dataPointer blockSecret 0 accumulators = Some accumulators"
| "accumulate_stripes data dataPointer blockSecret (Suc n) accumulators =
     do {
       accumulators \<leftarrow> accumulateStripe data dataPointer blockSecret accumulators;
       accumulate_stripes data (dataPointer + stripeSize) (blockSecret + 8) n accumulators
     }"

text \<open>The loop over whole blocks, with the bytes that remain.\<close>

function accumulate_blocks :: "bytes \<Rightarrow> nat \<Rightarrow> nat \<Rightarrow> u64 list \<Rightarrow> (nat \<times> nat \<times> u64 list) option" where
  "accumulate_blocks data dataPointer remaining accumulators =
     (if remaining > xxh3_blockSize then
        do {
          accumulators \<leftarrow> accumulate_stripes data dataPointer 0 (xxh3_blockSize div stripeSize) accumulators;
          accumulators \<leftarrow> scramble accumulators;
          accumulate_blocks data (dataPointer + xxh3_blockSize) (remaining - xxh3_blockSize) accumulators
        }
      else Some (dataPointer, remaining, accumulators))"
  by pat_completeness auto
termination
  by (relation "measure (\<lambda>(_, _, r, _). r)") (auto simp: xxh3_blockSize_def)

definition accumulateLong :: "bytes \<Rightarrow> u64 list \<Rightarrow> u64 list option" where
  "accumulateLong data accumulators =
     do {
       (dataPointer, remaining, accumulators) \<leftarrow> accumulate_blocks data 0 (length data) accumulators;
       if remaining = 0 then Some accumulators
       else do {
         let stripes = (remaining - 1) div stripeSize;
         accumulators \<leftarrow> accumulate_stripes data dataPointer 0 stripes accumulators;
         if remaining - stripes * stripeSize > 0
         then accumulateStripe data (length data - stripeSize) 121 accumulators
         else Some accumulators
       }
     }"

definition hashLong :: "bytes \<Rightarrow> u64 option" where
  "hashLong data =
     do {
       a \<leftarrow> accumulateLong data [prime32Three, prime64One, prime64Two, prime64Three,
              prime64Four, prime32Two, prime64Five, prime32One];
       k0 \<leftarrow> secret64 11; k1 \<leftarrow> secret64 19; k2 \<leftarrow> secret64 27; k3 \<leftarrow> secret64 35;
       k4 \<leftarrow> secret64 43; k5 \<leftarrow> secret64 51; k6 \<leftarrow> secret64 59; k7 \<leftarrow> secret64 67;
       let result = of_nat (length data) * prime64One;
       let result = result + multiplyFold64 (a ! 0 XOR k0) (a ! 1 XOR k1);
       let result = result + multiplyFold64 (a ! 2 XOR k2) (a ! 3 XOR k3);
       let result = result + multiplyFold64 (a ! 4 XOR k4) (a ! 5 XOR k5);
       let result = result + multiplyFold64 (a ! 6 XOR k6) (a ! 7 XOR k7);
       Some (avalanche result)
     }"

definition xxh3HashCode :: "bytes \<Rightarrow> u64 option" where
  "xxh3HashCode data =
     (if length data \<le> 16 then hashSmall data
      else if length data \<le> 128 then hashMedium data
      else if length data \<le> 240 then hashLarge data
      else hashLong data)"

definition GetHashCodeXXH3 :: "bytes \<Rightarrow> u64 option" where
  "GetHashCodeXXH3 data = xxh3HashCode data"

declare accumulate_blocks.simps [simp del]

subsection \<open>Every read is inside its array\<close>

lemma length_defaultSecret [simp]: "length defaultSecret = 192"
  by (simp add: defaultSecret_def)

lemma reads_inside:
  "offset + 2 \<le> length data \<Longrightarrow> \<exists>w. read16 data offset = Some w"
  "offset + 4 \<le> length data \<Longrightarrow> \<exists>w. read32 data offset = Some w"
  "offset + 8 \<le> length data \<Longrightarrow> \<exists>w. read64 data offset = Some w"
  "p + offset + 8 \<le> length data \<Longrightarrow> \<exists>w. readPointer64 data p offset = Some w"
  by (simp_all add: read16_def read32_def read64_def readPointer64_def go_sub_def)

lemma secrets_inside:
  "offset + 4 \<le> 192 \<Longrightarrow> \<exists>w. secret32 offset = Some w"
  "offset + 8 \<le> 192 \<Longrightarrow> \<exists>w. secret64 offset = Some w"
  by (simp_all add: secret32_def secret64_def reads_inside)

text \<open>Sequencing reads: a chain of them succeeds when each does.\<close>

lemma bind_total: "\<exists>a. m = Some a \<Longrightarrow> (\<And>a. m = Some a \<Longrightarrow> \<exists>b. f a = Some b) \<Longrightarrow> \<exists>b. m \<bind> f = Some b"
  by auto

lemma mix16_inside:
  "dataOffset + 16 \<le> length data \<Longrightarrow> secretOffset + 16 \<le> 192 \<Longrightarrow> \<exists>w. mix16 data dataOffset secretOffset = Some w"
  unfolding mix16_def by (intro bind_total reads_inside secrets_inside) simp_all

lemma mix_all_inside:
  "(\<And>d s. (d, s) \<in> set ds \<Longrightarrow> d + 16 \<le> length data \<and> s + 16 \<le> 192) \<Longrightarrow> \<exists>w. mix_all data ds a = Some w"
proof (induction ds arbitrary: a)
  case (Cons x ds)
  obtain d s where "x = (d, s)"
    by (cases x)
  moreover have "d + 16 \<le> length data" "s + 16 \<le> 192"
    using Cons.prems [of d s] \<open>x = (d, s)\<close> by auto
  moreover have "\<exists>w. mix_all data ds b = Some w" for b
    using Cons.IH Cons.prems by (meson list.set_intros(2))
  ultimately show ?case
    using mix16_inside [of d data s] by auto
qed simp

lemma hashSmall_inside: "length data \<le> 16 \<Longrightarrow> \<exists>h. hashSmall data = Some h"
proof -
  have fin: "\<exists>h. do { a \<leftarrow> secret32 0; b \<leftarrow> secret32 4; Some (avalancheSmall (x XOR ucast (a XOR b))) } = Some h" for x
    by (intro bind_total secrets_inside) simp_all
  have n: "i < length data \<Longrightarrow> \<exists>x. go_nth data i = Some x" for i
    by (simp add: go_nth_def)
  consider "length data > 8" | "length data > 3" "length data \<le> 8" | "length data = 3" | "length data = 2" |
    "length data = 1" | "length data = 0"
    by linarith
  then show ?thesis
  proof cases
    case 1
    then show ?thesis
      unfolding hashSmall_def Let_def by (simp, intro bind_total reads_inside secrets_inside) simp_all
  next
    case 2
    then show ?thesis
      unfolding hashSmall_def Let_def by (simp, intro bind_total reads_inside secrets_inside) simp_all
  qed (unfold hashSmall_def Let_def, simp_all, (intro bind_total reads_inside n fin, simp_all)+)
qed

lemma hashMedium_inside: "16 < length data \<Longrightarrow> length data \<le> 128 \<Longrightarrow> \<exists>h. hashMedium data = Some h"
  unfolding hashMedium_def Let_def
  by (intro bind_total mix_all_inside) (auto split: if_splits)

lemma by16_bounds: "d \<in> set (by16 i j) \<Longrightarrow> i \<le> d \<and> d < j"
  by (auto simp: by16_def)

lemma hashLarge_inside:
  assumes "128 < length data" "length data \<le> 240"
  shows "\<exists>h. hashLarge data = Some h"
proof -
  have "d + 16 \<le> length data" if "d \<in> set (by16 i (length data - length data mod 16))" "16 dvd i" for d i
  proof -
    note d = by16_bounds [OF that(1)]
    have "16 dvd d" "length data - length data mod 16 = 16 * (length data div 16)"
      using that by (auto simp: by16_def minus_mod_eq_mult_div)
    then obtain k where "d = 16 * k" "k < length data div 16"
      using d by (auto elim!: dvdE)
    moreover have "16 * (length data div 16) \<le> length data"
      by simp
    ultimately show ?thesis
      by linarith
  qed
  moreover have "d + 16 \<le> 128" if "d \<in> set (by16 0 128)" for d
    using that by (auto simp: by16_def)
  ultimately show ?thesis
    unfolding hashLarge_def Let_def using assms
    by (intro bind_total mix_all_inside mix16_inside) (fastforce dest: by16_bounds)+
qed

lemma accumulateStripe_inside:
  assumes "dp + 64 \<le> length data" "sp + 64 \<le> 192" "length a = 8"
  shows "\<exists>b. accumulateStripe data dp sp a = Some b \<and> length b = 8"
proof -
  have *: "\<exists>b. accumulatePair data dp sp lane a = Some b \<and> length b = 8" if "lane \<le> 6" "length a = 8" for lane a
  proof -
    have "\<exists>b. accumulatePair data dp sp lane a = Some b"
      unfolding accumulatePair_def Let_def using that(1) assms(1,2) by (intro bind_total reads_inside) simp_all
    then show ?thesis
      using that(2) by (auto simp: accumulatePair_def Let_def split: bind_splits)
  qed
  show ?thesis
    unfolding accumulateStripe_def using * [of 0 a] * [of 2] * [of 4] * [of 6] assms(3) by fastforce
qed

lemma accumulate_stripes_inside:
  "dp + 64 * n \<le> length data \<Longrightarrow> sp + 8 * n + 56 \<le> 192 \<Longrightarrow> length a = 8 \<Longrightarrow>
    \<exists>b. accumulate_stripes data dp sp n a = Some b \<and> length b = 8"
proof (induction n arbitrary: dp sp a)
  case (Suc n)
  obtain b where "accumulateStripe data dp sp a = Some b" "length b = 8"
    using accumulateStripe_inside [of dp data sp a] Suc.prems by auto
  then show ?case
    using Suc.IH [of "dp + 64" "sp + 8" b] Suc.prems by (simp add: stripeSize_def)
qed simp

lemma scramble_inside: "length a = 8 \<Longrightarrow> \<exists>b. scramble a = Some b \<and> length b = 8"
proof -
  have "lane + length a \<le> 8 \<Longrightarrow> \<exists>b. scramble_lanes lane a = Some b \<and> length b = length a" for lane
  proof (induction a arbitrary: lane)
    case (Cons x a)
    have "\<exists>w. secret64 (128 + lane * 8) = Some w"
      using Cons.prems by (intro secrets_inside) simp
    then show ?case
      using Cons.IH [of "lane + 1"] Cons.prems by (auto simp: Let_def)
  qed simp
  then show "length a = 8 \<Longrightarrow> \<exists>b. scramble a = Some b \<and> length b = 8"
    unfolding scramble_def by fastforce
qed

lemma accumulate_blocks_inside:
  assumes "dp + r = length data" "length a = 8" "0 < r"
  shows "\<exists>dp' r' b. accumulate_blocks data dp r a = Some (dp', r', b) \<and> length b = 8 \<and> dp' + r' = length data \<and> r' \<le> 1024 \<and> 0 < r'"
  using assms
proof (induction data dp r a rule: accumulate_blocks.induct)
  case (1 data dp r a)
  show ?case
  proof (cases "r > xxh3_blockSize")
    case True
    then have r: "r > 1024"
      by (simp add: xxh3_blockSize_def)
    obtain b where b: "accumulate_stripes data dp 0 (xxh3_blockSize div stripeSize) a = Some b" "length b = 8"
      using accumulate_stripes_inside [of dp 16 data 0 a] "1.prems" r by (auto simp: xxh3_blockSize_def stripeSize_def)
    obtain c where c: "scramble b = Some c" "length c = 8"
      using scramble_inside [OF b(2)] by blast
    have "dp + xxh3_blockSize + (r - xxh3_blockSize) = length data" "0 < r - xxh3_blockSize"
      using "1.prems" True by simp_all
    from "1.IH" [OF True b(1) c(1) this(1) c(2) this(2)] show ?thesis
      using True b c by (subst accumulate_blocks.simps) simp
  qed (use "1.prems" in \<open>subst accumulate_blocks.simps, simp add: xxh3_blockSize_def\<close>)
qed

lemma hashLong_inside:
  assumes "240 < length data"
  shows "\<exists>h. hashLong data = Some h"
proof -
  let ?a = "[prime32Three, prime64One, prime64Two, prime64Three, prime64Four, prime32Two, prime64Five, prime32One]"
  obtain dp r b where b: "accumulate_blocks data 0 (length data) ?a = Some (dp, r, b)" "length b = 8" "dp + r = length data"
    "r \<le> 1024" "0 < r"
    using accumulate_blocks_inside [of 0 "length data" data ?a] assms less_trans [of 0 240 "length data"] by auto
  have n: "64 * ((r - 1) div 64) \<le> r - 1" "(r - 1) div 64 \<le> 15"
    using b(4) by (auto simp: less_mult_imp_div_less [of _ 16 64, simplified less_Suc_eq_le])
  have "dp + 64 * ((r - 1) div 64) \<le> length data"
    using n(1) b(3,5) by linarith
  then obtain c where c: "accumulate_stripes data dp 0 ((r - 1) div stripeSize) b = Some c" "length c = 8"
    using accumulate_stripes_inside [of dp "(r - 1) div 64" data 0 b] b(2) n(2) by (auto simp: stripeSize_def)
  have "\<exists>d. accumulateLong data ?a = Some d"
    using b c accumulateStripe_inside [of "length data - 64" data 121 c] assms by (auto simp: accumulateLong_def Let_def stripeSize_def)
  then show ?thesis
    unfolding hashLong_def by (intro bind_total secrets_inside) (simp_all add: Let_def)
qed

text \<open>C26: hashing never reads outside the input or the secret: for every byte sequence, of any length,
  XXH3 gives a hash code, so every slice and every unsafe pointer read of the code stays inside
  its array.\<close>

theorem xxh3_reads_inside: "\<exists>h. GetHashCodeXXH3 data = Some h"
  unfolding GetHashCodeXXH3_def xxh3HashCode_def
  using hashSmall_inside hashMedium_inside hashLarge_inside hashLong_inside by (simp add: not_le)

subsection \<open>Integer hash codes\<close>

definition unhash_int :: "u64 \<Rightarrow> u64" where
  "unhash_int h =
     (let v = h * 0xf1de83e19937733d;
          v = v XOR drop_bit 32 v;
          v = v XOR drop_bit 16 v
      in v XOR drop_bit 32 v)"

lemma xor_shift_32: "(v XOR drop_bit 32 v) XOR drop_bit 32 (v XOR drop_bit 32 v) = v" for v :: u64
  by (rule bit_word_eqI) (auto simp: bit_simps dest: bit_imp_le_length)

lemma xor_shift_16:
  fixes v :: u64
  defines "w \<equiv> v XOR drop_bit 16 v"
  defines "x \<equiv> w XOR drop_bit 32 w"
  shows "x XOR drop_bit 16 x = v"
  unfolding x_def w_def by (rule bit_word_eqI) (auto simp: bit_simps add.commute dest: bit_imp_le_length)

lemma hash_prime_inverse: "integerHashPrime * 0xf1de83e19937733d = 1"
  by (simp add: integerHashPrime_def)

lemma unhash_hash: "unhash_int (GetHashCodeInt v) = v"
  by (simp only: unhash_int_def GetHashCodeInt_def Let_def mult.assoc hash_prime_inverse mult_1_right xor_shift_16 xor_shift_32)

text \<open>C27: the hash code of integers is a permutation of the 64-bit integers: two different integer
  keys never have the same hash code, and every hash code is taken.\<close>

theorem int_hash_bijective: "bij GetHashCodeInt"
proof -
  have "inj GetHashCodeInt"
    by (metis injI unhash_hash)
  then show ?thesis
    using finite_UNIV_inj_surj [of GetHashCodeInt] by (simp add: bij_def)
qed

end
