(* ===== verification/Kcp.thy ===== *)
theory Kcp
  imports Segment_Heap Kcp_Ring Hash_Codes
begin

text \<open>
  The KCP state machine of \<^verbatim>\<open>src/protocol/kcp/kcp.go\<close> with the payload check of
  \<^verbatim>\<open>byte_check.go\<close>. An operation is a function of the state of one connection; a panic is
  \<^const>\<open>None\<close>. Three things the code reaches outside the connection are part of the state:
  the packets handed to the output callback, the number of readings of the clock so far (the
  \<open>n\<close>-th reading gives \<open>clk n\<close>, for an arbitrary \<open>clk\<close>), and what the connection added to the
  process-wide statistics. The buffers of the segments come from a pool that only recycles
  memory: a segment holds its bytes. Fields of type \<^verbatim>\<open>int\<close> that the code keeps non-negative are
  natural numbers; the fields of 32 bits, signed or not, are words.
\<close>

subsection \<open>Constants and configuration\<close>

definition IKCP_RTO_NDL :: u32 where "IKCP_RTO_NDL = 30"
definition IKCP_RTO_MIN :: u32 where "IKCP_RTO_MIN = 100"
definition IKCP_RTO_DEF :: u32 where "IKCP_RTO_DEF = 200"
definition IKCP_RTO_MAX :: u32 where "IKCP_RTO_MAX = 60000"
definition IKCP_CMD_PUSH :: u8 where "IKCP_CMD_PUSH = 81"
definition IKCP_CMD_ACK :: u8 where "IKCP_CMD_ACK = 82"
definition IKCP_CMD_WASK :: u8 where "IKCP_CMD_WASK = 83"
definition IKCP_CMD_WINS :: u8 where "IKCP_CMD_WINS = 84"
definition IKCP_ASK_SEND :: u32 where "IKCP_ASK_SEND = 1"
definition IKCP_ASK_TELL :: u32 where "IKCP_ASK_TELL = 2"
definition IKCP_WND_SND :: u32 where "IKCP_WND_SND = 32"
definition IKCP_WND_RCV :: u32 where "IKCP_WND_RCV = 32"
definition IKCP_MTU_DEF :: u32 where "IKCP_MTU_DEF = 1400"
definition IKCP_INTERVAL :: u32 where "IKCP_INTERVAL = 100"
definition IKCP_DEADLINK :: u32 where "IKCP_DEADLINK = 20"
definition IKCP_THRESH_INIT :: u32 where "IKCP_THRESH_INIT = 2"
definition IKCP_THRESH_MIN :: u32 where "IKCP_THRESH_MIN = 2"
definition IKCP_PROBE_INIT :: u32 where "IKCP_PROBE_INIT = 7000"
definition IKCP_PROBE_LIMIT :: u32 where "IKCP_PROBE_LIMIT = 120000"
definition ByteCheckModeDisabled :: int where "ByteCheckModeDisabled = -1"
definition ByteCheckModeZero :: int where "ByteCheckModeZero = 0"
definition ByteCheckModeCRC32 :: int where "ByteCheckModeCRC32 = 1"
definition ByteCheckModeXXH3 :: int where "ByteCheckModeXXH3 = 2"
definition IKCP_BASE_OVERHEAD :: nat where "IKCP_BASE_OVERHEAD = 28"
definition IKCP_BYTE_CHECK_OVERHEAD :: nat where "IKCP_BYTE_CHECK_OVERHEAD = 4"
definition mtuLimit :: nat where "mtuLimit = 1500"

text \<open>The configuration of the process. The variable \<^verbatim>\<open>IKCP_OVERHEAD\<close> is only ever assigned together
  with \<^verbatim>\<open>byteCheckModeEnable\<close> and is the value below.\<close>

record kcp_config =
  cfg_frozen :: bool
  cfg_enable :: bool
  cfg_mode :: int

definition IKCP_OVERHEAD :: "kcp_config \<Rightarrow> nat" where
  "IKCP_OVERHEAD cfg = IKCP_BASE_OVERHEAD + (if cfg_enable cfg then IKCP_BYTE_CHECK_OVERHEAD else 0)"

definition byteCheckModeSupported :: "int \<Rightarrow> bool" where
  "byteCheckModeSupported mode \<longleftrightarrow> mode = ByteCheckModeZero \<or> mode = ByteCheckModeCRC32 \<or> mode = ByteCheckModeXXH3"

definition SetByteCheckMode :: "int \<Rightarrow> kcp_config \<Rightarrow> kcp_config \<times> string option" where
  "SetByteCheckMode mode cfg =
     (if mode \<noteq> ByteCheckModeDisabled \<and> \<not> byteCheckModeSupported mode then (cfg, Some ''unsupported byte check mode'')
      else if cfg_frozen cfg then
        (if mode = cfg_mode cfg then (cfg, None)
         else (cfg, Some ''byte check mode is locked after KCP initialization''))
      else (cfg\<lparr>cfg_mode := mode, cfg_enable := (mode \<noteq> ByteCheckModeDisabled)\<rparr>, None))"

text \<open>\<^verbatim>\<open>crc32.ChecksumIEEE\<close>: the reflected polynomial, one bit at a time.\<close>

definition crc32_bit :: "u32 \<Rightarrow> u32" where
  "crc32_bit c = (if c AND 1 = 1 then drop_bit 1 c XOR 0xEDB88320 else drop_bit 1 c)"

definition crc32_byte :: "u32 \<Rightarrow> u8 \<Rightarrow> u32" where
  "crc32_byte c b = (crc32_bit ^^ 8) (c XOR ucast b)"

definition ChecksumIEEE :: "bytes \<Rightarrow> u32" where
  "ChecksumIEEE data = NOT (foldl crc32_byte (NOT 0) data)"

definition byte_check_hash :: "kcp_config \<Rightarrow> bytes \<Rightarrow> u32 option" where
  "byte_check_hash cfg data =
     (if cfg_mode cfg = ByteCheckModeZero then Some 0
      else if cfg_mode cfg = ByteCheckModeCRC32 then Some (ChecksumIEEE data)
      else if cfg_mode cfg = ByteCheckModeXXH3 then map_option ucast (GetHashCodeXXH3 data)
      else Some 0)"

subsection \<open>The state of a connection\<close>

record ackItem =
  ack_sn :: u32
  ack_ts :: u32

text \<open>The counters of \<^verbatim>\<open>DefaultSnmp\<close> that this file adds to.\<close>

record Snmp =
  InSegs :: u64
  OutSegs :: u64
  RetransSegs :: u64
  FastRetransSegs :: u64
  EarlyRetransSegs :: u64
  LostSegs :: u64
  RepeatSegs :: u64

record KCP =
  k_conv :: u64
  k_mtu :: u32
  k_mss :: u32
  k_state :: u32
  k_snd_una :: u32
  k_snd_nxt :: u32
  k_rcv_nxt :: u32
  k_ssthresh :: u32
  k_rx_rttvar :: u32
  k_rx_srtt :: u32
  k_rx_rto :: u32
  k_rx_minrto :: u32
  k_snd_wnd :: u32
  k_rcv_wnd :: u32
  k_rmt_wnd :: u32
  k_cwnd :: u32
  k_probe :: u32
  k_interval :: u32
  k_ts_flush :: u32
  k_nodelay :: u32
  k_updated :: u32
  k_ts_probe :: u32
  k_probe_wait :: u32
  k_dead_link :: u32
  k_incr :: u32
  k_fastresend :: u32
  k_nocwnd :: u32
  k_stream :: u32
  k_snd_queue :: "segment ringBuffer"
  k_rcv_queue :: "segment ringBuffer"
  k_snd_buf :: "segment ringBuffer"
  k_rcv_buf :: segmentHeap
  k_acklist :: "ackItem list"
  k_buffer :: bytes
  k_reserved :: nat
  k_out :: "bytes list"
  k_reads :: nat
  k_stat :: Snmp

definition NewKCP :: "kcp_config \<Rightarrow> u64 \<Rightarrow> KCP \<times> kcp_config" where
  "NewKCP cfg conv =
     (\<lparr>k_conv = conv, k_mtu = IKCP_MTU_DEF, k_mss = IKCP_MTU_DEF - of_nat (IKCP_OVERHEAD cfg), k_state = 0, k_snd_una = 0,
       k_snd_nxt = 0, k_rcv_nxt = 0, k_ssthresh = IKCP_THRESH_INIT, k_rx_rttvar = 0, k_rx_srtt = 0, k_rx_rto = IKCP_RTO_DEF,
       k_rx_minrto = IKCP_RTO_MIN, k_snd_wnd = IKCP_WND_SND, k_rcv_wnd = IKCP_WND_RCV, k_rmt_wnd = IKCP_WND_RCV, k_cwnd = 0,
       k_probe = 0, k_interval = IKCP_INTERVAL, k_ts_flush = IKCP_INTERVAL, k_nodelay = 0, k_updated = 0, k_ts_probe = 0,
       k_probe_wait = 0, k_dead_link = IKCP_DEADLINK, k_incr = 0, k_fastresend = 0, k_nocwnd = 0, k_stream = 0,
       k_snd_queue = newRingBuffer zero_seg (unat IKCP_WND_SND * 2), k_rcv_queue = newRingBuffer zero_seg (unat IKCP_WND_RCV * 2),
       k_snd_buf = newRingBuffer zero_seg (unat IKCP_WND_SND * 2), k_rcv_buf = newSegmentHeap, k_acklist = [],
       k_buffer = replicate (unat IKCP_MTU_DEF) 0, k_reserved = 0, k_out = [], k_reads = 0,
       k_stat = \<lparr>InSegs = 0, OutSegs = 0, RetransSegs = 0, FastRetransSegs = 0, EarlyRetransSegs = 0, LostSegs = 0,
         RepeatSegs = 0\<rparr>\<rparr>,
      cfg\<lparr>cfg_frozen := True\<rparr>)"

definition currentMs :: "(nat \<Rightarrow> u32) \<Rightarrow> KCP \<Rightarrow> u32 \<times> KCP" where
  "currentMs clk k = (clk (k_reads k), k\<lparr>k_reads := k_reads k + 1\<rparr>)"

definition stat :: "(Snmp \<Rightarrow> Snmp) \<Rightarrow> KCP \<Rightarrow> KCP" where
  "stat f k = k\<lparr>k_stat := f (k_stat k)\<rparr>"

subsection \<open>Settings\<close>

definition ReserveBytes :: "kcp_config \<Rightarrow> int \<Rightarrow> KCP \<Rightarrow> KCP \<times> bool" where
  "ReserveBytes cfg n k =
     (let available = uint (k_mtu k) - int (IKCP_OVERHEAD cfg) in
      if n < 0 \<or> n \<ge> available then (k, False)
      else (k\<lparr>k_reserved := nat n, k_mss := k_mtu k - of_nat (IKCP_OVERHEAD cfg) - of_int n\<rparr>, True))"

definition SetMtu :: "kcp_config \<Rightarrow> int \<Rightarrow> KCP \<Rightarrow> KCP \<times> int" where
  "SetMtu cfg mtu k =
     (if mtu \<le> int (IKCP_OVERHEAD cfg) \<or> int (k_reserved k) \<ge> mtu - int (IKCP_OVERHEAD cfg) then (k, -1)
      else (k\<lparr>k_mtu := of_int mtu, k_mss := of_int mtu - of_nat (IKCP_OVERHEAD cfg) - of_nat (k_reserved k),
              k_buffer := replicate (nat mtu) 0\<rparr>, 0))"

definition NoDelay :: "int \<Rightarrow> int \<Rightarrow> int \<Rightarrow> int \<Rightarrow> KCP \<Rightarrow> KCP" where
  "NoDelay nodelay interval resend nc k =
     (let k = (if nodelay \<ge> 0
               then k\<lparr>k_nodelay := of_int nodelay, k_rx_minrto := (if nodelay \<noteq> 0 then IKCP_RTO_NDL else IKCP_RTO_MIN)\<rparr>
               else k);
          k = (if interval \<ge> 0
               then k\<lparr>k_interval := of_int (if interval > 5000 then 5000 else if interval < 10 then 10 else interval)\<rparr>
               else k);
          k = (if resend \<ge> 0 then k\<lparr>k_fastresend := of_int resend\<rparr> else k)
      in if nc \<ge> 0 then k\<lparr>k_nocwnd := of_int nc\<rparr> else k)"

definition WndSize :: "int \<Rightarrow> int \<Rightarrow> KCP \<Rightarrow> KCP" where
  "WndSize sndwnd rcvwnd k =
     (let k = (if sndwnd > 0 then k\<lparr>k_snd_wnd := of_int sndwnd\<rparr> else k)
      in if rcvwnd > 0 then k\<lparr>k_rcv_wnd := of_int rcvwnd\<rparr> else k)"

definition WaitSnd :: "KCP \<Rightarrow> nat" where
  "WaitSnd k = rb_Len (k_snd_buf k) + rb_Len (k_snd_queue k)"

subsection \<open>Reading\<close>

text \<open>The size of the next message; the fragment count is added in 8 bits.\<close>

definition PeekSize :: "KCP \<Rightarrow> int option" where
  "PeekSize k =
     do {
       front \<leftarrow> rb_Peek (k_rcv_queue k);
       case front of
         None \<Rightarrow> Some (-1)
       | Some seg \<Rightarrow>
           if seg_frg seg = 0 then Some (int (length (seg_data seg)))
           else if rb_Len (k_rcv_queue k) < unat (seg_frg seg + 1) then Some (-1)
           else do {
             (_, len) \<leftarrow> rb_ForEach (\<lambda>seg len. Some (seg, len + int (length (seg_data seg)), seg_frg seg \<noteq> 0)) (k_rcv_queue k) 0;
             Some len
           }
     }"

text \<open>Taking the fragments of a message off the queue into a slice with \<open>room\<close> bytes left.\<close>

lemma rb_Pop_shrinks: "rb_Pop z r = Some (r', Some v) \<Longrightarrow> rb_length r' < rb_length r"
  by (auto simp: rb_Pop_def Let_def split: if_splits bind_splits)

function recv_merge :: "nat \<Rightarrow> segment ringBuffer \<Rightarrow> bytes \<Rightarrow> (segment ringBuffer \<times> bytes) option" where
  "recv_merge room q out =
     do {
       (q', v) \<leftarrow> rb_Pop zero_seg q;
       case v of
         None \<Rightarrow> Some (q', out)
       | Some seg \<Rightarrow>
           if room < length (seg_data seg) then None
           else if seg_frg seg = 0 then Some (q', out @ seg_data seg)
           else recv_merge (room - length (seg_data seg)) q' (out @ seg_data seg)
     }"
  by pat_completeness auto
termination
  by (relation "measure (\<lambda>(_, q, _). rb_length q)") (auto dest: rb_Pop_shrinks)

declare recv_merge.simps [simp del]

text \<open>Moving the segments that are next in order from the heap to the queue.\<close>

lemma length_sift_up [simp]: "length (sift_up xs i) = length xs"
  by (induction xs i rule: sift_up.induct) (subst sift_up.simps, simp add: Let_def)

lemma length_sift_down [simp]: "length (sift_down xs i) = length xs"
  by (induction xs i rule: sift_down.induct) (subst sift_down.simps, simp add: Let_def)

lemma sh_Pop_shrinks: "sh_Pop h = (h', Some x) \<Longrightarrow> sh_Len h' < sh_Len h"
  by (auto simp: sh_Pop_def sh_Len_def Let_def split: if_splits)

function move_ready :: "KCP \<Rightarrow> KCP option" where
  "move_ready k =
     (if sh_Len (k_rcv_buf k) > 0 then
        case sh_Pop (k_rcv_buf k) of
          (h, None) \<Rightarrow> None
        | (h, Some seg) \<Rightarrow>
            if seg_sn seg = k_rcv_nxt k \<and> rb_Len (k_rcv_queue k) < unat (k_rcv_wnd k) then
              do {
                q \<leftarrow> rb_Push zero_seg seg (k_rcv_queue k);
                move_ready (k\<lparr>k_rcv_buf := h, k_rcv_queue := q, k_rcv_nxt := k_rcv_nxt k + 1\<rparr>)
              }
            else Some (k\<lparr>k_rcv_buf := sh_Push seg h\<rparr>)
      else Some k)"
  by pat_completeness auto
termination
  by (relation "measure (\<lambda>k. sh_Len (k_rcv_buf k))") (auto dest: sh_Pop_shrinks [OF sym])

declare move_ready.simps [simp del]

text \<open>\<^verbatim>\<open>Recv\<close> into a slice of the given length: the returned number, and the bytes written.\<close>

definition KCP_Recv :: "nat \<Rightarrow> KCP \<Rightarrow> (KCP \<times> int \<times> bytes) option" where
  "KCP_Recv l k =
     do {
       peeksize \<leftarrow> PeekSize k;
       if peeksize < 0 then Some (k, -1, [])
       else if peeksize > int l then Some (k, -2, [])
       else do {
         let fast_recover = (unat (k_rcv_wnd k) \<le> rb_Len (k_rcv_queue k));
         (q, out) \<leftarrow> recv_merge l (k_rcv_queue k) [];
         k \<leftarrow> move_ready (k\<lparr>k_rcv_queue := q\<rparr>);
         let k = (if rb_Len (k_rcv_queue k) < unat (k_rcv_wnd k) \<and> fast_recover
                  then k\<lparr>k_probe := k_probe k OR IKCP_ASK_TELL\<rparr> else k);
         Some (k, int (length out), out)
       }
     }"

subsection \<open>Writing\<close>

text \<open>In stream mode the last queued segment is filled up first. Its slice has the capacity of a
  pooled buffer, or its own length if it is longer; growing it beyond panics.\<close>

definition send_extend :: "bytes \<Rightarrow> KCP \<Rightarrow> (KCP \<times> bytes) option" where
  "send_extend buffer k =
     do {
       l \<leftarrow> rb_Last (k_snd_queue k);
       case l of
         None \<Rightarrow> Some (k, buffer)
       | Some seg \<Rightarrow>
           if length (seg_data seg) < unat (k_mss k) then
             let capacity = unat (k_mss k) - length (seg_data seg);
                 extend = (if length buffer < capacity then length buffer else capacity);
                 oldlen = length (seg_data seg)
             in
             if max mtuLimit oldlen < oldlen + extend then None
             else Some (k\<lparr>k_snd_queue := rb_set_Last (seg\<lparr>seg_data := seg_data seg @ take extend buffer\<rparr>) (k_snd_queue k)\<rparr>,
                        drop extend buffer)
           else Some (k, buffer)
     }"

text \<open>The loop that cuts a message into segments; the argument counts down to the last one.\<close>

fun send_frags :: "nat \<Rightarrow> bool \<Rightarrow> nat \<Rightarrow> bytes \<Rightarrow> segment ringBuffer \<Rightarrow> segment ringBuffer option" where
  "send_frags mss stream 0 buffer q = Some q"
| "send_frags mss stream (Suc n) buffer q =
     do {
       let size = (if length buffer > mss then mss else length buffer);
       q \<leftarrow> rb_Push zero_seg (zero_seg\<lparr>seg_data := take size buffer, seg_frg := (if stream then 0 else of_nat n)\<rparr>) q;
       send_frags mss stream n (drop size buffer) q
     }"

definition KCP_Send :: "bytes \<Rightarrow> KCP \<Rightarrow> (KCP \<times> int) option" where
  "KCP_Send buffer k =
     (if buffer = [] then Some (k, -1)
      else do {
        (k, buffer) \<leftarrow> (if k_stream k \<noteq> 0 then send_extend buffer k else Some (k, buffer));
        if buffer = [] then Some (k, 0)
        else if k_mss k = 0 then None
        else do {
          let count = (length buffer - 1) div unat (k_mss k) + 1;
          if k_stream k = 0 \<and> count > 255 then Some (k, -2)
          else do {
            q \<leftarrow> send_frags (unat (k_mss k)) (k_stream k \<noteq> 0) count buffer (k_snd_queue k);
            Some (k\<lparr>k_snd_queue := q\<rparr>, 0)
          }
        }
      })"

subsection \<open>Acknowledgements\<close>

text \<open>The smoothed round trip in signed 32-bit arithmetic: shifts are arithmetic.\<close>

definition update_ack :: "u32 \<Rightarrow> KCP \<Rightarrow> KCP" where
  "update_ack rtt k =
     (let k = (if k_rx_srtt k = 0 then k\<lparr>k_rx_srtt := rtt, k_rx_rttvar := signed_drop_bit 1 rtt\<rparr>
               else
                 let delta = rtt - k_rx_srtt k;
                     srtt = k_rx_srtt k + signed_drop_bit 3 delta;
                     delta = (if sint delta < 0 then - delta else delta);
                     rttvar = (if sint rtt < sint (srtt - k_rx_rttvar k)
                               then k_rx_rttvar k + signed_drop_bit 5 (delta - k_rx_rttvar k)
                               else k_rx_rttvar k + signed_drop_bit 2 (delta - k_rx_rttvar k))
                 in k\<lparr>k_rx_srtt := srtt, k_rx_rttvar := rttvar\<rparr>);
          rto = k_rx_srtt k + imax (k_interval k) (push_bit 2 (k_rx_rttvar k))
      in k\<lparr>k_rx_rto := ibound (k_rx_minrto k) rto IKCP_RTO_MAX\<rparr>)"

definition shrink_buf :: "KCP \<Rightarrow> KCP option" where
  "shrink_buf k =
     do {
       front \<leftarrow> rb_Peek (k_snd_buf k);
       Some (case front of Some seg \<Rightarrow> k\<lparr>k_snd_una := seg_sn seg\<rparr> | None \<Rightarrow> k\<lparr>k_snd_una := k_snd_nxt k\<rparr>)
     }"

definition ack_visit :: "u32 \<Rightarrow> segment \<Rightarrow> unit \<Rightarrow> (segment \<times> unit \<times> bool) option" where
  "ack_visit sn seg u =
     (if sn = seg_sn seg then Some (seg\<lparr>seg_acked := 1, seg_data := []\<rparr>, (), False)
      else Some (seg, (), \<not> itimediff sn (seg_sn seg) < 0))"

definition parse_ack :: "u32 \<Rightarrow> KCP \<Rightarrow> KCP option" where
  "parse_ack sn k =
     (if itimediff sn (k_snd_una k) < 0 \<or> itimediff sn (k_snd_nxt k) \<ge> 0 then Some k
      else do {
        (b, _) \<leftarrow> rb_ForEach (ack_visit sn) (k_snd_buf k) ();
        Some (k\<lparr>k_snd_buf := b\<rparr>)
      })"

definition fastack_visit :: "u32 \<Rightarrow> u32 \<Rightarrow> u32 \<Rightarrow> segment \<Rightarrow> bool \<Rightarrow> (segment \<times> bool \<times> bool) option" where
  "fastack_visit fastresend sn ts seg should =
     (if itimediff sn (seg_sn seg) < 0 then Some (seg, should, False)
      else if sn \<noteq> seg_sn seg \<and> itimediff (seg_ts seg) ts \<le> 0 \<and> seg_fastack seg \<noteq> NOT 0 then
        Some (seg\<lparr>seg_fastack := seg_fastack seg + 1\<rparr>, should \<or> seg_fastack seg + 1 \<ge> fastresend, True)
      else Some (seg, should, True))"

definition parse_fastack :: "u32 \<Rightarrow> u32 \<Rightarrow> KCP \<Rightarrow> (KCP \<times> bool) option" where
  "parse_fastack sn ts k =
     (if itimediff sn (k_snd_una k) < 0 \<or> itimediff sn (k_snd_nxt k) \<ge> 0 then Some (k, False)
      else do {
        (b, should) \<leftarrow> rb_ForEach (fastack_visit (k_fastresend k) sn ts) (k_snd_buf k) False;
        Some (k\<lparr>k_snd_buf := b\<rparr>, should)
      })"

definition una_visit :: "u32 \<Rightarrow> segment \<Rightarrow> nat \<Rightarrow> (segment \<times> nat \<times> bool) option" where
  "una_visit una seg n =
     (if itimediff una (seg_sn seg) > 0 then Some (seg\<lparr>seg_data := []\<rparr>, n + 1, True) else Some (seg, n, False))"

definition parse_una :: "u32 \<Rightarrow> KCP \<Rightarrow> (KCP \<times> nat) option" where
  "parse_una una k =
     do {
       (b, count) \<leftarrow> rb_ForEach (una_visit una) (k_snd_buf k) 0;
       (b, _) \<leftarrow> rb_Discard zero_seg (int count) b;
       Some (k\<lparr>k_snd_buf := b\<rparr>, count)
     }"

definition ack_push :: "u32 \<Rightarrow> u32 \<Rightarrow> KCP \<Rightarrow> KCP" where
  "ack_push sn ts k = k\<lparr>k_acklist := k_acklist k @ [\<lparr>ack_sn = sn, ack_ts = ts\<rparr>]\<rparr>"

definition parse_data :: "segment \<Rightarrow> KCP \<Rightarrow> (KCP \<times> bool) option" where
  "parse_data newseg k =
     (let sn = seg_sn newseg in
      if itimediff sn (k_rcv_nxt k + k_rcv_wnd k) \<ge> 0 \<or> itimediff sn (k_rcv_nxt k) < 0 then Some (k, True)
      else do {
        let repeat = sh_Has sn (k_rcv_buf k);
        k \<leftarrow> move_ready (if repeat then k else k\<lparr>k_rcv_buf := sh_Push newseg (k_rcv_buf k)\<rparr>);
        Some (k, repeat)
      })"

definition wnd_unused :: "KCP \<Rightarrow> u16" where
  "wnd_unused k =
     (if rb_Len (k_rcv_queue k) < unat (k_rcv_wnd k) then of_nat (unat (k_rcv_wnd k) - rb_Len (k_rcv_queue k)) else 0)"

subsection \<open>Sending\<close>

text \<open>The header of a segment on the wire.\<close>

definition seg_header :: "kcp_config \<Rightarrow> segment \<Rightarrow> bytes option" where
  "seg_header cfg seg =
     do {
       let base = le64 (seg_conv seg) @ [seg_cmd seg, seg_frg seg] @ le16 (seg_wnd seg) @ le32 (seg_ts seg) @
         le32 (seg_sn seg) @ le32 (seg_una seg) @ le32 (of_nat (length (seg_data seg)));
       if \<not> cfg_enable cfg then Some base
       else if seg_cmd seg = IKCP_CMD_PUSH then do { h \<leftarrow> byte_check_hash cfg (seg_data seg); Some (base @ le32 h) }
       else Some (base @ le32 0)
     }"

text \<open>\<^verbatim>\<open>encode\<close> at a position of the output buffer, with the position behind the header.\<close>

definition encode :: "kcp_config \<Rightarrow> segment \<Rightarrow> KCP \<times> nat \<Rightarrow> (KCP \<times> nat) option" where
  "encode cfg seg =
     (\<lambda>(k, off).
        if length (k_buffer k) < off + IKCP_OVERHEAD cfg then None
        else do {
          h \<leftarrow> seg_header cfg seg;
          Some (stat (\<lambda>s. s\<lparr>OutSegs := OutSegs s + 1\<rparr>) (k\<lparr>k_buffer := go_copy (k_buffer k) off h\<rparr>), off + IKCP_OVERHEAD cfg)
        })"

text \<open>Handing the first bytes of the buffer to the output callback.\<close>

definition kcp_output :: "nat \<Rightarrow> KCP \<Rightarrow> KCP" where
  "kcp_output n k = k\<lparr>k_out := k_out k @ [take n (k_buffer k)]\<rparr>"

definition makeSpace :: "nat \<Rightarrow> KCP \<times> nat \<Rightarrow> (KCP \<times> nat) option" where
  "makeSpace space =
     (\<lambda>(k, off).
        if off + space > unat (k_mtu k) then
          (if length (k_buffer k) < k_reserved k then None else Some (kcp_output off k, k_reserved k))
        else Some (k, off))"

definition flushBuffer :: "KCP \<times> nat \<Rightarrow> KCP" where
  "flushBuffer = (\<lambda>(k, off). if off > k_reserved k then kcp_output off k else k)"

text \<open>The acknowledgements; the segment that carries them keeps the last sequence number and time.\<close>

fun flush_acks :: "kcp_config \<Rightarrow> segment \<Rightarrow> ackItem list \<Rightarrow> KCP \<times> nat \<Rightarrow> (segment \<times> KCP \<times> nat) option" where
  "flush_acks cfg seg [] w = Some (seg, w)"
| "flush_acks cfg seg (a # as) w =
     do {
       w \<leftarrow> makeSpace (IKCP_OVERHEAD cfg) w;
       if itimediff (ack_sn a) (k_rcv_nxt (fst w)) \<ge> 0 \<or> as = [] then
         do {
           let seg = seg\<lparr>seg_sn := ack_sn a, seg_ts := ack_ts a\<rparr>;
           w \<leftarrow> encode cfg seg w;
           flush_acks cfg seg as w
         }
       else flush_acks cfg seg as w
     }"

text \<open>When to ask for the window of the peer.\<close>

definition flush_probe :: "(nat \<Rightarrow> u32) \<Rightarrow> KCP \<Rightarrow> KCP" where
  "flush_probe clk k =
     (if k_rmt_wnd k = 0 then
        let (current, k) = currentMs clk k in
        if k_probe_wait k = 0 then k\<lparr>k_probe_wait := IKCP_PROBE_INIT, k_ts_probe := current + IKCP_PROBE_INIT\<rparr>
        else if itimediff current (k_ts_probe k) \<ge> 0 then
          let w = (if k_probe_wait k < IKCP_PROBE_INIT then IKCP_PROBE_INIT else k_probe_wait k);
              w = w + w div 2;
              w = (if w > IKCP_PROBE_LIMIT then IKCP_PROBE_LIMIT else w)
          in k\<lparr>k_probe_wait := w, k_ts_probe := current + w, k_probe := k_probe k OR IKCP_ASK_SEND\<rparr>
        else k
      else k\<lparr>k_ts_probe := 0, k_probe_wait := 0\<rparr>)"

definition flush_cmd :: "kcp_config \<Rightarrow> u32 \<Rightarrow> u8 \<Rightarrow> segment \<times> KCP \<times> nat \<Rightarrow> (segment \<times> KCP \<times> nat) option" where
  "flush_cmd cfg ask cmd =
     (\<lambda>(seg, w).
        if k_probe (fst w) AND ask \<noteq> 0 then
          do {
            let seg = seg\<lparr>seg_cmd := cmd\<rparr>;
            w \<leftarrow> makeSpace (IKCP_OVERHEAD cfg) w;
            w \<leftarrow> encode cfg seg w;
            Some (seg, w)
          }
        else Some (seg, w))"

definition flush_limit :: "KCP \<Rightarrow> u32" where
  "flush_limit k =
     (let cwnd = imin (k_snd_wnd k) (k_rmt_wnd k) in
      if k_nocwnd k = 0 then imin (k_cwnd k) cwnd else cwnd)"

definition flush_resent :: "KCP \<Rightarrow> u32" where
  "flush_resent k = (if sint (k_fastresend k) \<le> 0 then 0xffffffff else k_fastresend k)"

text \<open>The sliding window: queued segments get their sequence numbers.\<close>

function flush_window :: "u32 \<Rightarrow> KCP \<Rightarrow> nat \<Rightarrow> (KCP \<times> nat) option" where
  "flush_window cwnd k newSegsCount =
     (if itimediff (k_snd_nxt k) (k_snd_una k + cwnd) \<ge> 0 then Some (k, newSegsCount)
      else do {
        (q, v) \<leftarrow> rb_Pop zero_seg (k_snd_queue k);
        case v of
          None \<Rightarrow> Some (k\<lparr>k_snd_queue := q\<rparr>, newSegsCount)
        | Some newseg \<Rightarrow> do {
            let newseg = newseg\<lparr>seg_conv := k_conv k, seg_cmd := IKCP_CMD_PUSH, seg_sn := k_snd_nxt k\<rparr>;
            b \<leftarrow> rb_Push zero_seg newseg (k_snd_buf k);
            flush_window cwnd (k\<lparr>k_snd_queue := q, k_snd_buf := b, k_snd_nxt := k_snd_nxt k + 1\<rparr>) (newSegsCount + 1)
          }
      })"
  by pat_completeness auto
termination
  by (relation "measure (\<lambda>(_, k, _). rb_length (k_snd_queue k))") (auto dest: rb_Pop_shrinks)

declare flush_window.simps [simp del]

text \<open>The variables of the loop over the sent segments.\<close>

record flush_vars =
  fv_work :: "KCP \<times> nat"
  fv_current :: u32
  fv_change :: u64
  fv_lostSegs :: u64
  fv_fastRetransSegs :: u64
  fv_earlyRetransSegs :: u64
  fv_minrto :: int

text \<open>Whether a segment has to be sent, with its new timers and the counters.\<close>

definition flush_timers :: "u32 \<Rightarrow> nat \<Rightarrow> segment \<Rightarrow> flush_vars \<Rightarrow> segment \<times> flush_vars \<times> bool" where
  "flush_timers resent newSegsCount seg v =
     (let k = fst (fv_work v); current = fv_current v; rto = k_rx_rto k in
      if seg_xmit seg = 0 then (seg\<lparr>seg_rto := rto, seg_resendts := current + rto\<rparr>, v, True)
      else if seg_fastack seg \<ge> resent \<and> seg_fastack seg \<noteq> NOT 0 then
        (seg\<lparr>seg_fastack := NOT 0, seg_rto := rto, seg_resendts := current + rto\<rparr>,
         v\<lparr>fv_change := fv_change v + 1, fv_fastRetransSegs := fv_fastRetransSegs v + 1\<rparr>, True)
      else if seg_fastack seg > 0 \<and> seg_fastack seg \<noteq> NOT 0 \<and> newSegsCount = 0 then
        (seg\<lparr>seg_fastack := NOT 0, seg_rto := rto, seg_resendts := current + rto\<rparr>,
         v\<lparr>fv_change := fv_change v + 1, fv_earlyRetransSegs := fv_earlyRetransSegs v + 1\<rparr>, True)
      else if itimediff current (seg_resendts seg) \<ge> 0 then
        (let r = seg_rto seg + (if k_nodelay k = 0 then rto else rto div 2) in
         (seg\<lparr>seg_rto := r, seg_fastack := 0, seg_resendts := current + r\<rparr>, v\<lparr>fv_lostSegs := fv_lostSegs v + 1\<rparr>, True))
      else (seg, v, False))"

text \<open>Copying the data of a segment behind its header.\<close>

definition put_data :: "bytes \<Rightarrow> KCP \<times> nat \<Rightarrow> (KCP \<times> nat) option" where
  "put_data data =
     (\<lambda>(k, off).
        if length (k_buffer k) < off + length data then None
        else Some (k\<lparr>k_buffer := go_copy (k_buffer k) off data\<rparr>, off + length data))"

definition flush_send :: "kcp_config \<Rightarrow> (nat \<Rightarrow> u32) \<Rightarrow> u16 \<Rightarrow> u32 \<Rightarrow> segment \<Rightarrow> flush_vars \<Rightarrow> (segment \<times> flush_vars) option" where
  "flush_send cfg clk wnd una seg v =
     do {
       let (k, off) = fv_work v;
       let (current, k) = currentMs clk k;
       let seg = seg\<lparr>seg_xmit := seg_xmit seg + 1, seg_ts := current, seg_wnd := wnd, seg_una := una\<rparr>;
       w \<leftarrow> makeSpace (IKCP_OVERHEAD cfg + length (seg_data seg)) (k, off);
       w \<leftarrow> encode cfg seg w;
       (k, off) \<leftarrow> put_data (seg_data seg) w;
       let k = (if seg_xmit seg \<ge> k_dead_link k then k\<lparr>k_state := 0xFFFFFFFF\<rparr> else k);
       Some (seg, v\<lparr>fv_work := (k, off), fv_current := current\<rparr>)
     }"

definition flush_visit ::
    "kcp_config \<Rightarrow> (nat \<Rightarrow> u32) \<Rightarrow> u32 \<Rightarrow> nat \<Rightarrow> u16 \<Rightarrow> u32 \<Rightarrow> segment \<Rightarrow> flush_vars \<Rightarrow> (segment \<times> flush_vars \<times> bool) option" where
  "flush_visit cfg clk resent newSegsCount wnd una seg v =
     (if seg_acked seg = 1 then Some (seg, v, True)
      else do {
        let (seg, v, needsend) = flush_timers resent newSegsCount seg v;
        (seg, v) \<leftarrow> (if needsend then flush_send cfg clk wnd una seg v else Some (seg, v));
        let rto = itimediff (seg_resendts seg) (fv_current v);
        Some (seg, (if rto > 0 \<and> rto < fv_minrto v then v\<lparr>fv_minrto := rto\<rparr> else v), True)
      })"

definition flush_stats :: "flush_vars \<Rightarrow> KCP \<Rightarrow> KCP" where
  "flush_stats v =
     stat (\<lambda>s. s\<lparr>LostSegs := LostSegs s + fv_lostSegs v, FastRetransSegs := FastRetransSegs s + fv_fastRetransSegs v,
       EarlyRetransSegs := EarlyRetransSegs s + fv_earlyRetransSegs v,
       RetransSegs := RetransSegs s + (fv_lostSegs v + fv_fastRetransSegs v + fv_earlyRetransSegs v)\<rparr>)"

definition flush_cwnd :: "u32 \<Rightarrow> u32 \<Rightarrow> flush_vars \<Rightarrow> KCP \<Rightarrow> KCP" where
  "flush_cwnd cwnd resent v k =
     (if k_nocwnd k \<noteq> 0 then k
      else
        let at_least = (\<lambda>t. if t < IKCP_THRESH_MIN then IKCP_THRESH_MIN else t);
            k = (if fv_change v > 0 then
                   let t = at_least ((k_snd_nxt k - k_snd_una k) div 2)
                   in k\<lparr>k_ssthresh := t, k_cwnd := t + resent, k_incr := (t + resent) * k_mss k\<rparr>
                 else k);
            k = (if fv_lostSegs v > 0 then k\<lparr>k_ssthresh := at_least (cwnd div 2), k_cwnd := 1, k_incr := k_mss k\<rparr> else k)
        in if k_cwnd k < 1 then k\<lparr>k_cwnd := 1, k_incr := k_mss k\<rparr> else k)"

text \<open>The part of \<^verbatim>\<open>flush\<close> behind the acknowledgements.\<close>

definition flush_data :: "kcp_config \<Rightarrow> (nat \<Rightarrow> u32) \<Rightarrow> segment \<times> KCP \<times> nat \<Rightarrow> (KCP \<times> u32) option" where
  "flush_data cfg clk w =
     do {
       let (seg, k, off) = w;
       let k = flush_probe clk k;
       w \<leftarrow> flush_cmd cfg IKCP_ASK_SEND IKCP_CMD_WASK (seg, k, off);
       (seg, k, off) \<leftarrow> flush_cmd cfg IKCP_ASK_TELL IKCP_CMD_WINS w;
       let k = k\<lparr>k_probe := 0\<rparr>;
       let cwnd = flush_limit k;
       (k, newSegsCount) \<leftarrow> flush_window cwnd k 0;
       let resent = flush_resent k;
       let (current, k) = currentMs clk k;
       let v = \<lparr>fv_work = (k, off), fv_current = current, fv_change = 0, fv_lostSegs = 0, fv_fastRetransSegs = 0,
                fv_earlyRetransSegs = 0, fv_minrto = sint (k_interval k)\<rparr>;
       (b, v) \<leftarrow> rb_ForEach (flush_visit cfg clk resent newSegsCount (seg_wnd seg) (seg_una seg)) (k_snd_buf k) v;
       let (k, off) = fv_work v;
       let k = flushBuffer (k\<lparr>k_snd_buf := b\<rparr>, off);
       Some (flush_cwnd cwnd resent v (flush_stats v k), of_int (fv_minrto v))
     }"

definition KCP_flush :: "kcp_config \<Rightarrow> (nat \<Rightarrow> u32) \<Rightarrow> bool \<Rightarrow> KCP \<Rightarrow> (KCP \<times> u32) option" where
  "KCP_flush cfg clk ackOnly k =
     (let seg = zero_seg\<lparr>seg_conv := k_conv k, seg_cmd := IKCP_CMD_ACK, seg_wnd := wnd_unused k, seg_una := k_rcv_nxt k\<rparr> in
      if length (k_buffer k) < k_reserved k then None
      else do {
        (seg, k, off) \<leftarrow> flush_acks cfg seg (k_acklist k) (k, k_reserved k);
        let k = k\<lparr>k_acklist := []\<rparr>;
        if ackOnly then Some (flushBuffer (k, off), k_interval k)
        else flush_data cfg clk (seg, k, off)
      })"

subsection \<open>Receiving\<close>

text \<open>The fields of a segment header on the wire, and the rest of the packet.\<close>

record wire_header =
  wh_conv :: u64
  wh_cmd :: u8
  wh_frg :: u8
  wh_wnd :: u16
  wh_ts :: u32
  wh_sn :: u32
  wh_una :: u32
  wh_length :: u32
  wh_hash :: u32

definition parse_header :: "kcp_config \<Rightarrow> bytes \<Rightarrow> wire_header \<times> bytes" where
  "parse_header cfg data =
     (\<lparr>wh_conv = get_le64 data, wh_cmd = data ! 8, wh_frg = data ! 9, wh_wnd = get_le16 (drop 10 data),
       wh_ts = get_le32 (drop 12 data), wh_sn = get_le32 (drop 16 data), wh_una = get_le32 (drop 20 data),
       wh_length = get_le32 (drop 24 data), wh_hash = (if cfg_enable cfg then get_le32 (drop 28 data) else 0)\<rparr>,
      drop (IKCP_OVERHEAD cfg) data)"

text \<open>The variables of the loop over the segments of a packet.\<close>

record input_vars =
  iv_k :: KCP
  iv_latest :: u32
  iv_updateRTT :: bool
  iv_inSegs :: u64
  iv_flush :: bool

definition input_push :: "bool \<Rightarrow> wire_header \<Rightarrow> bytes \<Rightarrow> KCP \<Rightarrow> KCP option" where
  "input_push regular h data k =
     do {
       (k, repeat) \<leftarrow>
         (if itimediff (wh_sn h) (k_rcv_nxt k + k_rcv_wnd k) < 0 then
            (let k = ack_push (wh_sn h) (wh_ts h) k in
             if itimediff (wh_sn h) (k_rcv_nxt k) \<ge> 0 then
               parse_data (zero_seg\<lparr>seg_conv := wh_conv h, seg_cmd := wh_cmd h, seg_frg := wh_frg h, seg_wnd := wh_wnd h,
                 seg_ts := wh_ts h, seg_sn := wh_sn h, seg_una := wh_una h, seg_data := take (unat (wh_length h)) data\<rparr>) k
             else Some (k, True))
          else Some (k, True));
       Some (if regular \<and> repeat then stat (\<lambda>s. s\<lparr>RepeatSegs := RepeatSegs s + 1\<rparr>) k else k)
     }"

definition input_ack :: "wire_header \<Rightarrow> input_vars \<Rightarrow> input_vars option" where
  "input_ack h v =
     do {
       k \<leftarrow> parse_ack (wh_sn h) (iv_k v);
       (k, should) \<leftarrow> parse_fastack (wh_sn h) (wh_ts h) k;
       Some (v\<lparr>iv_k := k, iv_flush := iv_flush v \<or> should, iv_updateRTT := True, iv_latest := wh_ts h\<rparr>)
     }"

text \<open>One segment whose header passed the checks.\<close>

definition input_seg :: "bool \<Rightarrow> wire_header \<Rightarrow> bytes \<Rightarrow> input_vars \<Rightarrow> input_vars option" where
  "input_seg regular h data v =
     do {
       let k = iv_k v;
       let k = (if regular then k\<lparr>k_rmt_wnd := ucast (wh_wnd h)\<rparr> else k);
       (k, n) \<leftarrow> parse_una (wh_una h) k;
       let flush = (iv_flush v \<or> n > 0);
       k \<leftarrow> shrink_buf k;
       let v = v\<lparr>iv_k := k, iv_flush := flush\<rparr>;
       v \<leftarrow> (if wh_cmd h = IKCP_CMD_ACK then input_ack h v
             else if wh_cmd h = IKCP_CMD_PUSH then map_option (\<lambda>k. v\<lparr>iv_k := k\<rparr>) (input_push regular h data k)
             else if wh_cmd h = IKCP_CMD_WASK then Some (v\<lparr>iv_k := k\<lparr>k_probe := k_probe k OR IKCP_ASK_TELL\<rparr>\<rparr>)
             else Some v);
       Some (v\<lparr>iv_inSegs := iv_inSegs v + 1\<rparr>)
     }"

text \<open>The checks of a segment header, with the value \<^verbatim>\<open>Input\<close> returns when one fails.\<close>

definition header_error :: "kcp_config \<Rightarrow> u64 \<Rightarrow> wire_header \<Rightarrow> bytes \<Rightarrow> int option option" where
  "header_error cfg conv h data =
     (if wh_conv h \<noteq> conv then Some (Some (-1))
      else if unat (wh_length h) > length data then Some (Some (-2))
      else if wh_cmd h \<noteq> IKCP_CMD_PUSH \<and> wh_cmd h \<noteq> IKCP_CMD_ACK \<and> wh_cmd h \<noteq> IKCP_CMD_WASK \<and> wh_cmd h \<noteq> IKCP_CMD_WINS
      then Some (Some (-3))
      else if cfg_enable cfg \<and> wh_cmd h = IKCP_CMD_PUSH then
        do {
          x \<leftarrow> byte_check_hash cfg (take (unat (wh_length h)) data);
          Some (if wh_hash h \<noteq> x then Some (-4) else None)
        }
      else Some None)"

function input_loop :: "kcp_config \<Rightarrow> bool \<Rightarrow> bytes \<Rightarrow> input_vars \<Rightarrow> (input_vars \<times> int option) option" where
  "input_loop cfg regular data v =
     (if length data < IKCP_OVERHEAD cfg then Some (v, None)
      else
        let (h, rest) = parse_header cfg data in
        do {
          e \<leftarrow> header_error cfg (k_conv (iv_k v)) h rest;
          case e of
            Some code \<Rightarrow> Some (v, Some code)
          | None \<Rightarrow> do {
              v \<leftarrow> input_seg regular h rest v;
              input_loop cfg regular (drop (unat (wh_length h)) rest) v
            }
        })"
  by pat_completeness auto
termination
  by (relation "measure (\<lambda>(_, _, data, _). length data)")
    (auto simp: parse_header_def IKCP_OVERHEAD_def IKCP_BASE_OVERHEAD_def)

declare input_loop.simps [simp del]

definition input_rtt :: "(nat \<Rightarrow> u32) \<Rightarrow> bool \<Rightarrow> input_vars \<Rightarrow> KCP" where
  "input_rtt clk regular v =
     (let k = iv_k v in
      if iv_updateRTT v \<and> regular then
        let (current, k) = currentMs clk k in
        if itimediff current (iv_latest v) \<ge> 0 then update_ack (current - iv_latest v) k else k
      else k)"

text \<open>The congestion window after a packet; \<open>una\<close> is the value of \<^verbatim>\<open>snd_una\<close> before it.\<close>

definition input_cwnd :: "u32 \<Rightarrow> KCP \<Rightarrow> KCP option" where
  "input_cwnd una k =
     (if k_nocwnd k = 0 \<and> itimediff (k_snd_una k) una > 0 \<and> k_cwnd k < k_rmt_wnd k then
        let mss = k_mss k in
        do {
          k \<leftarrow> (if k_cwnd k < k_ssthresh k then Some (k\<lparr>k_cwnd := k_cwnd k + 1, k_incr := k_incr k + mss\<rparr>)
                else
                  let incr = (if k_incr k < mss then mss else k_incr k) in
                  if incr = 0 then None
                  else
                    let incr = incr + ((mss * mss) div incr + mss div 16) in
                    Some (if (k_cwnd k + 1) * mss \<le> incr
                          then k\<lparr>k_incr := incr, k_cwnd := (if mss > 0 then (incr + mss - 1) div mss else incr + mss - 1)\<rparr>
                          else k\<lparr>k_incr := incr\<rparr>));
          Some (if k_cwnd k > k_rmt_wnd k then k\<lparr>k_cwnd := k_rmt_wnd k, k_incr := k_rmt_wnd k * mss\<rparr> else k)
        }
      else Some k)"

definition KCP_Input :: "kcp_config \<Rightarrow> (nat \<Rightarrow> u32) \<Rightarrow> bytes \<Rightarrow> bool \<Rightarrow> bool \<Rightarrow> KCP \<Rightarrow> (KCP \<times> int) option" where
  "KCP_Input cfg clk data regular ackNoDelay k =
     (let una = k_snd_una k in
      if length data < IKCP_OVERHEAD cfg then Some (k, -1)
      else do {
        (v, e) \<leftarrow> input_loop cfg regular data
          \<lparr>iv_k = k, iv_latest = 0, iv_updateRTT = False, iv_inSegs = 0, iv_flush = False\<rparr>;
        case e of
          Some code \<Rightarrow> Some (iv_k v, code)
        | None \<Rightarrow> do {
            let k = stat (\<lambda>s. s\<lparr>InSegs := InSegs s + iv_inSegs v\<rparr>) (input_rtt clk regular v);
            k \<leftarrow> input_cwnd una k;
            k \<leftarrow> (if iv_flush v then map_option fst (KCP_flush cfg clk False k)
                  else if length (k_acklist k) \<ge> unat (k_mtu k div of_nat (IKCP_OVERHEAD cfg)) then
                    map_option fst (KCP_flush cfg clk True k)
                  else if ackNoDelay \<and> k_acklist k \<noteq> [] then map_option fst (KCP_flush cfg clk True k)
                  else Some k);
            Some (k, 0)
          }
      })"

subsection \<open>Scheduling and release\<close>

text \<open>Whether it is time to flush, with the time of the next flush.\<close>

definition update_schedule :: "u32 \<Rightarrow> KCP \<Rightarrow> KCP \<times> bool" where
  "update_schedule current k =
     (let k = (if k_updated k = 0 then k\<lparr>k_updated := 1, k_ts_flush := current\<rparr> else k);
          slap = itimediff current (k_ts_flush k);
          reset = (slap \<ge> 10000 \<or> slap < -10000);
          k = (if reset then k\<lparr>k_ts_flush := current\<rparr> else k);
          slap = (if reset then 0 else slap)
      in
      if slap \<ge> 0 then
        let ts = k_ts_flush k + k_interval k;
            ts = (if itimediff current ts \<ge> 0 then current + k_interval k else ts)
        in (k\<lparr>k_ts_flush := ts\<rparr>, True)
      else (k, False))"

definition Update :: "kcp_config \<Rightarrow> (nat \<Rightarrow> u32) \<Rightarrow> KCP \<Rightarrow> KCP option" where
  "Update cfg clk k =
     (let (current, k) = currentMs clk k;
          (k, due) = update_schedule current k
      in if due then map_option fst (KCP_flush cfg clk False k) else Some k)"

definition check_visit :: "u32 \<Rightarrow> segment \<Rightarrow> int \<times> bool \<Rightarrow> (segment \<times> (int \<times> bool) \<times> bool) option" where
  "check_visit current seg =
     (\<lambda>(tm, ready).
        let diff = itimediff (seg_resendts seg) current in
        if diff \<le> 0 then Some (seg, (tm, True), False)
        else Some (seg, ((if diff < tm then diff else tm), ready), True))"

definition Check :: "(nat \<Rightarrow> u32) \<Rightarrow> KCP \<Rightarrow> (KCP \<times> u32) option" where
  "Check clk k =
     (let (current, k) = currentMs clk k in
      if k_updated k = 0 then Some (k, current)
      else
        let d = itimediff current (k_ts_flush k);
            ts_flush = (if d \<ge> 10000 \<or> d < -10000 then current else k_ts_flush k)
        in
        if itimediff current ts_flush \<ge> 0 then Some (k, current)
        else do {
          let tm_flush = itimediff ts_flush current;
          (b, tm_packet, ready) \<leftarrow> rb_ForEach (check_visit current) (k_snd_buf k) (0x7fffffff, False);
          if ready then Some (k, current)
          else
            let minimal = (of_int (if tm_packet \<ge> tm_flush then tm_flush else tm_packet) :: u32);
                minimal = (if minimal \<ge> k_interval k then k_interval k else minimal)
            in Some (k, current + minimal)
        })"

definition ReleaseTX :: "KCP \<Rightarrow> KCP option" where
  "ReleaseTX k =
     do {
       let free = (\<lambda>seg u. Some (seg\<lparr>seg_data := []\<rparr>, (), True));
       (q, _) \<leftarrow> rb_ForEach free (k_snd_queue k) ();
       (b, _) \<leftarrow> rb_ForEach free (k_snd_buf k) ();
       q \<leftarrow> rb_Clear zero_seg q;
       b \<leftarrow> rb_Clear zero_seg b;
       Some (k\<lparr>k_snd_queue := q, k_snd_buf := b\<rparr>)
     }"

function drain_heap :: "segmentHeap \<Rightarrow> segmentHeap" where
  "drain_heap h =
     (if sh_Len h > 0 then case sh_Pop h of (h', None) \<Rightarrow> h' | (h', Some seg) \<Rightarrow> drain_heap h' else h)"
  by pat_completeness auto
termination
  by (relation "measure sh_Len") (auto dest: sh_Pop_shrinks [OF sym])

declare drain_heap.simps [simp del]

definition KCP_release :: "KCP \<Rightarrow> KCP option" where
  "KCP_release k =
     do {
       k \<leftarrow> ReleaseTX k;
       (q, _) \<leftarrow> rb_ForEach (\<lambda>seg u. Some (seg\<lparr>seg_data := []\<rparr>, (), True)) (k_rcv_queue k) ();
       q \<leftarrow> rb_Clear zero_seg q;
       Some (k\<lparr>k_rcv_queue := q, k_rcv_buf := drain_heap (k_rcv_buf k)\<rparr>)
     }"

end
