(* ===== verification/Kcp_Inv.thy ===== *)
theory Kcp_Inv
  imports Kcp
begin

text \<open>
  The invariant of a KCP connection: its queues, heap and output buffer are well-formed, so
  that no operation panics, and every packet it hands to the output callback is a sequence of
  encoded segments whose data segments carry what was sent under their sequence number.
  The ghost argument \<open>S\<close> is the list of the fragment number and the data of all segments that
  have got a sequence number; the position in the list is the sequence number.
\<close>

subsection \<open>Segments on the wire\<close>

type_synonym payload = "u8 \<times> bytes"

definition pay :: "segment \<Rightarrow> payload" where
  "pay s = (seg_frg s, seg_data s)"

lemma byte_check_hash_total: "\<exists>h. byte_check_hash cfg data = Some h"
proof -
  obtain h where "GetHashCodeXXH3 data = Some h"
    unfolding GetHashCodeXXH3_def xxh3HashCode_def
    using hashSmall_inside hashMedium_inside hashLarge_inside hashLong_inside by (metis linorder_not_less)
  then show ?thesis
    by (simp add: byte_check_hash_def)
qed

lemma overhead_pos: "0 < IKCP_OVERHEAD cfg"
  by (simp add: IKCP_OVERHEAD_def IKCP_BASE_OVERHEAD_def)

lemma seg_header_total: "\<exists>h. seg_header cfg s = Some h \<and> length h = IKCP_OVERHEAD cfg"
  using byte_check_hash_total [of cfg "seg_data s"]
  by (auto simp: seg_header_def Let_def IKCP_OVERHEAD_def IKCP_BASE_OVERHEAD_def IKCP_BYTE_CHECK_OVERHEAD_def)

definition hdr :: "kcp_config \<Rightarrow> segment \<Rightarrow> bytes" where
  "hdr cfg s = the (seg_header cfg s)"

lemma seg_header_hdr: "seg_header cfg s = Some (hdr cfg s)" "length (hdr cfg s) = IKCP_OVERHEAD cfg"
  using seg_header_total [of cfg s] by (auto simp: hdr_def)

definition seg_bytes :: "kcp_config \<Rightarrow> segment \<Rightarrow> bytes" where
  "seg_bytes cfg s = hdr cfg s @ seg_data s"

lemma length_seg_bytes [simp]: "length (seg_bytes cfg s) = IKCP_OVERHEAD cfg + length (seg_data s)"
  by (simp add: seg_bytes_def seg_header_hdr)

text \<open>A data segment that carries what was sent under its number, and a segment as it may be
  put on the wire.\<close>

definition pushed :: "u64 \<Rightarrow> payload list \<Rightarrow> segment \<Rightarrow> bool" where
  "pushed conv S s \<longleftrightarrow> seg_conv s = conv \<and> seg_cmd s = IKCP_CMD_PUSH \<and> length (seg_data s) \<le> mtuLimit \<and>
     (\<exists>i < length S. seg_sn s = of_nat i \<and> S ! i = pay s)"

definition wire_ok :: "u64 \<Rightarrow> payload list \<Rightarrow> segment \<Rightarrow> bool" where
  "wire_ok conv S s \<longleftrightarrow> pushed conv S s \<or>
     seg_conv s = conv \<and> seg_cmd s \<in> {IKCP_CMD_ACK, IKCP_CMD_WASK, IKCP_CMD_WINS} \<and> seg_data s = []"

definition sound :: "kcp_config \<Rightarrow> u64 \<Rightarrow> payload list \<Rightarrow> bytes \<Rightarrow> bool" where
  "sound cfg conv S p \<longleftrightarrow> (\<exists>segs. p = concat (map (seg_bytes cfg) segs) \<and> (\<forall>s \<in> set segs. wire_ok conv S s))"

lemma pushed_mono: "pushed conv S s \<Longrightarrow> pushed conv (S @ T) s"
  unfolding pushed_def by (metis length_append nth_append trans_less_add1)

lemma wire_ok_mono: "wire_ok conv S s \<Longrightarrow> wire_ok conv (S @ T) s"
  using pushed_mono by (auto simp: wire_ok_def)

lemma sound_mono: "sound cfg conv S p \<Longrightarrow> sound cfg conv (S @ T) p"
  unfolding sound_def using wire_ok_mono [of conv S _ T] by blast

lemma sound_Nil [simp]: "sound cfg conv S []"
  by (auto simp: sound_def intro: exI [of _ "[]"])

lemma sound_snoc: "sound cfg conv S p \<Longrightarrow> wire_ok conv S s \<Longrightarrow> sound cfg conv S (p @ seg_bytes cfg s)"
proof -
  assume "sound cfg conv S p" and s: "wire_ok conv S s"
  then obtain segs where "p = concat (map (seg_bytes cfg) segs)" "\<forall>s \<in> set segs. wire_ok conv S s"
    by (auto simp: sound_def)
  then show ?thesis
    unfolding sound_def using s by (intro exI [of _ "segs @ [s]"]) auto
qed

subsection \<open>The invariant\<close>

text \<open>The parts of the state that belong to the settings, to receiving, and to sending.\<close>

definition settings :: "KCP \<Rightarrow> u64 \<times> u32 \<times> u32 \<times> nat \<times> u32" where
  "settings k = (k_conv k, k_mtu k, k_mss k, k_reserved k, k_stream k)"

definition rside :: "KCP \<Rightarrow> u32 \<times> segment ringBuffer \<times> segmentHeap" where
  "rside k = (k_rcv_nxt k, k_rcv_queue k, k_rcv_buf k)"

definition sside :: "KCP \<Rightarrow> u32 \<times> segment ringBuffer \<times> segment ringBuffer" where
  "sside k = (k_snd_nxt k, k_snd_queue k, k_snd_buf k)"

lemmas parts = settings_def rside_def sside_def

definition buffer_ok :: "kcp_config \<Rightarrow> KCP \<Rightarrow> bool" where
  "buffer_ok cfg k \<longleftrightarrow> length (k_buffer k) = unat (k_mtu k) \<and>
     k_reserved k + IKCP_OVERHEAD cfg + unat (k_mss k) = unat (k_mtu k) \<and> 0 < unat (k_mss k) \<and> unat (k_mss k) \<le> mtuLimit"

definition snd_ok :: "payload list \<Rightarrow> KCP \<Rightarrow> bool" where
  "snd_ok S k \<longleftrightarrow> rb_wf (k_snd_queue k) \<and> rb_wf (k_snd_buf k) \<and> k_snd_nxt k = of_nat (length S) \<and>
     (\<forall>s \<in> set (rb_abs (k_snd_queue k)). length (seg_data s) \<le> unat (k_mss k) \<and> seg_acked s = 0) \<and>
     (\<forall>s \<in> set (rb_abs (k_snd_buf k)). length (seg_data s) \<le> unat (k_mss k) \<and> (seg_acked s = 1 \<or> pushed (k_conv k) S s))"

definition rcv_wf :: "KCP \<Rightarrow> bool" where
  "rcv_wf k \<longleftrightarrow> rb_wf (k_rcv_queue k) \<and> sh_wf (k_rcv_nxt k) (k_rcv_buf k)"

definition out_ok :: "kcp_config \<Rightarrow> payload list \<Rightarrow> KCP \<Rightarrow> bool" where
  "out_ok cfg S k \<longleftrightarrow> (\<forall>p \<in> set (k_out k). length p \<le> unat (k_mtu k) \<and> sound cfg (k_conv k) S (drop (k_reserved k) p))"

definition kinv :: "kcp_config \<Rightarrow> payload list \<Rightarrow> KCP \<Rightarrow> bool" where
  "kinv cfg S k \<longleftrightarrow> buffer_ok cfg k \<and> snd_ok S k \<and> rcv_wf k \<and> out_ok cfg S k"

lemmas kinv_defs = kinv_def buffer_ok_def snd_ok_def rcv_wf_def out_ok_def

text \<open>The output buffer while \<^verbatim>\<open>flush\<close> fills it: the bytes behind the reserved ones are encoded segments.\<close>

definition work_ok :: "kcp_config \<Rightarrow> payload list \<Rightarrow> KCP \<times> nat \<Rightarrow> bool" where
  "work_ok cfg S = (\<lambda>(k, off). buffer_ok cfg k \<and> out_ok cfg S k \<and> k_reserved k \<le> off \<and> off \<le> length (k_buffer k) \<and>
     sound cfg (k_conv k) S (go_slice (k_buffer k) (k_reserved k) off))"

lemma kcp_output_ok:
  assumes "work_ok cfg S (k, off)"
  shows "work_ok cfg S (kcp_output off k, k_reserved k)" "out_ok cfg S (kcp_output off k)"
proof -
  have "drop (k_reserved k) (take off (k_buffer k)) = go_slice (k_buffer k) (k_reserved k) off"
    by (simp add: go_slice_def drop_take)
  then have "sound cfg (k_conv k) S (drop (k_reserved k) (take off (k_buffer k)))"
    using assms by (simp add: work_ok_def)
  then show "out_ok cfg S (kcp_output off k)"
    using assms by (auto simp: work_ok_def out_ok_def buffer_ok_def kcp_output_def)
  then show "work_ok cfg S (kcp_output off k, k_reserved k)"
    using assms by (auto simp: work_ok_def buffer_ok_def kcp_output_def go_slice_def)
qed

lemma makeSpace_ok:
  assumes "work_ok cfg S (k, off)" "k_reserved k + n \<le> unat (k_mtu k)"
  shows "\<exists>o' off'. makeSpace n (k, off) = Some (k\<lparr>k_out := o'\<rparr>, off') \<and> work_ok cfg S (k\<lparr>k_out := o'\<rparr>, off') \<and>
    off' + n \<le> length (k_buffer k)"
proof (cases "off + n > unat (k_mtu k)")
  case True
  have "k_reserved k \<le> length (k_buffer k)" "length (k_buffer k) = unat (k_mtu k)"
    using assms(1) by (auto simp: work_ok_def buffer_ok_def)
  then have "makeSpace n (k, off) = Some (kcp_output off k, k_reserved k)"
    using True by (simp add: makeSpace_def)
  then show ?thesis
    using kcp_output_ok(1) [OF assms(1)] assms(2) \<open>length (k_buffer k) = _\<close> unfolding kcp_output_def by fastforce
next
  case False
  then have "makeSpace n (k, off) = Some (k\<lparr>k_out := k_out k\<rparr>, off)"
    by (simp add: makeSpace_def)
  moreover have "off + n \<le> length (k_buffer k)"
    using False assms(1) by (simp add: work_ok_def buffer_ok_def)
  ultimately show ?thesis
    using assms(1) by (intro exI [of _ "k_out k"] exI [of _ off]) simp
qed

text \<open>Appending one segment.\<close>

lemma go_slice_snoc:
  assumes "i \<le> j" "j \<le> length b"
  shows "go_slice (take j b @ x @ r) i (j + length x) = go_slice b i j @ x"
proof -
  have "j + length x - i = (j - i) + length x" "length (drop i (take j b)) = j - i"
    using assms by simp_all
  then show ?thesis
    using assms by (simp add: go_slice_def drop_take)
qed

lemma put_segment_ok:
  assumes "work_ok cfg S (k, off)" "off + length (seg_bytes cfg s) \<le> length (k_buffer k)" "wire_ok (k_conv k) S s"
  shows "\<exists>b t. (encode cfg s (k, off) \<bind> put_data (seg_data s)) =
      Some (k\<lparr>k_buffer := b, k_stat := t\<rparr>, off + length (seg_bytes cfg s)) \<and>
    work_ok cfg S (k\<lparr>k_buffer := b, k_stat := t\<rparr>, off + length (seg_bytes cfg s))"
proof -
  let ?b = "go_copy (go_copy (k_buffer k) off (hdr cfg s)) (off + IKCP_OVERHEAD cfg) (seg_data s)"
  have l: "off + IKCP_OVERHEAD cfg + length (seg_data s) \<le> length (k_buffer k)"
    using assms(2) by simp
  have b: "?b = take off (k_buffer k) @ seg_bytes cfg s @ drop (off + length (seg_bytes cfg s)) (k_buffer k)"
    using l overhead_pos [of cfg] by (auto simp: go_copy_def seg_header_hdr seg_bytes_def min_def ac_simps)
  then have lb: "length ?b = length (k_buffer k)"
    using l by simp
  have "\<exists>t. (encode cfg s (k, off) \<bind> put_data (seg_data s)) = Some (k\<lparr>k_buffer := ?b, k_stat := t\<rparr>, off + length (seg_bytes cfg s))"
    using l by (intro exI [of _ "(k_stat k)\<lparr>OutSegs := OutSegs (k_stat k) + 1\<rparr>"])
      (auto simp: encode_def put_data_def seg_header_hdr stat_def intro: KCP.equality)
  moreover have "go_slice ?b (k_reserved k) (off + length (seg_bytes cfg s)) =
      go_slice (k_buffer k) (k_reserved k) off @ seg_bytes cfg s"
    using assms(1) unfolding b work_ok_def by (intro go_slice_snoc) auto
  then have "work_ok cfg S (k\<lparr>k_buffer := ?b, k_stat := t\<rparr>, off + length (seg_bytes cfg s))" for t
    using assms(1,2,3) lb by (auto simp: work_ok_def buffer_ok_def out_ok_def intro: sound_snoc)
  ultimately show ?thesis
    by blast
qed

subsection \<open>Flushing\<close>

text \<open>A control segment has no data: encoding it appends it.\<close>

lemma encode_control_ok:
  assumes "work_ok cfg S (k, off)" "off + IKCP_OVERHEAD cfg \<le> length (k_buffer k)"
    and "seg_conv s = k_conv k" "seg_cmd s \<in> {IKCP_CMD_ACK, IKCP_CMD_WASK, IKCP_CMD_WINS}" "seg_data s = []"
  shows "\<exists>b t. encode cfg s (k, off) = Some (k\<lparr>k_buffer := b, k_stat := t\<rparr>, off + IKCP_OVERHEAD cfg) \<and>
    work_ok cfg S (k\<lparr>k_buffer := b, k_stat := t\<rparr>, off + IKCP_OVERHEAD cfg)"
proof -
  have "wire_ok (k_conv k) S s"
    using assms(3-5) by (simp add: wire_ok_def)
  then obtain b t where bt: "(encode cfg s (k, off) \<bind> put_data []) = Some (k\<lparr>k_buffer := b, k_stat := t\<rparr>, off + IKCP_OVERHEAD cfg)"
    "work_ok cfg S (k\<lparr>k_buffer := b, k_stat := t\<rparr>, off + IKCP_OVERHEAD cfg)"
    using put_segment_ok [OF assms(1), of s] assms(2,5) by auto
  then obtain k1 off1 where e: "encode cfg s (k, off) = Some (k1, off1)"
    by (cases "encode cfg s (k, off)") auto
  then have "put_data [] (k1, off1) = Some (k1, off1)"
    using bt(1) by (auto simp: put_data_def go_copy_def split: if_splits)
  then show ?thesis
    using bt e by auto
qed

text \<open>What writing control segments may change.\<close>

definition same_but_output :: "KCP \<Rightarrow> KCP \<Rightarrow> bool" where
  "same_but_output k k' \<longleftrightarrow> (\<exists>b t o'. k' = k\<lparr>k_buffer := b, k_stat := t, k_out := o'\<rparr>)"

lemma same_but_output_trans: "same_but_output k k1 \<Longrightarrow> same_but_output k1 k2 \<Longrightarrow> same_but_output k k2"
  unfolding same_but_output_def by (elim exE) (auto intro!: exI)

lemma control_segment_ok:
  assumes "work_ok cfg S (k, off)" "seg_conv s = k_conv k" "seg_cmd s \<in> {IKCP_CMD_ACK, IKCP_CMD_WASK, IKCP_CMD_WINS}"
    and "seg_data s = []"
  shows "\<exists>k1 off1. makeSpace (IKCP_OVERHEAD cfg) (k, off) = Some (k1, off1) \<and> work_ok cfg S (k1, off1) \<and> same_but_output k k1 \<and>
    (\<exists>k2 off2. encode cfg s (k1, off1) = Some (k2, off2) \<and> work_ok cfg S (k2, off2) \<and> same_but_output k k2)"
proof -
  have "k_reserved k + IKCP_OVERHEAD cfg \<le> unat (k_mtu k)"
    using assms(1) by (auto simp: work_ok_def buffer_ok_def)
  then obtain o' off1 where m: "makeSpace (IKCP_OVERHEAD cfg) (k, off) = Some (k\<lparr>k_out := o'\<rparr>, off1)"
    "work_ok cfg S (k\<lparr>k_out := o'\<rparr>, off1)" "off1 + IKCP_OVERHEAD cfg \<le> length (k_buffer k)"
    using makeSpace_ok [OF assms(1)] by blast
  obtain b t where e: "encode cfg s (k\<lparr>k_out := o'\<rparr>, off1) = Some (k\<lparr>k_out := o', k_buffer := b, k_stat := t\<rparr>, off1 + IKCP_OVERHEAD cfg)"
    "work_ok cfg S (k\<lparr>k_out := o', k_buffer := b, k_stat := t\<rparr>, off1 + IKCP_OVERHEAD cfg)"
    using encode_control_ok [OF m(2), of s] m(3) assms(2-4) by auto
  have "same_but_output k (k\<lparr>k_out := o'\<rparr>)" "same_but_output k (k\<lparr>k_out := o', k_buffer := b, k_stat := t\<rparr>)"
    unfolding same_but_output_def by (rule exI [of _ "k_buffer k"], rule exI [of _ "k_stat k"], rule exI [of _ o'], simp)
      (rule exI [of _ b], rule exI [of _ t], rule exI [of _ o'], simp)
  then show ?thesis
    using m e by blast
qed

lemma flush_acks_ok:
  assumes "work_ok cfg S (k, off)" "seg_conv seg = k_conv k" "seg_cmd seg = IKCP_CMD_ACK" "seg_data seg = []"
  shows "\<exists>seg' k' off'. flush_acks cfg seg as (k, off) = Some (seg', k', off') \<and> work_ok cfg S (k', off') \<and> same_but_output k k' \<and>
    seg_conv seg' = k_conv k \<and> seg_data seg' = [] \<and> seg_wnd seg' = seg_wnd seg \<and> seg_una seg' = seg_una seg"
  using assms
proof (induction "as" arbitrary: seg k off)
  case Nil
  then show ?case
    by (auto simp: same_but_output_def intro!: exI [of _ "k_buffer k"] exI [of _ "k_stat k"] exI [of _ "k_out k"])
next
  case (Cons a "as")
  let ?seg = "seg\<lparr>seg_sn := ack_sn a, seg_ts := ack_ts a\<rparr>"
  obtain k1 off1 k2 off2 where s: "makeSpace (IKCP_OVERHEAD cfg) (k, off) = Some (k1, off1)" "work_ok cfg S (k1, off1)"
    "same_but_output k k1" "encode cfg ?seg (k1, off1) = Some (k2, off2)" "work_ok cfg S (k2, off2)" "same_but_output k k2"
    using control_segment_ok [OF Cons.prems(1), of ?seg] Cons.prems by auto
  have c: "k_conv k1 = k_conv k" "k_conv k2 = k_conv k"
    using s(3,6) by (auto simp: same_but_output_def)
  have 1: "\<exists>seg' k' off'. flush_acks cfg seg as (k1, off1) = Some (seg', k', off') \<and> work_ok cfg S (k', off') \<and> same_but_output k1 k' \<and>
      seg_conv seg' = k_conv k1 \<and> seg_data seg' = [] \<and> seg_wnd seg' = seg_wnd seg \<and> seg_una seg' = seg_una seg"
    using Cons.prems c by (intro Cons.IH [OF s(2)]) simp_all
  have 2: "\<exists>seg' k' off'. flush_acks cfg ?seg as (k2, off2) = Some (seg', k', off') \<and> work_ok cfg S (k', off') \<and> same_but_output k2 k' \<and>
      seg_conv seg' = k_conv k2 \<and> seg_data seg' = [] \<and> seg_wnd seg' = seg_wnd ?seg \<and> seg_una seg' = seg_una ?seg"
    using Cons.prems c by (intro Cons.IH [OF s(5)]) simp_all
  show ?case
    using 1 2 s(1,4) c same_but_output_trans [OF s(3)] same_but_output_trans [OF s(6)] by (auto simp: Let_def)
qed

lemma flush_probe_frame:
  "settings (flush_probe clk k) = settings k" "rside (flush_probe clk k) = rside k" "sside (flush_probe clk k) = sside k"
  "k_buffer (flush_probe clk k) = k_buffer k" "k_out (flush_probe clk k) = k_out k"
  by (simp_all add: flush_probe_def currentMs_def Let_def split_beta parts)

lemma work_ok_cong:
  assumes "work_ok cfg S (k, off)" "settings k' = settings k" "k_buffer k' = k_buffer k" "k_out k' = k_out k"
  shows "work_ok cfg S (k', off)"
  using assms by (simp add: work_ok_def buffer_ok_def out_ok_def settings_def)

lemma snd_ok_cong: "snd_ok S k \<Longrightarrow> sside k' = sside k \<Longrightarrow> settings k' = settings k \<Longrightarrow> snd_ok S k'"
  by (simp add: snd_ok_def parts)

lemma rcv_wf_cong: "rcv_wf k \<Longrightarrow> rside k' = rside k \<Longrightarrow> rcv_wf k'"
  by (simp add: rcv_wf_def parts)

lemma same_but_output_parts:
  "same_but_output k k' \<Longrightarrow> settings k' = settings k \<and> rside k' = rside k \<and> sside k' = sside k"
  by (auto simp: same_but_output_def parts)

lemma flush_cmd_ok:
  assumes "work_ok cfg S (k, off)" "seg_conv seg = k_conv k" "seg_data seg = []" "cmd \<in> {IKCP_CMD_WASK, IKCP_CMD_WINS}"
  shows "\<exists>seg' k' off'. flush_cmd cfg ask cmd (seg, k, off) = Some (seg', k', off') \<and> work_ok cfg S (k', off') \<and> same_but_output k k' \<and>
    seg_conv seg' = k_conv k \<and> seg_data seg' = [] \<and> seg_wnd seg' = seg_wnd seg \<and> seg_una seg' = seg_una seg"
proof (cases "k_probe k AND ask \<noteq> 0")
  case True
  obtain k1 off1 k2 off2 where s: "makeSpace (IKCP_OVERHEAD cfg) (k, off) = Some (k1, off1)"
    "encode cfg (seg\<lparr>seg_cmd := cmd\<rparr>) (k1, off1) = Some (k2, off2)" "work_ok cfg S (k2, off2)" "same_but_output k k2"
    using control_segment_ok [OF assms(1), of "seg\<lparr>seg_cmd := cmd\<rparr>"] assms(2-4) by auto
  then show ?thesis
    using True assms(2,3) by (simp add: flush_cmd_def Let_def)
next
  case False
  then show ?thesis
    using assms by (auto simp: flush_cmd_def same_but_output_def
        intro!: exI [of _ "k_buffer k"] exI [of _ "k_stat k"] exI [of _ "k_out k"])
qed

lemma flush_window_ok:
  assumes "snd_ok S k" "unat (k_mss k) \<le> mtuLimit"
  shows "\<exists>k' n T. flush_window cwnd k c = Some (k', n) \<and> snd_ok (S @ T) k' \<and>
    map pay (rb_abs (k_snd_queue k)) = T @ map pay (rb_abs (k_snd_queue k')) \<and>
    settings k' = settings k \<and> rside k' = rside k \<and> k_buffer k' = k_buffer k \<and> k_out k' = k_out k"
  using assms
proof (induction cwnd k c arbitrary: S rule: flush_window.induct)
  case (1 cwnd k c)
  show ?case
  proof (cases "itimediff (k_snd_nxt k) (k_snd_una k + cwnd) \<ge> 0")
    case True
    then show ?thesis
      using "1.prems" by (subst flush_window.simps) (auto intro!: exI [of _ "[]"])
  next
    case False
    obtain q where q: "rb_Pop zero_seg (k_snd_queue k) = Some (q, case rb_abs (k_snd_queue k) of [] \<Rightarrow> None | x # xs \<Rightarrow> Some x)"
      "rb_wf q" "rb_abs q = tl (rb_abs (k_snd_queue k))"
      using rb_Pop_ok [of "k_snd_queue k" zero_seg] "1.prems"(1) by (auto simp: snd_ok_def)
    show ?thesis
    proof (cases "rb_abs (k_snd_queue k)")
      case Nil
      then have "flush_window cwnd k c = Some (k\<lparr>k_snd_queue := q\<rparr>, c)"
        using False q(1) by (subst flush_window.simps) simp
      moreover have "snd_ok S (k\<lparr>k_snd_queue := q\<rparr>)"
        using "1.prems"(1) q Nil by (simp add: snd_ok_def)
      ultimately show ?thesis
        using q(3) Nil by (auto simp: parts intro!: exI [of _ "[]"])
    next
      case (Cons x xs)
      let ?x = "x\<lparr>seg_conv := k_conv k, seg_cmd := IKCP_CMD_PUSH, seg_sn := k_snd_nxt k\<rparr>"
      obtain b where b: "rb_Push zero_seg ?x (k_snd_buf k) = Some b" "rb_wf b" "rb_abs b = rb_abs (k_snd_buf k) @ [?x]"
        using rb_Push_ok [of "k_snd_buf k" zero_seg ?x] "1.prems"(1) by (auto simp: snd_ok_def)
      let ?k = "k\<lparr>k_snd_queue := q, k_snd_buf := b, k_snd_nxt := k_snd_nxt k + 1\<rparr>"
      have x: "length (seg_data x) \<le> unat (k_mss k)" "k_snd_nxt k = of_nat (length S)"
        using "1.prems"(1) Cons by (auto simp: snd_ok_def)
      have "pushed (k_conv k) (S @ [pay x]) ?x"
        using x "1.prems"(2) by (auto simp: pushed_def pay_def intro!: exI [of _ "length S"])
      moreover have "pushed (k_conv k) (S @ [pay x]) s" if "pushed (k_conv k) S s" for s
        using that by (rule pushed_mono)
      ultimately have "snd_ok (S @ [pay x]) ?k"
        using "1.prems"(1) q b Cons x by (fastforce simp: snd_ok_def)
      then have "\<exists>k' n T. flush_window cwnd ?k (c + 1) = Some (k', n) \<and> snd_ok ((S @ [pay x]) @ T) k' \<and>
        map pay (rb_abs (k_snd_queue ?k)) = T @ map pay (rb_abs (k_snd_queue k')) \<and>
        settings k' = settings ?k \<and> rside k' = rside ?k \<and> k_buffer k' = k_buffer ?k \<and> k_out k' = k_out ?k"
        using "1.IH" [OF False q(1) refl _ refl b(1), where S = "S @ [pay x]"] "1.prems"(2) Cons by simp
      then obtain k' n T where ih: "flush_window cwnd ?k (c + 1) = Some (k', n)" "snd_ok ((S @ [pay x]) @ T) k'"
        "map pay (rb_abs q) = T @ map pay (rb_abs (k_snd_queue k'))" "settings k' = settings k" "rside k' = rside k"
        "k_buffer k' = k_buffer k" "k_out k' = k_out k"
        by (auto simp: parts)
      have "flush_window cwnd k c = flush_window cwnd ?k (c + 1)"
        using False q(1) b(1) Cons by (subst flush_window.simps) (simp add: Let_def)
      then show ?thesis
        using ih q(3) Cons by (auto intro!: exI [of _ k'] exI [of _ "pay x # T"])
    qed
  qed
qed

text \<open>A loop over a queue whose body keeps an invariant of its variables and relates each element
  to what it becomes.\<close>

lemma visit_list_inv:
  assumes "\<And>x s. x \<in> set xs \<Longrightarrow> I s \<Longrightarrow> \<exists>y s' go. visit x s = Some (y, s', go) \<and> I s' \<and> R x y"
    and "\<And>x. R x x" "I s"
  shows "\<exists>ys s' go. visit_list visit xs s = Some (ys, s', go) \<and> I s' \<and> list_all2 R xs ys"
  using assms(1,3)
proof (induction xs arbitrary: s)
  case (Cons x xs)
  obtain y s1 go where v: "visit x s = Some (y, s1, go)" "I s1" "R x y"
    using Cons.prems by (meson list.set_intros(1))
  obtain ys s2 go2 where "visit_list visit xs s1 = Some (ys, s2, go2)" "I s2" "list_all2 R xs ys"
    using Cons.IH [OF Cons.prems(1) v(2)] by (meson list.set_intros(2))
  moreover have "list_all2 R xs xs"
    using assms(2) by (simp add: list_all2_refl)
  ultimately show ?case
    using v by (cases go) auto
qed auto

lemma rb_ForEach_inv:
  assumes "rb_wf r" "\<And>x s. x \<in> set (rb_abs r) \<Longrightarrow> I s \<Longrightarrow> \<exists>y s' go. visit x s = Some (y, s', go) \<and> I s' \<and> R x y"
    and "\<And>x. R x x" "I s"
  shows "\<exists>r' s'. rb_ForEach visit r s = Some (r', s') \<and> rb_wf r' \<and> I s' \<and> list_all2 R (rb_abs r) (rb_abs r')"
proof -
  obtain ys s' go where v: "visit_list visit (rb_abs r) s = Some (ys, s', go)" "I s'" "list_all2 R (rb_abs r) ys"
    using visit_list_inv [where I = I and R = R and visit = visit, OF assms(2-4)] by blast
  then show ?thesis
    using rb_ForEach_Some [OF assms(1) v(1)] by auto
qed

text \<open>What \<^verbatim>\<open>flush\<close> changes of a sent segment.\<close>

definition resent_of :: "segment \<Rightarrow> segment \<Rightarrow> bool" where
  "resent_of x y \<longleftrightarrow> pay y = pay x \<and> seg_sn y = seg_sn x \<and> seg_conv y = seg_conv x \<and> seg_cmd y = seg_cmd x \<and> seg_acked y = seg_acked x"

lemma pushed_resent: "resent_of x y \<Longrightarrow> pushed conv S x \<Longrightarrow> pushed conv S y"
  by (auto simp: resent_of_def pushed_def pay_def)

lemma flush_timers_ok:
  assumes "flush_timers resent n seg v = (seg', v', needsend)"
  shows "resent_of seg seg'" "fv_work v' = fv_work v"
  using assms by (auto simp: flush_timers_def resent_of_def pay_def Let_def split: if_splits)

definition flush_inv :: "kcp_config \<Rightarrow> payload list \<Rightarrow> KCP \<Rightarrow> flush_vars \<Rightarrow> bool" where
  "flush_inv cfg S k0 v \<longleftrightarrow> (let (k, off) = fv_work v in
     work_ok cfg S (k, off) \<and> settings k = settings k0 \<and> rside k = rside k0 \<and> sside k = sside k0)"

lemma flush_send_ok:
  assumes "flush_inv cfg S k0 v" "length (seg_data seg) \<le> unat (k_mss k0)" "pushed (k_conv k0) S seg"
  shows "\<exists>seg' v'. flush_send cfg clk wnd una seg v = Some (seg', v') \<and> flush_inv cfg S k0 v' \<and> resent_of seg seg'"
proof -
  obtain k off where w: "fv_work v = (k, off)"
    by (cases "fv_work v")
  let ?k = "k\<lparr>k_reads := k_reads k + 1\<rparr>"
  let ?seg = "seg\<lparr>seg_xmit := seg_xmit seg + 1, seg_ts := clk (k_reads k), seg_wnd := wnd, seg_una := una\<rparr>"
  have i: "work_ok cfg S (k, off)" "settings k = settings k0" "rside k = rside k0" "sside k = sside k0"
    using assms(1) w by (auto simp: flush_inv_def)
  have "work_ok cfg S (?k, off)"
    using i(1) by (rule work_ok_cong) (simp_all add: parts)
  moreover have "k_reserved ?k + (IKCP_OVERHEAD cfg + length (seg_data ?seg)) \<le> unat (k_mtu ?k)"
    using i(1,2) assms(2) by (auto simp: work_ok_def buffer_ok_def settings_def)
  ultimately obtain o' off1 where m: "makeSpace (IKCP_OVERHEAD cfg + length (seg_data ?seg)) (?k, off) = Some (?k\<lparr>k_out := o'\<rparr>, off1)"
    "work_ok cfg S (?k\<lparr>k_out := o'\<rparr>, off1)" "off1 + (IKCP_OVERHEAD cfg + length (seg_data ?seg)) \<le> length (k_buffer ?k)"
    using makeSpace_ok by blast
  have r: "resent_of seg ?seg"
    by (simp add: resent_of_def pay_def)
  then have "wire_ok (k_conv ?k) S ?seg"
    using pushed_resent [OF r assms(3)] i(2) by (simp add: wire_ok_def settings_def)
  then obtain b t where e: "(encode cfg ?seg (?k\<lparr>k_out := o'\<rparr>, off1) \<bind> put_data (seg_data ?seg)) =
      Some (?k\<lparr>k_out := o', k_buffer := b, k_stat := t\<rparr>, off1 + length (seg_bytes cfg ?seg))"
    "work_ok cfg S (?k\<lparr>k_out := o', k_buffer := b, k_stat := t\<rparr>, off1 + length (seg_bytes cfg ?seg))"
    using put_segment_ok [OF m(2), of ?seg] m(3) by auto
  let ?k2 = "?k\<lparr>k_out := o', k_buffer := b, k_stat := t\<rparr>"
  let ?k3 = "if seg_xmit ?seg \<ge> k_dead_link ?k2 then ?k2\<lparr>k_state := 0xFFFFFFFF\<rparr> else ?k2"
  let ?v = "v\<lparr>fv_work := (?k3, off1 + length (seg_bytes cfg ?seg)), fv_current := clk (k_reads k)\<rparr>"
  have "flush_send cfg clk wnd una seg v = Some (?seg, ?v)"
    using m(1) e(1) by (auto simp: flush_send_def w currentMs_def Let_def split: bind_splits)
  moreover have "work_ok cfg S (?k3, off1 + length (seg_bytes cfg ?seg))"
    using e(2) by (rule work_ok_cong) (simp_all add: parts)
  then have "flush_inv cfg S k0 ?v"
    using i(2-4) by (simp add: flush_inv_def parts)
  ultimately show ?thesis
    using r by blast
qed

lemma flush_visit_ok:
  assumes "flush_inv cfg S k0 v" "length (seg_data seg) \<le> unat (k_mss k0)" "seg_acked seg = 1 \<or> pushed (k_conv k0) S seg"
  shows "\<exists>seg' v' go. flush_visit cfg clk resent n wnd una seg v = Some (seg', v', go) \<and> flush_inv cfg S k0 v' \<and> resent_of seg seg'"
proof (cases "seg_acked seg = 1")
  case False
  obtain seg1 v1 ns where t: "flush_timers resent n seg v = (seg1, v1, ns)"
    by (cases "flush_timers resent n seg v")
  note t1 = flush_timers_ok [OF t]
  have "flush_inv cfg S k0 v1"
    using assms(1) t1(2) by (simp add: flush_inv_def)
  moreover have "length (seg_data seg1) \<le> unat (k_mss k0)" "pushed (k_conv k0) S seg1"
    using t1(1) assms(2,3) False pushed_resent by (auto simp: resent_of_def pay_def)
  ultimately obtain seg2 v2 where s: "(if ns then flush_send cfg clk wnd una seg1 v1 else Some (seg1, v1)) = Some (seg2, v2)"
    "flush_inv cfg S k0 v2" "resent_of seg1 seg2"
    using flush_send_ok [of cfg S k0 v1 seg1 clk wnd una] by (cases ns) (auto simp: resent_of_def)
  have "resent_of seg seg2"
    using t1(1) s(3) by (simp add: resent_of_def)
  moreover have "flush_inv cfg S k0 (v2\<lparr>fv_minrto := r\<rparr>)" for r
    using s(2) by (simp add: flush_inv_def)
  ultimately show ?thesis
    using False t s(1,2) by (auto simp: flush_visit_def Let_def)
qed (use assms in \<open>auto simp: flush_visit_def resent_of_def\<close>)

lemma list_all2_ball: "list_all2 R xs ys \<Longrightarrow> (\<And>x y. x \<in> set xs \<Longrightarrow> R x y \<Longrightarrow> P y) \<Longrightarrow> \<forall>y \<in> set ys. P y"
  by (metis in_set_conv_nth list_all2_conv_all_nth)

lemma flush_data_ok:
  assumes "work_ok cfg S (k, off)" "snd_ok S k" "seg_conv seg = k_conv k" "seg_data seg = []"
  shows "\<exists>k' r T. flush_data cfg clk (seg, k, off) = Some (k', r) \<and> buffer_ok cfg k' \<and> out_ok cfg (S @ T) k' \<and> snd_ok (S @ T) k' \<and>
    map pay (rb_abs (k_snd_queue k)) = T @ map pay (rb_abs (k_snd_queue k')) \<and> settings k' = settings k \<and> rside k' = rside k"
proof -
  define k1 where "k1 = flush_probe clk k"
  note f = flush_probe_frame [of clk k, folded k1_def]
  have c1: "k_conv k1 = k_conv k"
    using f(1) by (simp add: settings_def)
  have w1: "work_ok cfg S (k1, off)"
    using work_ok_cong [OF assms(1) f(1,4,5)] .
  obtain seg2 k2 off2 where 2: "flush_cmd cfg IKCP_ASK_SEND IKCP_CMD_WASK (seg, k1, off) = Some (seg2, k2, off2)"
    "work_ok cfg S (k2, off2)" "same_but_output k1 k2" "seg_conv seg2 = k_conv k1" "seg_data seg2 = []"
    using flush_cmd_ok [OF w1, of seg IKCP_CMD_WASK IKCP_ASK_SEND] assms(3,4) c1 by auto
  have c2: "k_conv k2 = k_conv k1"
    using 2(3) by (auto simp: same_but_output_def)
  obtain seg3 k3 off3 where 3: "flush_cmd cfg IKCP_ASK_TELL IKCP_CMD_WINS (seg2, k2, off2) = Some (seg3, k3, off3)"
    "work_ok cfg S (k3, off3)" "same_but_output k2 k3"
    using flush_cmd_ok [OF 2(2), of seg2 IKCP_CMD_WINS IKCP_ASK_TELL] 2(4,5) c2 by auto
  define k4 where "k4 = k3\<lparr>k_probe := 0\<rparr>"
  have p4: "settings k4 = settings k" "rside k4 = rside k" "sside k4 = sside k"
    using same_but_output_parts [OF 2(3)] same_but_output_parts [OF 3(3)] f by (simp_all add: k4_def parts)
  have w4: "work_ok cfg S (k4, off3)"
    using 3(2) by (rule work_ok_cong) (simp_all add: k4_def parts)
  define cwnd where "cwnd = flush_limit k4"
  have "unat (k_mss k4) \<le> mtuLimit"
    using w4 by (simp add: work_ok_def buffer_ok_def)
  then obtain k5 n T where 5: "flush_window cwnd k4 0 = Some (k5, n)" "snd_ok (S @ T) k5"
    "map pay (rb_abs (k_snd_queue k4)) = T @ map pay (rb_abs (k_snd_queue k5))"
    "settings k5 = settings k4" "rside k5 = rside k4" "k_buffer k5 = k_buffer k4" "k_out k5 = k_out k4"
    using flush_window_ok [OF snd_ok_cong [OF assms(2) p4(3,1)], of cwnd 0] by blast
  define k6 where "k6 = k5\<lparr>k_reads := k_reads k5 + 1\<rparr>"
  have w6: "work_ok cfg (S @ T) (k6, off3)"
    using w4 5(4,6,7) by (auto simp: work_ok_def buffer_ok_def out_ok_def settings_def k6_def intro: sound_mono)
  have s6: "snd_ok (S @ T) k6"
    using 5(2) by (rule snd_ok_cong) (simp_all add: k6_def parts)
  let ?v = "\<lparr>fv_work = (k6, off3), fv_current = clk (k_reads k5), fv_change = 0, fv_lostSegs = 0, fv_fastRetransSegs = 0,
    fv_earlyRetransSegs = 0, fv_minrto = sint (k_interval k6)\<rparr>"
  let ?resent = "flush_resent k5"
  let ?visit = "flush_visit cfg clk ?resent n (seg_wnd seg3) (seg_una seg3)"
  have "\<exists>b v. rb_ForEach ?visit (k_snd_buf k6) ?v = Some (b, v) \<and> rb_wf b \<and> flush_inv cfg (S @ T) k6 v \<and>
    list_all2 resent_of (rb_abs (k_snd_buf k6)) (rb_abs b)"
  proof (rule rb_ForEach_inv)
    show "rb_wf (k_snd_buf k6)"
      using s6 by (simp add: snd_ok_def)
    show "flush_inv cfg (S @ T) k6 ?v"
      using w6 by (simp add: flush_inv_def)
    show "\<exists>y s' go. ?visit x s = Some (y, s', go) \<and> flush_inv cfg (S @ T) k6 s' \<and> resent_of x y"
      if "x \<in> set (rb_abs (k_snd_buf k6))" "flush_inv cfg (S @ T) k6 s" for x s
      using s6 that by (intro flush_visit_ok) (auto simp: snd_ok_def)
  qed (simp add: resent_of_def)
  then obtain b v where v: "rb_ForEach ?visit (k_snd_buf k6) ?v = Some (b, v)" "rb_wf b" "flush_inv cfg (S @ T) k6 v"
    "list_all2 resent_of (rb_abs (k_snd_buf k6)) (rb_abs b)"
    by blast
  obtain k7 off7 where w: "fv_work v = (k7, off7)"
    by (cases "fv_work v")
  have 7: "work_ok cfg (S @ T) (k7, off7)" "settings k7 = settings k6" "rside k7 = rside k6" "sside k7 = sside k6"
    using v(3) w by (auto simp: flush_inv_def)
  define k8 where "k8 = flushBuffer (k7\<lparr>k_snd_buf := b\<rparr>, off7)"
  have w7: "work_ok cfg (S @ T) (k7\<lparr>k_snd_buf := b\<rparr>, off7)"
    using 7(1) by (rule work_ok_cong) (simp_all add: parts)
  have 8: "buffer_ok cfg k8" "out_ok cfg (S @ T) k8" "settings k8 = settings k6" "rside k8 = rside k6"
    "k_snd_nxt k8 = k_snd_nxt k6" "k_snd_queue k8 = k_snd_queue k6" "k_snd_buf k8 = b"
    using w7 kcp_output_ok [OF w7] 7(2-4) by (auto simp: k8_def flushBuffer_def work_ok_def kcp_output_def parts)
  have "\<forall>s \<in> set (rb_abs b). length (seg_data s) \<le> unat (k_mss k6) \<and> (seg_acked s = 1 \<or> pushed (k_conv k6) (S @ T) s)"
    using v(4)
  proof (rule list_all2_ball)
    fix x y
    assume "x \<in> set (rb_abs (k_snd_buf k6))" "resent_of x y"
    then show "length (seg_data y) \<le> unat (k_mss k6) \<and> (seg_acked y = 1 \<or> pushed (k_conv k6) (S @ T) y)"
      using s6 pushed_resent [of x y] by (auto simp: snd_ok_def resent_of_def pay_def)
  qed
  then have s8: "snd_ok (S @ T) k8"
    using s6 8 v(2) by (simp add: snd_ok_def settings_def)
  let ?k9 = "flush_cwnd cwnd ?resent v (flush_stats v k8)"
  have 9: "settings ?k9 = settings k8" "rside ?k9 = rside k8" "sside ?k9 = sside k8" "k_buffer ?k9 = k_buffer k8" "k_out ?k9 = k_out k8"
    by (simp_all add: flush_cwnd_def flush_stats_def stat_def Let_def parts)
  have "flush_data cfg clk (seg, k, off) = Some (?k9, of_int (fv_minrto v))"
    using v(1) w
    by (simp add: flush_data_def Let_def currentMs_def 2(1) 3(1) 5(1) k6_def k8_def flip: k1_def k4_def cwnd_def)
  moreover have "buffer_ok cfg ?k9" "out_ok cfg (S @ T) ?k9" "snd_ok (S @ T) ?k9"
    using 8(1,2) 9 snd_ok_cong [OF s8 9(3,1)] by (simp_all add: buffer_ok_def out_ok_def settings_def)
  moreover have "map pay (rb_abs (k_snd_queue k)) = T @ map pay (rb_abs (k_snd_queue ?k9))"
    using 5(3) p4(3) 8(6) 9(3) by (simp add: sside_def k6_def)
  moreover have "settings ?k9 = settings k" "rside ?k9 = rside k"
    using 9(1,2) 8(3,4) 5(4,5) p4 by (simp_all add: k6_def parts)
  ultimately show ?thesis
    by blast
qed

lemma KCP_flush_ok:
  assumes "kinv cfg S k"
  shows "\<exists>k' r T. KCP_flush cfg clk ackOnly k = Some (k', r) \<and> kinv cfg (S @ T) k' \<and>
    map pay (rb_abs (k_snd_queue k)) = T @ map pay (rb_abs (k_snd_queue k')) \<and> settings k' = settings k \<and> rside k' = rside k"
proof -
  let ?seg = "zero_seg\<lparr>seg_conv := k_conv k, seg_cmd := IKCP_CMD_ACK, seg_wnd := wnd_unused k, seg_una := k_rcv_nxt k\<rparr>"
  have r: "k_reserved k \<le> length (k_buffer k)"
    using assms by (auto simp: kinv_defs)
  have "work_ok cfg S (k, k_reserved k)"
    using assms r by (simp add: kinv_def work_ok_def go_slice_def)
  then obtain seg1 k1 off1 where 1: "flush_acks cfg ?seg (k_acklist k) (k, k_reserved k) = Some (seg1, k1, off1)"
    "work_ok cfg S (k1, off1)" "same_but_output k k1" "seg_conv seg1 = k_conv k" "seg_data seg1 = []"
    using flush_acks_ok [of cfg S k "k_reserved k" ?seg "k_acklist k"] by (auto simp: zero_seg_def)
  let ?k2 = "k1\<lparr>k_acklist := []\<rparr>"
  have 2: "settings ?k2 = settings k" "rside ?k2 = rside k" "sside ?k2 = sside k"
    using same_but_output_parts [OF 1(3)] by (simp_all add: parts)
  have w2: "work_ok cfg S (?k2, off1)"
    using 1(2) by (rule work_ok_cong) (simp_all add: parts)
  have s2: "snd_ok S ?k2"
    by (rule snd_ok_cong [OF _ 2(3,1)]) (use assms in \<open>simp add: kinv_def\<close>)
  have f: "KCP_flush cfg clk ackOnly k =
      (if ackOnly then Some (flushBuffer (?k2, off1), k_interval ?k2) else flush_data cfg clk (seg1, ?k2, off1))"
    using r 1(1) by (simp add: KCP_flush_def Let_def)
  have rw: "rcv_wf k'" if "rside k' = rside k" for k'
    using assms that rcv_wf_cong by (auto simp: kinv_def)
  show ?thesis
  proof (cases ackOnly)
    case True
    let ?k3 = "flushBuffer (?k2, off1)"
    have 3: "buffer_ok cfg ?k3" "out_ok cfg S ?k3" "settings ?k3 = settings ?k2" "rside ?k3 = rside ?k2" "sside ?k3 = sside ?k2"
      using w2 kcp_output_ok [OF w2] by (auto simp: flushBuffer_def work_ok_def kcp_output_def parts)
    have "kinv cfg (S @ []) ?k3"
      using 3 2 rw [of ?k3] snd_ok_cong [OF s2 3(5,3)] by (simp add: kinv_def)
    then show ?thesis
      using f True 2 3 by (intro exI [of _ ?k3] exI [of _ "k_interval ?k2"] exI [of _ "[]"]) (simp add: sside_def)
  next
    case False
    have "seg_conv seg1 = k_conv ?k2"
      using 1(4) 2(1) by (simp add: settings_def)
    then obtain k' r T where "flush_data cfg clk (seg1, ?k2, off1) = Some (k', r)" "buffer_ok cfg k'" "out_ok cfg (S @ T) k'"
      "snd_ok (S @ T) k'" "map pay (rb_abs (k_snd_queue ?k2)) = T @ map pay (rb_abs (k_snd_queue k'))" "settings k' = settings ?k2"
      "rside k' = rside ?k2"
      using flush_data_ok [OF w2 s2 _ 1(5)] by blast
    then show ?thesis
      using f False 2 rw [of k'] by (intro exI [of _ k'] exI [of _ r] exI [of _ T]) (simp add: kinv_def sside_def)
  qed
qed

end
