(* ===== verification/Kcp_Ops.thy ===== *)
theory Kcp_Ops
  imports Kcp_Inv
begin

text \<open>
  The operations of a KCP connection keep its invariant, whatever packets arrive. For the
  receiving side the ghost list \<open>S\<close> is the peer's: \<open>rcv_ok S p\<close> says that what was received is
  part of it, where the application has taken the first \<open>p\<close> segments.
\<close>

definition rcv_ok :: "payload list \<Rightarrow> nat \<Rightarrow> KCP \<Rightarrow> bool" where
  "rcv_ok S p k \<longleftrightarrow> length S \<le> 2 ^ 31 \<and>
     (\<exists>r. p \<le> r \<and> r \<le> length S \<and> k_rcv_nxt k = of_nat r \<and> map pay (rb_abs (k_rcv_queue k)) = take (r - p) (drop p S) \<and>
       (\<forall>x \<in> sh_set (k_rcv_buf k). \<exists>i. r \<le> i \<and> i < length S \<and> seg_sn x = of_nat i \<and> S ! i = pay x))"

lemma unat_u32_of_nat: "i < 2 ^ 32 \<Longrightarrow> unat (of_nat i :: u32) = i"
  by (simp add: unat_of_nat)

lemma of_nat_u32_inj: "i \<le> 2 ^ 31 \<Longrightarrow> j \<le> 2 ^ 31 \<Longrightarrow> (of_nat i :: u32) = of_nat j \<longleftrightarrow> i = j"
proof -
  assume "i \<le> 2 ^ 31" "j \<le> 2 ^ 31"
  then have "unat (of_nat i :: u32) = i" "unat (of_nat j :: u32) = j"
    by (auto intro!: unat_u32_of_nat)
  then show ?thesis
    by metis
qed

lemma itimediff_of_nat:
  assumes "i < 2 ^ 31" "j \<le> 2 ^ 31"
  shows "itimediff (of_nat i) (of_nat j) = int i - int j"
proof -
  have "itimediff (of_nat i) (of_nat j) = sint (word_of_int (int i - int j) :: u32)"
    by (simp add: itimediff_def)
  also have "\<dots> = signed_take_bit 31 (int i - int j)"
    by (simp only: sint_sbintrunc') simp
  also have "\<dots> = int i - int j"
    using assms by (intro signed_take_bit_int_eq_self) simp_all
  finally show ?thesis .
qed

subsection \<open>Moving segments that are in order\<close>

definition rcv_only :: "KCP \<Rightarrow> KCP \<Rightarrow> bool" where
  "rcv_only k k' \<longleftrightarrow> (\<exists>h q n. k' = k\<lparr>k_rcv_buf := h, k_rcv_queue := q, k_rcv_nxt := n\<rparr>)"

lemma rcv_only_refl [simp]: "rcv_only k k"
  unfolding rcv_only_def by (rule exI [of _ "k_rcv_buf k"], rule exI [of _ "k_rcv_queue k"], rule exI [of _ "k_rcv_nxt k"]) simp

lemma rcv_only_trans: "rcv_only k k1 \<Longrightarrow> rcv_only k1 k2 \<Longrightarrow> rcv_only k k2"
  unfolding rcv_only_def by (elim exE) (auto intro!: exI)

lemma rcv_only_parts:
  "rcv_only k k' \<Longrightarrow> settings k' = settings k \<and> sside k' = sside k \<and> k_buffer k' = k_buffer k \<and> k_out k' = k_out k \<and>
    k_rcv_wnd k' = k_rcv_wnd k \<and> k_acklist k' = k_acklist k"
  by (auto simp: rcv_only_def parts)

lemma rcv_ok_advance:
  assumes "rcv_ok S p k" "x \<in> sh_set (k_rcv_buf k)" "seg_sn x = k_rcv_nxt k" "rb_abs q = rb_abs (k_rcv_queue k) @ [x]"
    and "sh_set h \<subseteq> sh_set (k_rcv_buf k)" "\<And>y. y \<in> sh_set h \<Longrightarrow> seg_sn y \<noteq> seg_sn x"
  shows "rcv_ok S p (k\<lparr>k_rcv_buf := h, k_rcv_queue := q, k_rcv_nxt := k_rcv_nxt k + 1\<rparr>)"
proof -
  obtain r where r: "length S \<le> 2 ^ 31" "p \<le> r" "r \<le> length S" "k_rcv_nxt k = of_nat r"
    "map pay (rb_abs (k_rcv_queue k)) = take (r - p) (drop p S)"
    "\<And>x. x \<in> sh_set (k_rcv_buf k) \<Longrightarrow> \<exists>i. r \<le> i \<and> i < length S \<and> seg_sn x = of_nat i \<and> S ! i = pay x"
    using assms(1) unfolding rcv_ok_def by blast
  obtain i where i: "r \<le> i" "i < length S" "seg_sn x = of_nat i" "S ! i = pay x"
    using r(6) [OF assms(2)] by blast
  have "i = r"
    using of_nat_u32_inj [of i r] i(1-3) r(1,3,4) assms(3) by auto
  have "map pay (rb_abs q) = take (Suc r - p) (drop p S)"
    using r(2,5) i(2,4) \<open>i = r\<close> by (simp add: assms(4) Suc_diff_le take_Suc_conv_app_nth)
  moreover have "\<exists>i. Suc r \<le> i \<and> i < length S \<and> seg_sn y = of_nat i \<and> S ! i = pay y" if "y \<in> sh_set h" for y
  proof -
    obtain j where j: "r \<le> j" "j < length S" "seg_sn y = of_nat j" "S ! j = pay y"
      using r(6) assms(5) \<open>y \<in> sh_set h\<close> by blast
    moreover have "j \<noteq> r"
      using assms(6) [OF that] j(3) i(3) \<open>i = r\<close> by auto
    ultimately show ?thesis
      by (intro exI [of _ j]) simp
  qed
  ultimately show ?thesis
    using r(1,2,4) i(2) \<open>i = r\<close> unfolding rcv_ok_def by (intro conjI exI [of _ "Suc r"]) auto
qed

lemma move_ready_ok:
  assumes "rcv_wf k"
  shows "\<exists>k'. move_ready k = Some k' \<and> rcv_wf k' \<and> rcv_only k k' \<and> (\<forall>S p. rcv_ok S p k \<longrightarrow> rcv_ok S p k')"
  using assms
proof (induction k rule: move_ready.induct)
  case (1 k)
  have wf: "rb_wf (k_rcv_queue k)" "sh_wf (k_rcv_nxt k) (k_rcv_buf k)"
    using "1.prems" by (auto simp: rcv_wf_def)
  show ?case
  proof (cases "sh_Len (k_rcv_buf k) > 0")
    case True
    then obtain h x where h: "sh_Pop (k_rcv_buf k) = (h, Some x)" "sh_wf (k_rcv_nxt k) h"
      "mset (sh_segments (k_rcv_buf k)) = add_mset x (mset (sh_segments h))"
      "\<And>y. y \<in> sh_set h \<Longrightarrow> rank (k_rcv_nxt k) x < rank (k_rcv_nxt k) y"
      using sh_Pop_ok [OF wf(2)] by (auto simp: sh_Len_def)
    have sets: "sh_set (k_rcv_buf k) = insert x (sh_set h)"
      using h(3) by (metis set_mset_add_mset_insert set_mset_mset)
    have other: "seg_sn y \<noteq> seg_sn x" if "y \<in> sh_set h" for y
      using h(4) [OF that] by (auto simp: rank_def)
    show ?thesis
    proof (cases "seg_sn x = k_rcv_nxt k \<and> rb_Len (k_rcv_queue k) < unat (k_rcv_wnd k)")
      case T: True
      obtain q where q: "rb_Push zero_seg x (k_rcv_queue k) = Some q" "rb_wf q" "rb_abs q = rb_abs (k_rcv_queue k) @ [x]"
        using rb_Push_ok [OF wf(1)] by blast
      let ?k = "k\<lparr>k_rcv_buf := h, k_rcv_queue := q, k_rcv_nxt := k_rcv_nxt k + 1\<rparr>"
      have "sh_wf (k_rcv_nxt k + 1) h"
        using h(2,4) by (intro sh_wf_next) fastforce+
      then have "rcv_wf ?k"
        using q(2) by (simp add: rcv_wf_def)
      then obtain k' where k': "move_ready ?k = Some k'" "rcv_wf k'" "rcv_only ?k k'" "\<forall>S p. rcv_ok S p ?k \<longrightarrow> rcv_ok S p k'"
        using "1.IH" [OF True h(1) [symmetric] refl T q(1)] by blast
      have "rcv_ok S p ?k" if "rcv_ok S p k" for S p
        using that T q(3) sets other by (intro rcv_ok_advance) auto
      moreover have "rcv_only k ?k"
        by (auto simp: rcv_only_def)
      ultimately show ?thesis
        using k' T True h(1) q(1) rcv_only_trans [of k ?k k'] by (subst move_ready.simps) auto
    next
      case F: False
      let ?k = "k\<lparr>k_rcv_buf := sh_Push x h\<rparr>"
      have "rank (k_rcv_nxt k) x < 2 ^ 31" "\<not> sh_Has (seg_sn x) h"
        using wf(2) sets other sh_Has_ok [OF h(2)] by (auto simp: sh_wf_def ranked_def)
      then have p: "sh_wf (k_rcv_nxt k) (sh_Push x h)" "mset (sh_segments (sh_Push x h)) = add_mset x (mset (sh_segments h))"
        using sh_Push_ok [OF h(2)] by auto
      have "sh_set (sh_Push x h) = sh_set (k_rcv_buf k)"
        using p(2) h(3) by (metis set_mset_mset)
      then have "rcv_ok S p ?k" if "rcv_ok S p k" for S p
        using that by (simp add: rcv_ok_def)
      moreover have "rcv_only k ?k"
        unfolding rcv_only_def by (rule exI [of _ "sh_Push x h"], rule exI [of _ "k_rcv_queue k"], rule exI [of _ "k_rcv_nxt k"]) simp
      moreover have "move_ready k = Some ?k"
        using True F h(1) by (subst move_ready.simps) auto
      ultimately show ?thesis
        using wf(1) p(1) by (simp add: rcv_wf_def)
    qed
  next
    case False
    then have "move_ready k = Some k"
      by (subst move_ready.simps) simp
    then show ?thesis
      using "1.prems" by simp
  qed
qed

subsection \<open>Taking a message\<close>

text \<open>The segments up to the first one with fragment number 0.\<close>

fun msg_segs :: "segment list \<Rightarrow> segment list" where
  "msg_segs [] = []"
| "msg_segs (x # xs) = (if seg_frg x = 0 then [x] else x # msg_segs xs)"

definition msg_data :: "segment list \<Rightarrow> bytes" where
  "msg_data xs = concat (map seg_data (msg_segs xs))"

lemma peek_visit:
  "\<exists>go. visit_list (\<lambda>seg n. Some (seg, n + int (length (seg_data seg)), seg_frg seg \<noteq> 0)) xs n =
     Some (xs, n + int (length (msg_data xs)), go)"
proof (induction xs arbitrary: n)
  case (Cons x xs)
  show ?case
    using Cons.IH [of "n + int (length (seg_data x))"] by (auto simp: msg_data_def)
qed (auto simp: msg_data_def)

lemma PeekSize_ok:
  assumes "rb_wf (k_rcv_queue k)"
  shows "PeekSize k = Some (case rb_abs (k_rcv_queue k) of
     [] \<Rightarrow> -1
   | x # xs \<Rightarrow> if seg_frg x \<noteq> 0 \<and> Suc (length xs) < unat (seg_frg x + 1) then -1
               else int (length (msg_data (rb_abs (k_rcv_queue k)))))"
proof (cases "rb_abs (k_rcv_queue k)")
  case (Cons x xs)
  obtain go where "visit_list (\<lambda>seg len. Some (seg, len + int (length (seg_data seg)), seg_frg seg \<noteq> 0)) (rb_abs (k_rcv_queue k)) 0 =
      Some (rb_abs (k_rcv_queue k), 0 + int (length (msg_data (rb_abs (k_rcv_queue k)))), go)"
    using peek_visit by blast
  from rb_ForEach_Some [OF assms this] obtain r where
    "rb_ForEach (\<lambda>seg len. Some (seg, len + int (length (seg_data seg)), seg_frg seg \<noteq> 0)) (k_rcv_queue k) 0 =
      Some (r, int (length (msg_data (x # xs))))"
    by (auto simp: Cons)
  then show ?thesis
    using assms Cons by (simp add: PeekSize_def rb_Peek_ok msg_data_def)
qed (use assms in \<open>simp add: PeekSize_def rb_Peek_ok\<close>)

lemma recv_merge_ok:
  assumes "rb_wf q" "length (msg_data (rb_abs q)) \<le> room"
  shows "\<exists>q'. recv_merge room q out = Some (q', out @ msg_data (rb_abs q)) \<and> rb_wf q' \<and>
    rb_abs q' = drop (length (msg_segs (rb_abs q))) (rb_abs q)"
  using assms
proof (induction room q out rule: recv_merge.induct)
  case (1 room q out)
  obtain q1 where q1: "rb_Pop zero_seg q = Some (q1, case rb_abs q of [] \<Rightarrow> None | x # xs \<Rightarrow> Some x)" "rb_wf q1" "rb_abs q1 = tl (rb_abs q)"
    using rb_Pop_ok [OF "1.prems"(1)] by blast
  show ?case
  proof (cases "rb_abs q")
    case Nil
    then show ?thesis
      using q1 by (subst recv_merge.simps) (simp add: msg_data_def)
  next
    case (Cons x xs)
    have room: "\<not> room < length (seg_data x)"
      using "1.prems"(2) Cons by (auto simp: msg_data_def split: if_splits)
    show ?thesis
    proof (cases "seg_frg x = 0")
      case True
      then show ?thesis
        using q1 Cons room by (subst recv_merge.simps) (simp add: msg_data_def)
    next
      case False
      have "length (msg_data (rb_abs q1)) \<le> room - length (seg_data x)"
        using "1.prems"(2) Cons q1(3) False by (simp add: msg_data_def)
      moreover have "(q1, Some x) = (q1, case rb_abs q of [] \<Rightarrow> None | x # xs \<Rightarrow> Some x)"
        by (simp add: Cons)
      ultimately obtain q' where "recv_merge (room - length (seg_data x)) q1 (out @ seg_data x) =
          Some (q', (out @ seg_data x) @ msg_data (rb_abs q1))" "rb_wf q'"
        "rb_abs q' = drop (length (msg_segs (rb_abs q1))) (rb_abs q1)"
        using "1.IH" [OF q1(1) _ _ room False q1(2)] Cons by auto
      then show ?thesis
        using q1 Cons room False by (subst recv_merge.simps) (simp add: msg_data_def)
    qed
  qed
qed

lemma rcv_ok_take:
  assumes "rcv_ok S p k" "rb_abs q = drop n (rb_abs (k_rcv_queue k))" "n \<le> length (rb_abs (k_rcv_queue k))"
  shows "rcv_ok S (p + n) (k\<lparr>k_rcv_queue := q\<rparr>)"
proof -
  obtain r where r: "length S \<le> 2 ^ 31" "p \<le> r" "r \<le> length S" "k_rcv_nxt k = of_nat r"
    "map pay (rb_abs (k_rcv_queue k)) = take (r - p) (drop p S)"
    "\<forall>x \<in> sh_set (k_rcv_buf k). \<exists>i. r \<le> i \<and> i < length S \<and> seg_sn x = of_nat i \<and> S ! i = pay x"
    using assms(1) unfolding rcv_ok_def by blast
  have l: "length (rb_abs (k_rcv_queue k)) = r - p"
    using r(2,3) arg_cong [OF r(5), of length] by simp
  have "map pay (rb_abs q) = drop n (take (r - p) (drop p S))"
    unfolding assms(2) drop_map [symmetric] r(5) ..
  also have "\<dots> = take (r - (p + n)) (drop (p + n) S)"
    by (simp add: drop_take add.commute)
  finally show ?thesis
    using r l assms(3) unfolding rcv_ok_def by (intro conjI exI [of _ r]) auto
qed

lemma length_msg_segs: "length (msg_segs xs) \<le> length xs"
  by (induction xs) auto

lemma KCP_Recv_ok:
  assumes "kinv cfg S k"
  shows "\<exists>k' n out. KCP_Recv l k = Some (k', n, out) \<and> kinv cfg S k' \<and> settings k' = settings k \<and> sside k' = sside k \<and>
    k_out k' = k_out k \<and>
    (n < 0 \<longrightarrow> k' = k \<and> out = []) \<and>
    (n \<ge> 0 \<longrightarrow> rb_abs (k_rcv_queue k) \<noteq> [] \<and> out = msg_data (rb_abs (k_rcv_queue k)) \<and> n = int (length out) \<and>
      (let x = hd (rb_abs (k_rcv_queue k)) in seg_frg x \<noteq> 0 \<longrightarrow> unat (seg_frg x + 1) \<le> length (rb_abs (k_rcv_queue k))) \<and>
      (\<forall>S p. rcv_ok S p k \<longrightarrow> rcv_ok S (p + length (msg_segs (rb_abs (k_rcv_queue k)))) k'))"
proof -
  let ?xs = "rb_abs (k_rcv_queue k)"
  have wf: "rb_wf (k_rcv_queue k)" "rcv_wf k"
    using assms by (auto simp: kinv_def rcv_wf_def)
  obtain n where n: "PeekSize k = Some n" and ps: "n < 0 \<or> ?xs \<noteq> [] \<and> n = int (length (msg_data ?xs)) \<and>
      (seg_frg (hd ?xs) \<noteq> 0 \<longrightarrow> unat (seg_frg (hd ?xs) + 1) \<le> length ?xs)"
    using PeekSize_ok [OF wf(1)] by (cases ?xs) (auto split: if_splits)
  show ?thesis
  proof (cases "n < 0 \<or> int l < n")
    case True
    then show ?thesis
      using n assms by (auto simp: KCP_Recv_def)
  next
    case False
    then have l: "length (msg_data ?xs) \<le> l" "?xs \<noteq> []" "n = int (length (msg_data ?xs))"
      using ps by auto
    obtain q where q: "recv_merge l (k_rcv_queue k) [] = Some (q, msg_data ?xs)" "rb_wf q" "rb_abs q = drop (length (msg_segs ?xs)) ?xs"
      using recv_merge_ok [OF wf(1) l(1), of "[]"] by auto
    let ?k1 = "k\<lparr>k_rcv_queue := q\<rparr>"
    have "rcv_wf ?k1"
      using wf(2) q(2) by (simp add: rcv_wf_def)
    then obtain k2 where k2: "move_ready ?k1 = Some k2" "rcv_wf k2" "rcv_only ?k1 k2" "\<forall>S p. rcv_ok S p ?k1 \<longrightarrow> rcv_ok S p k2"
      using move_ready_ok by blast
    let ?k3 = "if rb_Len (k_rcv_queue k2) < unat (k_rcv_wnd k2) \<and> unat (k_rcv_wnd k) \<le> rb_Len (k_rcv_queue k)
      then k2\<lparr>k_probe := k_probe k2 OR IKCP_ASK_TELL\<rparr> else k2"
    have r: "KCP_Recv l k = Some (?k3, int (length (msg_data ?xs)), msg_data ?xs)"
      using n False q(1) k2(1) by (simp add: KCP_Recv_def Let_def)
    have p2: "settings k2 = settings k" "sside k2 = sside k" "k_buffer k2 = k_buffer k" "k_out k2 = k_out k"
      using rcv_only_parts [OF k2(3)] by (auto simp: parts)
    have p3: "settings ?k3 = settings k" "sside ?k3 = sside k" "k_buffer ?k3 = k_buffer k" "k_out ?k3 = k_out k" "rside ?k3 = rside k2"
      using p2 by (auto simp: parts)
    have "kinv cfg S ?k3"
      using assms p3 rcv_wf_cong [OF k2(2) p3(5)] snd_ok_cong [of S k ?k3] by (simp add: kinv_def buffer_ok_def out_ok_def settings_def)
    moreover have "rcv_ok S p ?k3" if "rcv_ok S p k2" for S p
      using that by (auto simp: rcv_ok_def)
    moreover have "rcv_ok S (p + length (msg_segs ?xs)) ?k1" if "rcv_ok S p k" for S p
      using that q(3) length_msg_segs by (intro rcv_ok_take) auto
    ultimately show ?thesis
      using r p3 k2(4) l(2) ps False by (intro exI [of _ ?k3] exI [of _ n] exI [of _ "msg_data ?xs"]) (auto simp: l(3) Let_def)
  qed
qed

subsection \<open>Acknowledgements keep the sent segments\<close>

lemma snd_ok_buf:
  assumes "snd_ok S k" "rb_wf b"
    and "\<forall>s \<in> set (rb_abs b). length (seg_data s) \<le> unat (k_mss k) \<and> (seg_acked s = 1 \<or> pushed (k_conv k) S s)"
  shows "snd_ok S (k\<lparr>k_snd_buf := b\<rparr>)"
  using assms by (simp add: snd_ok_def)

lemma una_visits:
  "\<exists>go. visit_list (una_visit una) xs n =
     Some (map (\<lambda>s. s\<lparr>seg_data := []\<rparr>) (takeWhile (\<lambda>s. itimediff una (seg_sn s) > 0) xs) @ dropWhile (\<lambda>s. itimediff una (seg_sn s) > 0) xs,
       n + length (takeWhile (\<lambda>s. itimediff una (seg_sn s) > 0) xs), go)"
proof (induction xs arbitrary: n)
  case (Cons x xs)
  show ?case
    using Cons.IH [of "Suc n"] by (auto simp: una_visit_def)
qed auto

lemma parse_una_ok:
  assumes "snd_ok S k"
  shows "\<exists>b n. parse_una una k = Some (k\<lparr>k_snd_buf := b\<rparr>, n) \<and> snd_ok S (k\<lparr>k_snd_buf := b\<rparr>)"
proof -
  let ?P = "\<lambda>s. itimediff una (seg_sn s) > 0" and ?xs = "rb_abs (k_snd_buf k)"
  have wf: "rb_wf (k_snd_buf k)"
    using assms by (simp add: snd_ok_def)
  obtain go where "visit_list (una_visit una) ?xs 0 =
      Some (map (\<lambda>s. s\<lparr>seg_data := []\<rparr>) (takeWhile ?P ?xs) @ dropWhile ?P ?xs, 0 + length (takeWhile ?P ?xs), go)"
    using una_visits by blast
  from rb_ForEach_Some [OF wf this] obtain b where b: "rb_ForEach (una_visit una) (k_snd_buf k) 0 = Some (b, length (takeWhile ?P ?xs))"
    "rb_wf b" "rb_abs b = map (\<lambda>s. s\<lparr>seg_data := []\<rparr>) (takeWhile ?P ?xs) @ dropWhile ?P ?xs"
    by auto
  obtain c where c: "rb_Discard zero_seg (int (length (takeWhile ?P ?xs))) b = Some (c, length (takeWhile ?P ?xs))" "rb_wf c"
    "rb_abs c = dropWhile ?P ?xs"
    using rb_Discard_ok [OF b(2), of zero_seg "int (length (takeWhile ?P ?xs))"] b(3) by auto
  have "set (rb_abs c) \<subseteq> set ?xs"
    unfolding c(3) by (rule set_dropWhileD [THEN subsetI])
  then have "snd_ok S (k\<lparr>k_snd_buf := c\<rparr>)"
    using assms c(2) by (intro snd_ok_buf) (auto simp: snd_ok_def)
  then show ?thesis
    using b(1) c(1) by (intro exI [of _ c]) (simp add: parse_una_def)
qed

lemma parse_ack_ok:
  assumes "snd_ok S k"
  shows "\<exists>b. parse_ack sn k = Some (k\<lparr>k_snd_buf := b\<rparr>) \<and> snd_ok S (k\<lparr>k_snd_buf := b\<rparr>)"
proof (cases "itimediff sn (k_snd_una k) < 0 \<or> itimediff sn (k_snd_nxt k) \<ge> 0")
  case True
  then show ?thesis
    using assms by (intro exI [of _ "k_snd_buf k"]) (simp add: parse_ack_def)
next
  case False
  define R where "R = (\<lambda>(x :: segment) y. y = x \<or> seg_acked y = 1 \<and> seg_data y = [])"
  have "\<exists>b u. rb_ForEach (ack_visit sn) (k_snd_buf k) () = Some (b, u) \<and> rb_wf b \<and> True \<and> list_all2 R (rb_abs (k_snd_buf k)) (rb_abs b)"
    using assms by (intro rb_ForEach_inv) (auto simp: snd_ok_def ack_visit_def R_def)
  then obtain b where b: "rb_ForEach (ack_visit sn) (k_snd_buf k) () = Some (b, ())" "rb_wf b" "list_all2 R (rb_abs (k_snd_buf k)) (rb_abs b)"
    by auto
  have "\<forall>s \<in> set (rb_abs b). length (seg_data s) \<le> unat (k_mss k) \<and> (seg_acked s = 1 \<or> pushed (k_conv k) S s)"
    using b(3) by (rule list_all2_ball) (use assms in \<open>auto simp: R_def snd_ok_def\<close>)
  then show ?thesis
    using False b(1) snd_ok_buf [OF assms b(2)] by (auto simp: parse_ack_def)
qed

lemma parse_fastack_ok:
  assumes "snd_ok S k"
  shows "\<exists>b f. parse_fastack sn ts k = Some (k\<lparr>k_snd_buf := b\<rparr>, f) \<and> snd_ok S (k\<lparr>k_snd_buf := b\<rparr>)"
proof (cases "itimediff sn (k_snd_una k) < 0 \<or> itimediff sn (k_snd_nxt k) \<ge> 0")
  case True
  then show ?thesis
    using assms by (intro exI [of _ "k_snd_buf k"]) (auto simp: parse_fastack_def)
next
  case False
  have "\<exists>b f. rb_ForEach (fastack_visit (k_fastresend k) sn ts) (k_snd_buf k) False = Some (b, f) \<and> rb_wf b \<and> True \<and>
      list_all2 resent_of (rb_abs (k_snd_buf k)) (rb_abs b)"
    using assms by (intro rb_ForEach_inv) (auto simp: snd_ok_def fastack_visit_def resent_of_def pay_def)
  then obtain b f where b: "rb_ForEach (fastack_visit (k_fastresend k) sn ts) (k_snd_buf k) False = Some (b, f)" "rb_wf b"
    "list_all2 resent_of (rb_abs (k_snd_buf k)) (rb_abs b)"
    by auto
  have "\<forall>s \<in> set (rb_abs b). length (seg_data s) \<le> unat (k_mss k) \<and> (seg_acked s = 1 \<or> pushed (k_conv k) S s)"
    using b(3)
  proof (rule list_all2_ball)
    fix x y
    assume "x \<in> set (rb_abs (k_snd_buf k))" "resent_of x y"
    then show "length (seg_data y) \<le> unat (k_mss k) \<and> (seg_acked y = 1 \<or> pushed (k_conv k) S y)"
      using assms pushed_resent [of x y] by (auto simp: snd_ok_def resent_of_def pay_def)
  qed
  then show ?thesis
    using False b(1) snd_ok_buf [OF assms b(2)] by (auto simp: parse_fastack_def)
qed

text \<open>What the handling of an incoming segment may change besides the receiving side.\<close>

definition snd_same :: "KCP \<Rightarrow> KCP \<Rightarrow> bool" where
  "snd_same k k' \<longleftrightarrow> settings k' = settings k \<and> k_snd_queue k' = k_snd_queue k \<and> k_buffer k' = k_buffer k \<and> k_out k' = k_out k"

lemma snd_same_refl [simp]: "snd_same k k"
  by (simp add: snd_same_def)

lemma snd_same_trans: "snd_same k k1 \<Longrightarrow> snd_same k1 k2 \<Longrightarrow> snd_same k k2"
  by (simp add: snd_same_def)

lemma kinv_snd_same: "kinv cfg S k \<Longrightarrow> snd_same k k' \<Longrightarrow> snd_ok S k' \<Longrightarrow> rcv_wf k' \<Longrightarrow> kinv cfg S k'"
  by (simp add: kinv_def snd_same_def buffer_ok_def out_ok_def settings_def)

lemma shrink_buf_ok: "snd_ok S k \<Longrightarrow> \<exists>u. shrink_buf k = Some (k\<lparr>k_snd_una := u\<rparr>)"
  by (cases "rb_abs (k_snd_buf k)") (auto simp: shrink_buf_def snd_ok_def rb_Peek_ok)

subsection \<open>Incoming data\<close>

lemma itimediff_rank: "itimediff (seg_sn x) b \<ge> 0 \<Longrightarrow> rank b x < 2 ^ 31"
proof -
  assume "itimediff (seg_sn x) b \<ge> 0"
  define u where "u = uint (seg_sn x - b)"
  have u: "0 \<le> u" "u < 2 ^ 32"
    using uint_bounded [of "seg_sn x - b"] by (simp_all add: u_def)
  have "sint (word_of_int u :: u32) = (u + 2 ^ 31) mod 2 ^ 32 - 2 ^ 31"
    by (simp only: int_word_sint) simp
  then have "(u + 2 ^ 31) mod 2 ^ 32 - 2 ^ 31 \<ge> 0"
    using \<open>itimediff (seg_sn x) b \<ge> 0\<close> by (simp add: itimediff_def u_def)
  moreover have "(u + 2 ^ 31) mod 2 ^ 32 = u + 2 ^ 31 - 2 ^ 32" if "u \<ge> 2 ^ 31"
    using u that mod_pos_pos_trivial [of "u - 2 ^ 31" "2 ^ 32"] mod_add_self2 [of "u - 2 ^ 31" "2 ^ 32"] by (simp add: add.commute)
  ultimately have "u < 2 ^ 31"
    using u by (cases "u \<ge> 2 ^ 31") auto
  moreover have "u = int (rank b x)"
    by (simp add: rank_def u_def)
  ultimately show ?thesis
    by simp
qed

text \<open>A segment that may be added to what was received.\<close>

definition from_peer :: "payload list \<Rightarrow> segment \<Rightarrow> bool" where
  "from_peer S x \<longleftrightarrow> (\<exists>i < length S. seg_sn x = of_nat i \<and> S ! i = pay x)"

lemma parse_data_ok:
  assumes "rcv_wf k"
  shows "\<exists>k' rep. parse_data x k = Some (k', rep) \<and> rcv_wf k' \<and> rcv_only k k' \<and>
    (\<forall>S p. rcv_ok S p k \<longrightarrow> from_peer S x \<longrightarrow> rcv_ok S p k')"
proof (cases "itimediff (seg_sn x) (k_rcv_nxt k + k_rcv_wnd k) \<ge> 0 \<or> itimediff (seg_sn x) (k_rcv_nxt k) < 0")
  case True
  then show ?thesis
    using assms by (auto simp: parse_data_def)
next
  case False
  let ?k = "if sh_Has (seg_sn x) (k_rcv_buf k) then k else k\<lparr>k_rcv_buf := sh_Push x (k_rcv_buf k)\<rparr>"
  have wf: "sh_wf (k_rcv_nxt k) (k_rcv_buf k)" "rank (k_rcv_nxt k) x < 2 ^ 31"
    using assms itimediff_rank [of x "k_rcv_nxt k"] False by (auto simp: rcv_wf_def)
  have push: "sh_wf (k_rcv_nxt k) (sh_Push x (k_rcv_buf k))" "sh_set (sh_Push x (k_rcv_buf k)) = insert x (sh_set (k_rcv_buf k))"
    if "\<not> sh_Has (seg_sn x) (k_rcv_buf k)"
    using sh_Push_ok [OF wf that] by (auto dest: arg_cong [where f = set_mset])
  have "rcv_wf ?k"
    using assms push by (auto simp: rcv_wf_def)
  then obtain k' where k': "move_ready ?k = Some k'" "rcv_wf k'" "rcv_only ?k k'" "\<forall>S p. rcv_ok S p ?k \<longrightarrow> rcv_ok S p k'"
    using move_ready_ok by blast
  have "rcv_only k (k\<lparr>k_rcv_buf := h\<rparr>)" for h
    unfolding rcv_only_def by (rule exI [of _ h], rule exI [of _ "k_rcv_queue k"], rule exI [of _ "k_rcv_nxt k"]) simp
  then have "rcv_only k ?k"
    by auto
  moreover have "rcv_ok S p ?k" if ok: "rcv_ok S p k" and fp: "from_peer S x" for S p
  proof -
    obtain r where r: "length S \<le> 2 ^ 31" "p \<le> r" "r \<le> length S" "k_rcv_nxt k = of_nat r"
      "map pay (rb_abs (k_rcv_queue k)) = take (r - p) (drop p S)"
      "\<forall>x \<in> sh_set (k_rcv_buf k). \<exists>i. r \<le> i \<and> i < length S \<and> seg_sn x = of_nat i \<and> S ! i = pay x"
      using ok unfolding rcv_ok_def by blast
    obtain i where i: "i < length S" "seg_sn x = of_nat i" "S ! i = pay x"
      using fp by (auto simp: from_peer_def)
    have "r \<le> i"
      using False itimediff_of_nat [of i r] i(1,2) r(1,3,4) by simp
    then have "rcv_ok S p (k\<lparr>k_rcv_buf := sh_Push x (k_rcv_buf k)\<rparr>)" if "\<not> sh_Has (seg_sn x) (k_rcv_buf k)"
      using r i push(2) [OF that] unfolding rcv_ok_def by (intro conjI exI [of _ r]) auto
    then show ?thesis
      using ok by simp
  qed
  moreover have "parse_data x k = Some (k', sh_Has (seg_sn x) (k_rcv_buf k))"
    using False k'(1) by (simp add: parse_data_def Let_def)
  ultimately show ?thesis
    using k'(2,4) rcv_only_trans [OF _ k'(3)] by blast
qed

definition peer_header :: "payload list \<Rightarrow> wire_header \<Rightarrow> bytes \<Rightarrow> bool" where
  "peer_header S h data \<longleftrightarrow> (\<exists>i < length S. wh_sn h = of_nat i \<and> S ! i = (wh_frg h, take (unat (wh_length h)) data))"

lemma rcv_ok_cong: "rcv_ok S p k \<Longrightarrow> rside k' = rside k \<Longrightarrow> rcv_ok S p k'"
  by (simp add: rcv_ok_def rside_def)

lemma input_push_ok:
  assumes "rcv_wf k"
  shows "\<exists>k'. input_push regular h data k = Some k' \<and> rcv_wf k' \<and> snd_same k k' \<and> sside k' = sside k \<and>
    (\<forall>S p. rcv_ok S p k \<longrightarrow> peer_header S h data \<longrightarrow> rcv_ok S p k')"
proof -
  let ?k = "ack_push (wh_sn h) (wh_ts h) k"
  let ?x = "zero_seg\<lparr>seg_conv := wh_conv h, seg_cmd := wh_cmd h, seg_frg := wh_frg h, seg_wnd := wh_wnd h,
    seg_ts := wh_ts h, seg_sn := wh_sn h, seg_una := wh_una h, seg_data := take (unat (wh_length h)) data\<rparr>"
  define post where "post = (\<lambda>k'. rcv_wf k' \<and> snd_same k k' \<and> sside k' = sside k \<and> (\<forall>S p. rcv_ok S p k \<longrightarrow> peer_header S h data \<longrightarrow> rcv_ok S p k'))"
  have ack: "rside ?k = rside k" "sside ?k = sside k" "snd_same k ?k"
    by (simp_all add: ack_push_def parts snd_same_def)
  have "rcv_wf ?k"
    using rcv_wf_cong [OF assms ack(1)] .
  then obtain k1 rep where d: "parse_data ?x ?k = Some (k1, rep)" "rcv_wf k1" "rcv_only ?k k1"
    "\<forall>S p. rcv_ok S p ?k \<longrightarrow> from_peer S ?x \<longrightarrow> rcv_ok S p k1"
    using parse_data_ok by blast
  have "post k" "post ?k"
    using assms ack rcv_wf_cong [OF assms ack(1)] rcv_ok_cong [OF _ ack(1)] by (auto simp: post_def)
  moreover have "post k1"
    unfolding post_def using d(2,4) rcv_only_parts [OF d(3)] ack(2,3) rcv_ok_cong [OF _ ack(1)]
    by (auto simp: snd_same_def from_peer_def peer_header_def pay_def sside_def)
  moreover have "post (stat f k')" if "post k'" for f k'
    using that rcv_wf_cong [of k' "stat f k'"] rcv_ok_cong [of _ _ k' "stat f k'"]
    by (auto simp: post_def stat_def parts snd_same_def)
  ultimately have "\<exists>k'. input_push regular h data k = Some k' \<and> post k'"
    using d(1) by (simp add: input_push_def Let_def)
  then show ?thesis
    by (simp add: post_def)
qed

subsection \<open>Incoming packets\<close>

lemma kinv_parts: "kinv cfg S k \<Longrightarrow> snd_ok S k \<and> rcv_wf k"
  by (simp add: kinv_def)

text \<open>A state of the connection after handling a segment: the invariant, with the sending queue and
  the output untouched, and what was received still the peer's if the segment was.\<close>

definition seg_post :: "kcp_config \<Rightarrow> payload list \<Rightarrow> KCP \<Rightarrow> KCP \<Rightarrow> bool" where
  "seg_post cfg S k k' \<longleftrightarrow> kinv cfg S k' \<and> snd_same k k'"

lemma input_seg_ok:
  assumes "kinv cfg S (iv_k v)"
  shows "\<exists>v'. input_seg regular h data v = Some v' \<and> seg_post cfg S (iv_k v) (iv_k v') \<and>
    (\<forall>P p. rcv_ok P p (iv_k v) \<longrightarrow> (wh_cmd h = IKCP_CMD_PUSH \<longrightarrow> peer_header P h data) \<longrightarrow> rcv_ok P p (iv_k v'))"
proof -
  define k where "k = iv_k v"
  define k1 where "k1 = (if regular then k\<lparr>k_rmt_wnd := ucast (wh_wnd h)\<rparr> else k)"
  have i1: "sside k1 = sside k" "settings k1 = settings k" "rside k1 = rside k" "snd_same k k1"
    by (simp_all add: k1_def parts snd_same_def)
  have s1: "snd_ok S k1"
    using snd_ok_cong [OF _ i1(1,2)] assms by (simp add: kinv_def k_def)
  obtain b n where u: "parse_una (wh_una h) k1 = Some (k1\<lparr>k_snd_buf := b\<rparr>, n)" "snd_ok S (k1\<lparr>k_snd_buf := b\<rparr>)"
    using parse_una_ok [OF s1] by blast
  obtain una where sh: "shrink_buf (k1\<lparr>k_snd_buf := b\<rparr>) = Some (k1\<lparr>k_snd_buf := b, k_snd_una := una\<rparr>)"
    using shrink_buf_ok [OF u(2)] by blast
  define k2 where "k2 = k1\<lparr>k_snd_buf := b, k_snd_una := una\<rparr>"
  have s2: "snd_ok S k2"
    using u(2) by (rule snd_ok_cong) (simp_all add: k2_def parts)
  have r2: "rside k2 = rside k" and same2: "snd_same k k2"
    using i1 by (simp_all add: k2_def parts snd_same_def)
  have w2: "rcv_wf k2"
    using assms rcv_wf_cong [OF _ r2] by (simp add: kinv_def k_def)
  define v2 where "v2 = v\<lparr>iv_k := k2, iv_flush := iv_flush v \<or> n > 0\<rparr>"
  define Q where "Q = (\<lambda>k'. seg_post cfg S k k' \<and>
    (\<forall>P p. rcv_ok P p k \<longrightarrow> (wh_cmd h = IKCP_CMD_PUSH \<longrightarrow> peer_header P h data) \<longrightarrow> rcv_ok P p k'))"
  have step: "Q k'" if "snd_same k2 k'" "snd_ok S k'" "rside k' = rside k2" for k'
    using that same2 kinv_snd_same [OF assms, of k'] rcv_wf_cong [OF w2 that(3)] rcv_ok_cong [of _ _ k k'] r2 snd_same_trans
    unfolding Q_def seg_post_def k_def [symmetric] by metis
  have "\<exists>v'. input_ack h v2 = Some v' \<and> Q (iv_k v')"
  proof -
    obtain b1 where a: "parse_ack (wh_sn h) k2 = Some (k2\<lparr>k_snd_buf := b1\<rparr>)" "snd_ok S (k2\<lparr>k_snd_buf := b1\<rparr>)"
      using parse_ack_ok [OF s2] by blast
    obtain b2 f where f: "parse_fastack (wh_sn h) (wh_ts h) (k2\<lparr>k_snd_buf := b1\<rparr>) = Some (k2\<lparr>k_snd_buf := b2\<rparr>, f)"
      "snd_ok S (k2\<lparr>k_snd_buf := b2\<rparr>)"
      using parse_fastack_ok [OF a(2), of "wh_sn h" "wh_ts h"] by auto
    have "Q (k2\<lparr>k_snd_buf := b2\<rparr>)"
      using f(2) by (intro step) (simp_all add: snd_same_def parts)
    then show ?thesis
      using a(1) f(1) by (simp add: input_ack_def v2_def)
  qed
  moreover have "\<exists>k'. input_push regular h data k2 = Some k' \<and> (wh_cmd h = IKCP_CMD_PUSH \<longrightarrow> Q k')"
  proof -
    obtain k' where p: "input_push regular h data k2 = Some k'" "rcv_wf k'" "snd_same k2 k'" "sside k' = sside k2"
      "\<forall>S p. rcv_ok S p k2 \<longrightarrow> peer_header S h data \<longrightarrow> rcv_ok S p k'"
      using input_push_ok [OF w2] by blast
    have "kinv cfg S k'"
      using p(2-4) same2 kinv_snd_same [OF assms, of k'] snd_ok_cong [OF s2 p(4)] snd_same_trans [OF same2 p(3)]
      by (simp add: k_def [symmetric] snd_same_def)
    then show ?thesis
      using p same2 rcv_ok_cong [OF _ r2] snd_same_trans [OF same2 p(3)] by (auto simp: Q_def seg_post_def)
  qed
  moreover have "Q (k2\<lparr>k_probe := x\<rparr>)" for x
    using snd_ok_cong [OF s2, of "k2\<lparr>k_probe := x\<rparr>"] by (intro step) (simp_all add: snd_same_def parts)
  moreover have "Q k2"
    using s2 by (intro step) simp_all
  moreover have "input_seg regular h data v =
      do {
        v \<leftarrow> (if wh_cmd h = IKCP_CMD_ACK then input_ack h v2
              else if wh_cmd h = IKCP_CMD_PUSH then map_option (\<lambda>k. v2\<lparr>iv_k := k\<rparr>) (input_push regular h data k2)
              else if wh_cmd h = IKCP_CMD_WASK then Some (v2\<lparr>iv_k := k2\<lparr>k_probe := k_probe k2 OR IKCP_ASK_TELL\<rparr>\<rparr>)
              else Some v2);
        Some (v\<lparr>iv_inSegs := iv_inSegs v + 1\<rparr>)
      }"
    using u(1) sh by (simp add: input_seg_def Let_def k2_def v2_def flip: k_def k1_def)
  ultimately have "\<exists>v'. input_seg regular h data v = Some v' \<and> Q (iv_k v')"
    by (auto simp: v2_def)
  then show ?thesis
    by (simp add: Q_def k_def)
qed

end
