(* ===== verification/Kcp_Delivery.thy ===== *)
theory Kcp_Delivery
  imports Kcp_Ops
begin

text \<open>
  What a KCP connection promises: whatever packets arrive and in whatever order its operations
  are called, it does not panic, and over a network that loses, repeats and reorders the
  packets of the peer, the application reads exactly the messages the peer sent, in order.
\<close>

subsection \<open>A segment decoded from its wire form\<close>

definition check_word :: "kcp_config \<Rightarrow> segment \<Rightarrow> u32" where
  "check_word cfg s = (if seg_cmd s = IKCP_CMD_PUSH then the (byte_check_hash cfg (seg_data s)) else 0)"

lemma hdr_eq:
  "hdr cfg s = le64 (seg_conv s) @ [seg_cmd s, seg_frg s] @ le16 (seg_wnd s) @ le32 (seg_ts s) @ le32 (seg_sn s) @ le32 (seg_una s) @
     le32 (of_nat (length (seg_data s))) @ (if cfg_enable cfg then le32 (check_word cfg s) else [])"
  using byte_check_hash_total [of cfg "seg_data s"] by (auto simp: hdr_def seg_header_def Let_def check_word_def)

definition header_of :: "kcp_config \<Rightarrow> segment \<Rightarrow> wire_header" where
  "header_of cfg s = \<lparr>wh_conv = seg_conv s, wh_cmd = seg_cmd s, wh_frg = seg_frg s, wh_wnd = seg_wnd s, wh_ts = seg_ts s,
     wh_sn = seg_sn s, wh_una = seg_una s, wh_length = of_nat (length (seg_data s)),
     wh_hash = (if cfg_enable cfg then check_word cfg s else 0)\<rparr>"

lemma parse_header_seg: "parse_header cfg (seg_bytes cfg s @ r) = (header_of cfg s, seg_data s @ r)"
proof -
  have "(le64 w @ xs) ! 8 = xs ! 0" "(le64 w @ xs) ! 9 = xs ! 1" for w xs
    by (simp_all add: nth_append)
  then have "fst (parse_header cfg (seg_bytes cfg s @ r)) = header_of cfg s"
    by (simp add: parse_header_def header_of_def seg_bytes_def hdr_eq byte_codec)
  then show ?thesis
    by (simp add: parse_header_def seg_bytes_def seg_header_hdr)
qed

lemma header_of_accepted:
  assumes "wire_ok conv S s"
  shows "header_error cfg conv (header_of cfg s) (seg_data s @ r) = Some None" "unat (wh_length (header_of cfg s)) = length (seg_data s)"
    and "wh_cmd (header_of cfg s) = IKCP_CMD_PUSH \<Longrightarrow> peer_header S (header_of cfg s) (seg_data s @ r)"
proof -
  have l: "length (seg_data s) \<le> 1500"
    using assms by (auto simp: wire_ok_def pushed_def mtuLimit_def)
  then show u: "unat (wh_length (header_of cfg s)) = length (seg_data s)"
    by (simp add: header_of_def unat_u32_of_nat)
  have c: "seg_conv s = conv" "seg_cmd s \<in> {IKCP_CMD_PUSH, IKCP_CMD_ACK, IKCP_CMD_WASK, IKCP_CMD_WINS}"
    using assms by (auto simp: wire_ok_def pushed_def)
  obtain x where "byte_check_hash cfg (seg_data s) = Some x"
    using byte_check_hash_total by blast
  then show "header_error cfg conv (header_of cfg s) (seg_data s @ r) = Some None"
    using u c by (auto simp: header_error_def header_of_def check_word_def)
  show "peer_header S (header_of cfg s) (seg_data s @ r)" if "wh_cmd (header_of cfg s) = IKCP_CMD_PUSH"
  proof -
    have "seg_cmd s = IKCP_CMD_PUSH"
      using that by (simp add: header_of_def)
    then have "pushed conv S s"
      using assms by (auto simp: wire_ok_def IKCP_CMD_PUSH_def IKCP_CMD_ACK_def IKCP_CMD_WASK_def IKCP_CMD_WINS_def)
    then show ?thesis
      using u by (auto simp: peer_header_def pushed_def pay_def header_of_def)
  qed
qed

lemma input_loop_ok:
  assumes "kinv cfg S (iv_k v)"
  shows "\<exists>v' e. input_loop cfg regular data v = Some (v', e) \<and> seg_post cfg S (iv_k v) (iv_k v') \<and>
    (\<forall>P p. rcv_ok P p (iv_k v) \<longrightarrow> sound cfg (k_conv (iv_k v)) P data \<longrightarrow> rcv_ok P p (iv_k v'))"
  using assms
proof (induction cfg regular data v rule: input_loop.induct)
  case (1 cfg regular data v)
  have same: "seg_post cfg S (iv_k v) (iv_k v)"
    using "1.prems" by (simp add: seg_post_def)
  show ?case
  proof (cases "length data < IKCP_OVERHEAD cfg")
    case True
    then show ?thesis
      using same by (subst input_loop.simps) auto
  next
    case long: False
    obtain h rest where h: "parse_header cfg data = (h, rest)"
      by (cases "parse_header cfg data")
    have "\<exists>e. header_error cfg (k_conv (iv_k v)) h rest = Some e"
      using byte_check_hash_total [of cfg "take (unat (wh_length h)) rest"] by (auto simp: header_error_def)
    then obtain e where e: "header_error cfg (k_conv (iv_k v)) h rest = Some e" ..
    have peer: "e = None \<and> (wh_cmd h = IKCP_CMD_PUSH \<longrightarrow> peer_header P h rest) \<and>
        sound cfg (k_conv (iv_k v)) P (drop (unat (wh_length h)) rest)" if snd: "sound cfg (k_conv (iv_k v)) P data" for P
    proof -
      obtain segs where segs: "data = concat (map (seg_bytes cfg) segs)" "\<forall>s \<in> set segs. wire_ok (k_conv (iv_k v)) P s"
        using snd by (auto simp: sound_def)
      then obtain s ss where s: "segs = s # ss"
        using long overhead_pos [of cfg] by (cases segs) auto
      have "h = header_of cfg s" "rest = seg_data s @ concat (map (seg_bytes cfg) ss)"
        using h parse_header_seg [of cfg s "concat (map (seg_bytes cfg) ss)"] by (auto simp: segs(1) s)
      then show ?thesis
        using e header_of_accepted [where conv = "k_conv (iv_k v)" and S = P and s = s and cfg = cfg] segs(2) s
        by (auto simp: sound_def)
    qed
    show ?thesis
    proof (cases e)
      case (Some c)
      then have "input_loop cfg regular data v = Some (v, Some c)"
        using long h e by (subst input_loop.simps) simp
      then show ?thesis
        using same by simp
    next
      case None
      obtain v1 where v1: "input_seg regular h rest v = Some v1" "seg_post cfg S (iv_k v) (iv_k v1)"
        "\<forall>P p. rcv_ok P p (iv_k v) \<longrightarrow> (wh_cmd h = IKCP_CMD_PUSH \<longrightarrow> peer_header P h rest) \<longrightarrow> rcv_ok P p (iv_k v1)"
        using input_seg_ok [OF "1.prems", of regular h rest] by blast
      have "kinv cfg S (iv_k v1)"
        using v1(2) by (simp add: seg_post_def)
      then obtain v2 e2 where v2: "input_loop cfg regular (drop (unat (wh_length h)) rest) v1 = Some (v2, e2)"
        "seg_post cfg S (iv_k v1) (iv_k v2)"
        "\<forall>P p. rcv_ok P p (iv_k v1) \<longrightarrow> sound cfg (k_conv (iv_k v1)) P (drop (unat (wh_length h)) rest) \<longrightarrow> rcv_ok P p (iv_k v2)"
        using "1.IH" [OF long h [symmetric] refl e [unfolded None] refl v1(1)] by auto
      have "input_loop cfg regular data v = Some (v2, e2)"
        using long h e None v1(1) v2(1) by (subst input_loop.simps) simp
      moreover have "seg_post cfg S (iv_k v) (iv_k v2)" "k_conv (iv_k v1) = k_conv (iv_k v)"
        using v1(2) v2(2) snd_same_trans [of "iv_k v" "iv_k v1" "iv_k v2"] by (auto simp: seg_post_def snd_same_def settings_def)
      ultimately show ?thesis
        using v1(3) v2(3) peer by simp
    qed
  qed
qed

subsection \<open>Every operation keeps the invariant\<close>

text \<open>A step of the sending side: the segments \<open>T\<close> get their numbers and leave the queue.\<close>

definition sends :: "kcp_config \<Rightarrow> payload list \<Rightarrow> KCP \<Rightarrow> KCP \<Rightarrow> bool" where
  "sends cfg S k k' \<longleftrightarrow> (\<exists>T. kinv cfg (S @ T) k' \<and> map pay (rb_abs (k_snd_queue k)) = T @ map pay (rb_abs (k_snd_queue k')) \<and>
     settings k' = settings k)"

lemma sends_same: "kinv cfg S k' \<Longrightarrow> k_snd_queue k' = k_snd_queue k \<Longrightarrow> settings k' = settings k \<Longrightarrow> sends cfg S k k'"
  unfolding sends_def by (intro exI [of _ "[]"]) simp

lemma flush_sends:
  assumes "kinv cfg S k"
  shows "\<exists>k' r. KCP_flush cfg clk ackOnly k = Some (k', r) \<and> sends cfg S k k' \<and> rside k' = rside k"
  using KCP_flush_ok [OF assms, of clk ackOnly] unfolding sends_def by blast

text \<open>The state up to parts that the invariant does not see.\<close>

definition alike :: "KCP \<Rightarrow> KCP \<Rightarrow> bool" where
  "alike k k' \<longleftrightarrow> settings k' = settings k \<and> rside k' = rside k \<and> sside k' = sside k \<and> k_buffer k' = k_buffer k \<and> k_out k' = k_out k"

lemma kinv_alike: "kinv cfg S k \<Longrightarrow> alike k k' \<Longrightarrow> kinv cfg S k'"
  using snd_ok_cong [of S k k'] rcv_wf_cong [of k k'] by (simp add: alike_def kinv_def buffer_ok_def out_ok_def settings_def)

lemma alike_trans: "alike k k1 \<Longrightarrow> alike k1 k2 \<Longrightarrow> alike k k2"
  by (simp add: alike_def)

lemma update_ack_alike: "alike k (update_ack rtt k)"
  by (simp add: update_ack_def alike_def parts Let_def)

lemma input_rtt_alike: "alike (iv_k v) (input_rtt clk regular v)"
  using alike_trans [OF _ update_ack_alike, of "iv_k v" "snd (currentMs clk (iv_k v))"]
  by (auto simp: input_rtt_def Let_def currentMs_def alike_def parts)

lemma input_cwnd_alike:
  assumes "0 < unat (k_mss k)"
  shows "\<exists>k'. input_cwnd una k = Some k' \<and> alike k k'"
proof -
  have "(if k_incr k < k_mss k then k_mss k else k_incr k) \<noteq> 0"
    using assms by (auto simp: word_less_nat_alt unat_eq_0)
  then show ?thesis
    unfolding input_cwnd_def Let_def by (auto simp: alike_def parts)
qed

lemma KCP_Input_ok:
  assumes "kinv cfg S k"
  shows "\<exists>k' r. KCP_Input cfg clk data regular nd k = Some (k', r) \<and> sends cfg S k k' \<and>
    (\<forall>P p. rcv_ok P p k \<longrightarrow> sound cfg (k_conv k) P data \<longrightarrow> rcv_ok P p k')"
proof (cases "length data < IKCP_OVERHEAD cfg")
  case True
  then show ?thesis
    using assms by (simp add: KCP_Input_def Let_def sends_same)
next
  case long: False
  let ?v = "\<lparr>iv_k = k, iv_latest = 0, iv_updateRTT = False, iv_inSegs = 0, iv_flush = False\<rparr>"
  obtain v e where l: "input_loop cfg regular data ?v = Some (v, e)" "seg_post cfg S k (iv_k v)"
    "\<forall>P p. rcv_ok P p k \<longrightarrow> sound cfg (k_conv k) P data \<longrightarrow> rcv_ok P p (iv_k v)"
    using input_loop_ok [of cfg S ?v regular data] assms by auto
  have post: "kinv cfg S (iv_k v)" "k_snd_queue (iv_k v) = k_snd_queue k" "settings (iv_k v) = settings k"
    using l(2) by (auto simp: seg_post_def snd_same_def)
  show ?thesis
  proof (cases e)
    case (Some c)
    then show ?thesis
      using long l post by (simp add: KCP_Input_def Let_def sends_same)
  next
    case None
    define k1 where "k1 = stat (\<lambda>s. s\<lparr>InSegs := InSegs s + iv_inSegs v\<rparr>) (input_rtt clk regular v)"
    have a1: "alike (iv_k v) k1"
      by (rule alike_trans [OF input_rtt_alike [of v clk regular]]) (simp add: k1_def stat_def alike_def parts)
    have "0 < unat (k_mss k1)"
      using kinv_alike [OF post(1) a1] by (simp add: kinv_def buffer_ok_def)
    then obtain k2 where k2: "input_cwnd (k_snd_una k) k1 = Some k2" "alike (iv_k v) k2"
      using input_cwnd_alike alike_trans [OF a1] by blast
    have i2: "kinv cfg S k2" "k_snd_queue k2 = k_snd_queue k" "settings k2 = settings k" "rside k2 = rside (iv_k v)"
      using kinv_alike [OF post(1) k2(2)] k2(2) post(2,3) by (auto simp: alike_def sside_def)
    let ?last = "if iv_flush v then map_option fst (KCP_flush cfg clk False k2)
      else if length (k_acklist k2) \<ge> unat (k_mtu k2 div of_nat (IKCP_OVERHEAD cfg)) then map_option fst (KCP_flush cfg clk True k2)
      else if nd \<and> k_acklist k2 \<noteq> [] then map_option fst (KCP_flush cfg clk True k2) else Some k2"
    have "\<exists>k3. map_option fst (KCP_flush cfg clk b k2) = Some k3 \<and> sends cfg S k2 k3 \<and> rside k3 = rside k2" for b
      using flush_sends [OF i2(1), of clk b] by auto
    then have "\<exists>k3. ?last = Some k3 \<and> sends cfg S k2 k3 \<and> rside k3 = rside k2"
      using sends_same [OF i2(1) refl refl] by (simp split: if_splits)
    then obtain k3 where k3: "?last = Some k3" "sends cfg S k2 k3" "rside k3 = rside k2"
      by blast
    have "KCP_Input cfg clk data regular nd k = Some (k3, 0)"
      using long l(1) None k2(1) k3(1) by (simp add: KCP_Input_def Let_def flip: k1_def split del: if_split)
    moreover have "sends cfg S k k3"
      using k3(2) i2(2,3) by (simp add: sends_def)
    moreover have "rcv_ok P p k3" if "rcv_ok P p k" "sound cfg (k_conv k) P data" for P p
      using l(3) that rcv_ok_cong [of P p "iv_k v" k3] k3(3) i2(4) by simp
    ultimately show ?thesis
      by blast
  qed
qed

lemma update_schedule_alike: "alike k (fst (update_schedule current k))"
  by (simp add: update_schedule_def Let_def alike_def parts)

lemma Update_ok:
  assumes "kinv cfg S k"
  shows "\<exists>k'. Update cfg clk k = Some k' \<and> sends cfg S k k' \<and> rside k' = rside k"
proof -
  have H: "\<exists>k'. Some k1 = Some k' \<and> sends cfg S k k' \<and> rside k' = rside k" if "alike k k1" for k1
    using that kinv_alike [OF assms that] sends_same [of cfg S k1 k] by (auto simp: alike_def sside_def)
  have G: "\<exists>k'. map_option fst (KCP_flush cfg clk False k1) = Some k' \<and> sends cfg S k k' \<and> rside k' = rside k"
    if a: "alike k k1" for k1
  proof -
    obtain k' r where "KCP_flush cfg clk False k1 = Some (k', r)" "sends cfg S k1 k'" "rside k' = rside k1"
      using flush_sends [OF kinv_alike [OF assms a]] by blast
    then show ?thesis
      using a by (auto simp: alike_def sside_def sends_def)
  qed
  let ?k = "k\<lparr>k_reads := k_reads k + 1\<rparr>"
  obtain k1 due where u: "update_schedule (clk (k_reads k)) ?k = (k1, due)"
    by (cases "update_schedule (clk (k_reads k)) ?k")
  then have "alike k k1"
    using update_schedule_alike [of ?k "clk (k_reads k)"] by (simp add: alike_def parts)
  moreover have "Update cfg clk k = (if due then map_option fst (KCP_flush cfg clk False k1) else Some k1)"
    using u by (simp add: Update_def currentMs_def)
  ultimately show ?thesis
    using G H by (cases due) simp_all
qed

subsection \<open>Messages as segments\<close>

fun frags :: "nat \<Rightarrow> nat \<Rightarrow> bytes \<Rightarrow> payload list" where
  "frags mss 0 m = []"
| "frags mss (Suc n) m = (of_nat n, take mss m) # frags mss n (drop mss m)"

definition frag_count :: "nat \<Rightarrow> bytes \<Rightarrow> nat" where
  "frag_count mss m = (length m - 1) div mss + 1"

definition msg_frags :: "nat \<Rightarrow> bytes \<Rightarrow> payload list" where
  "msg_frags mss m = frags mss (frag_count mss m) m"

lemma length_frags [simp]: "length (frags mss n m) = n"
  by (induction n arbitrary: m) auto

lemma length_msg_frags [simp]: "length (msg_frags mss m) = frag_count mss m"
  by (simp add: msg_frags_def)

lemma frag_count_pos [simp]: "0 < frag_count mss m"
  by (simp add: frag_count_def)

lemma frag_count_le: "m \<noteq> [] \<Longrightarrow> frag_count mss m \<le> length m"
  using div_le_dividend [of "length m - 1" mss] by (cases m) (auto simp: frag_count_def)

lemma concat_frags: "length m \<le> n * mss \<Longrightarrow> concat (map snd (frags mss n m)) = m"
proof (induction n arbitrary: m)
  case (Suc n)
  then show ?case
    using Suc.IH [of "drop mss m"] by simp
qed simp

lemma concat_msg_frags: "0 < mss \<Longrightarrow> concat (map snd (msg_frags mss m)) = m"
proof -
  assume "0 < mss"
  have "length m \<le> frag_count mss m * mss"
  proof (cases m)
    case (Cons x xs)
    have "length m - 1 < frag_count mss m * mss"
      unfolding frag_count_def using \<open>0 < mss\<close> by (simp add: div_less_iff_less_mult dividend_less_div_times)
    then show ?thesis
      by (simp add: Cons)
  qed simp
  then show ?thesis
    unfolding msg_frags_def by (rule concat_frags)
qed

text \<open>Reassembly: as soon as all fragments of the first message are there, the message is what is read.\<close>

lemma msg_segs_frags:
  assumes "n \<le> 256" "n \<noteq> 0" "map pay xs = take (length xs) (frags mss n m @ rest)" "n \<le> length xs"
  shows "msg_segs xs = take n xs"
  using assms
proof (induction n arbitrary: xs m)
  case (Suc n)
  obtain x ys where xs: "xs = x # ys"
    using Suc.prems(4) by (cases xs) auto
  have "pay x = (of_nat n, take mss m)" and f2: "map pay ys = take (length ys) (frags mss n (drop mss m) @ rest)"
    using Suc.prems(3) by (simp_all add: xs)
  then have f: "seg_frg x = of_nat n"
    by (simp add: pay_def)
  show ?case
  proof (cases "n = 0")
    case False
    have "unat (of_nat n :: u8) = n"
      using Suc.prems(1) by (simp add: unat_of_nat)
    then have "seg_frg x \<noteq> 0"
      using f False by (metis unat_0)
    moreover have "msg_segs ys = take n ys"
      using Suc.IH [of ys "drop mss m"] Suc.prems(1,4) False f2 xs by simp
    ultimately show ?thesis
      by (simp add: xs)
  qed (use f in \<open>simp add: xs\<close>)
qed simp

lemma msg_data_frags:
  assumes "0 < mss" "frag_count mss m \<le> 255" "map pay xs = take (length xs) (msg_frags mss m @ rest)" "frag_count mss m \<le> length xs"
  shows "msg_data xs = m" "length (msg_segs xs) = frag_count mss m"
proof -
  have s: "msg_segs xs = take (frag_count mss m) xs"
    using assms(2-4) by (intro msg_segs_frags [where mss = mss and m = m and rest = rest]) (simp_all add: msg_frags_def)
  have "map pay (take (frag_count mss m) xs) = take (frag_count mss m) (map pay xs)"
    by (simp add: take_map)
  also have "\<dots> = msg_frags mss m"
    unfolding assms(3) using assms(4) by (simp add: min_def)
  finally have "map snd (map pay (take (frag_count mss m) xs)) = map snd (msg_frags mss m)"
    by (rule arg_cong)
  then have "map seg_data (take (frag_count mss m) xs) = map snd (msg_frags mss m)"
    by (simp add: comp_def pay_def)
  then show "msg_data xs = m" "length (msg_segs xs) = frag_count mss m"
    using concat_msg_frags [OF assms(1)] assms(4) by (simp_all add: msg_data_def s)
qed

text \<open>When \<^verbatim>\<open>PeekSize\<close> finds a message at the head of the queue, all of its fragments are there.\<close>

lemma message_complete:
  assumes "frag_count mss m \<le> 255" "map pay xs = take (length xs) (msg_frags mss m @ rest)" "xs \<noteq> []"
    and "seg_frg (hd xs) \<noteq> 0 \<longrightarrow> unat (seg_frg (hd xs) + 1) \<le> length xs"
  shows "frag_count mss m \<le> length xs"
proof -
  obtain n where n: "frag_count mss m = Suc n" "n < 255"
    using assms(1) by (cases "frag_count mss m") (auto simp: frag_count_def)
  obtain x ys where xs: "xs = x # ys"
    using assms(3) by (cases xs) auto
  have f: "seg_frg x = of_nat n"
    using assms(2) by (simp add: xs msg_frags_def n(1) pay_def)
  have "unat (of_nat n + 1 :: u8) = Suc n"
    using n(2) unat_of_nat [of "Suc n", where 'a = 8] by (simp add: add.commute)
  then have "Suc n \<le> length xs"
    using assms(4) f xs n by (cases "n = 0") auto
  then show ?thesis
    by (simp add: n(1))
qed

lemma send_frags_ok:
  assumes "rb_wf q"
  shows "\<exists>q'. send_frags mss stream n m q = Some q' \<and> rb_wf q' \<and> (\<exists>xs. rb_abs q' = rb_abs q @ xs \<and>
    (\<forall>s \<in> set xs. length (seg_data s) \<le> mss \<and> seg_acked s = 0) \<and> (\<not> stream \<longrightarrow> map pay xs = frags mss n m))"
  using assms
proof (induction n arbitrary: m q)
  case (Suc n)
  let ?size = "if length m > mss then mss else length m"
  let ?x = "zero_seg\<lparr>seg_data := take ?size m, seg_frg := (if stream then 0 else of_nat n)\<rparr>"
  obtain q1 where q1: "rb_Push zero_seg ?x q = Some q1" "rb_wf q1" "rb_abs q1 = rb_abs q @ [?x]"
    using rb_Push_ok [OF Suc.prems] by blast
  obtain q' xs where q': "send_frags mss stream n (drop ?size m) q1 = Some q'" "rb_wf q'" "rb_abs q' = rb_abs q1 @ xs"
    "\<forall>s \<in> set xs. length (seg_data s) \<le> mss \<and> seg_acked s = 0" "\<not> stream \<longrightarrow> map pay xs = frags mss n (drop ?size m)"
    using Suc.IH [OF q1(2)] by blast
  have x: "length (seg_data ?x) \<le> mss" "seg_acked ?x = 0" "\<not> stream \<Longrightarrow> pay ?x = (of_nat n, take mss m)" "drop ?size m = drop mss m"
    by (simp_all add: zero_seg_def pay_def)
  have "send_frags mss stream (Suc n) m q = Some q'"
    using q1(1) q'(1) by (simp add: Let_def)
  moreover have "\<forall>s \<in> set (?x # xs). length (seg_data s) \<le> mss \<and> seg_acked s = 0"
    using x(1,2) q'(4) by simp
  moreover have "\<not> stream \<longrightarrow> map pay (?x # xs) = frags mss (Suc n) m"
    using x(3,4) q'(5) by simp
  moreover have "rb_abs q' = rb_abs q @ ?x # xs"
    using q1(3) q'(3) by simp
  ultimately show ?case
    using q'(2) by blast
qed simp

text \<open>What \<^verbatim>\<open>Send\<close> changes: only its queue grows.\<close>

definition queued :: "KCP \<Rightarrow> KCP \<Rightarrow> bool" where
  "queued k k' \<longleftrightarrow> (\<exists>q. k' = k\<lparr>k_snd_queue := q\<rparr> \<and> rb_wf q \<and> (\<forall>s \<in> set (rb_abs q). length (seg_data s) \<le> unat (k_mss k) \<and> seg_acked s = 0))"

lemma kinv_queued: "kinv cfg S k \<Longrightarrow> queued k k' \<Longrightarrow> kinv cfg S k' \<and> settings k' = settings k \<and> rside k' = rside k \<and> k_out k' = k_out k"
  by (auto simp: queued_def kinv_defs parts)

lemma queued_refl: "kinv cfg S k \<Longrightarrow> queued k k"
  unfolding queued_def by (rule exI [of _ "k_snd_queue k"]) (simp add: kinv_def snd_ok_def)

lemma queued_trans: "queued k k1 \<Longrightarrow> queued k1 k2 \<Longrightarrow> queued k k2"
  unfolding queued_def by (elim exE conjE) (auto intro!: exI)

lemma send_extend_ok:
  assumes "kinv cfg S k"
  shows "\<exists>k' m'. send_extend m k = Some (k', m') \<and> queued k k'"
proof -
  have wf: "rb_wf (k_snd_queue k)" "unat (k_mss k) \<le> mtuLimit"
    and q: "\<And>s. s \<in> set (rb_abs (k_snd_queue k)) \<Longrightarrow> length (seg_data s) \<le> unat (k_mss k) \<and> seg_acked s = 0"
    using assms by (auto simp: kinv_def snd_ok_def buffer_ok_def)
  show ?thesis
  proof (cases "rb_abs (k_snd_queue k) = [] \<or> unat (k_mss k) \<le> length (seg_data (last (rb_abs (k_snd_queue k))))")
    case True
    then show ?thesis
      using queued_refl [OF assms] wf(1) by (auto simp: send_extend_def rb_Last_ok)
  next
    case False
    let ?s = "last (rb_abs (k_snd_queue k))"
    let ?n = "if length m < unat (k_mss k) - length (seg_data ?s) then length m else unat (k_mss k) - length (seg_data ?s)"
    let ?t = "?s\<lparr>seg_data := seg_data ?s @ take ?n m\<rparr>"
    let ?q = "rb_set_Last ?t (k_snd_queue k)"
    have ne: "rb_abs (k_snd_queue k) \<noteq> []" "length (seg_data ?s) < unat (k_mss k)"
      using False by auto
    have "length (seg_data ?s) + ?n \<le> mtuLimit"
      using ne(2) wf(2) by auto
    then have "send_extend m k = Some (k\<lparr>k_snd_queue := ?q\<rparr>, drop ?n m)"
      using ne wf(1) by (simp add: send_extend_def rb_Last_ok Let_def)
    moreover have "rb_wf ?q" "rb_abs ?q = butlast (rb_abs (k_snd_queue k)) @ [?t]"
      using rb_set_Last_ok [OF wf(1) ne(1)] by auto
    moreover have "length (seg_data ?t) \<le> unat (k_mss k)" "seg_acked ?t = 0"
      using ne(2) q [OF last_in_set [OF ne(1)]] by auto
    ultimately show ?thesis
      using q in_set_butlastD by (fastforce simp: queued_def)
  qed
qed

lemma KCP_Send_ok:
  assumes "kinv cfg S k"
  shows "\<exists>k' r. KCP_Send m k = Some (k', r) \<and> kinv cfg S k' \<and> settings k' = settings k \<and> rside k' = rside k \<and> k_out k' = k_out k \<and>
    (k_stream k = 0 \<longrightarrow> (if r = 0 then m \<noteq> [] \<and> frag_count (unat (k_mss k)) m \<le> 255 \<and>
        map pay (rb_abs (k_snd_queue k')) = map pay (rb_abs (k_snd_queue k)) @ msg_frags (unat (k_mss k)) m
      else k_snd_queue k' = k_snd_queue k))"
proof (cases "m = []")
  case True
  then show ?thesis
    using assms by (simp add: KCP_Send_def)
next
  case False
  obtain k1 m1 where 1: "(if k_stream k \<noteq> 0 then send_extend m k else Some (k, m)) = Some (k1, m1)" "queued k k1"
    "k_stream k = 0 \<Longrightarrow> k1 = k \<and> m1 = m"
    using send_extend_ok [OF assms, of m] queued_refl [OF assms] by (cases "k_stream k = 0") auto
  note i1 = kinv_queued [OF assms 1(2)]
  have mss: "k_mss k1 \<noteq> 0" "k_mss k1 = k_mss k" "k_stream k1 = k_stream k"
    using i1 by (auto simp: kinv_def buffer_ok_def settings_def)
  let ?n = "(length m1 - 1) div unat (k_mss k1) + 1"
  have wf: "rb_wf (k_snd_queue k1)"
    using i1 by (simp add: kinv_def snd_ok_def)
  obtain q xs where q: "send_frags (unat (k_mss k1)) (k_stream k1 \<noteq> 0) ?n m1 (k_snd_queue k1) = Some q" "rb_wf q"
    "rb_abs q = rb_abs (k_snd_queue k1) @ xs" "\<forall>s \<in> set xs. length (seg_data s) \<le> unat (k_mss k1) \<and> seg_acked s = 0"
    "k_stream k1 = 0 \<longrightarrow> map pay xs = frags (unat (k_mss k1)) ?n m1"
    using send_frags_ok [OF wf, of "unat (k_mss k1)" "k_stream k1 \<noteq> 0" ?n m1] by blast
  let ?k2 = "k1\<lparr>k_snd_queue := q\<rparr>"
  have "queued k1 ?k2"
    unfolding queued_def by (rule exI [of _ q]) (use q(2-4) i1 in \<open>auto simp: kinv_def snd_ok_def\<close>)
  note i2 = kinv_queued [OF conjunct1 [OF i1] this]
  have send: "KCP_Send m k = (if m1 = [] then Some (k1, 0) else if k_stream k1 = 0 \<and> ?n > 255 then Some (k1, -2) else Some (?k2, 0))"
    using False 1(1) mss q(1) by (simp add: KCP_Send_def Let_def)
  consider "m1 = []" | "m1 \<noteq> []" "k_stream k1 = 0 \<and> ?n > 255" | "m1 \<noteq> []" "\<not> (k_stream k1 = 0 \<and> ?n > 255)"
    by blast
  then show ?thesis
  proof cases
    case 1
    then show ?thesis
      using send i1 \<open>k_stream k = 0 \<Longrightarrow> k1 = k \<and> m1 = m\<close> False by auto
  next
    case 2
    then show ?thesis
      using send i1 \<open>k_stream k = 0 \<Longrightarrow> k1 = k \<and> m1 = m\<close> by auto
  next
    case 3
    then have "KCP_Send m k = Some (?k2, 0)"
      unfolding send by simp
    moreover have "k_stream k = 0 \<Longrightarrow> ?n = frag_count (unat (k_mss k)) m"
      using \<open>k_stream k = 0 \<Longrightarrow> k1 = k \<and> m1 = m\<close> by (simp add: frag_count_def)
    ultimately show ?thesis
      using i1 i2 3 False mss q(3,5) \<open>k_stream k = 0 \<Longrightarrow> k1 = k \<and> m1 = m\<close>
      by (intro exI [of _ ?k2] exI [of _ 0]) (auto simp: msg_frags_def)
  qed
qed

end
