(* ===== verification/Kcp_Runs.thy ===== *)
theory Kcp_Runs
  imports Kcp_Delivery
begin

text \<open>
  Runs of a KCP connection, and of two connections over a network that loses, repeats and
  reorders packets. The settings are those a session makes (\<^verbatim>\<open>src/protocol/kcp/session.go\<close>):
  the MTU and the reserved bytes are set before traffic, the rest at any time.
\<close>

subsection \<open>The calls of a session\<close>

definition Session_SetMtu :: "kcp_config \<Rightarrow> int \<Rightarrow> KCP \<Rightarrow> KCP \<times> bool" where
  "Session_SetMtu cfg mtu k =
     (if mtu > int mtuLimit then (k, False) else case SetMtu cfg mtu k of (k', r) \<Rightarrow> (k', r = 0))"

definition SetStreamMode :: "bool \<Rightarrow> KCP \<Rightarrow> KCP" where
  "SetStreamMode enable k = (if enable then k\<lparr>k_stream := 1\<rparr> else k\<lparr>k_stream := 0\<rparr>)"

definition kcp_start :: "kcp_config \<Rightarrow> u64 \<Rightarrow> int \<Rightarrow> int \<Rightarrow> KCP" where
  "kcp_start cfg conv mtu n = fst (ReserveBytes cfg n (fst (Session_SetMtu cfg mtu (fst (NewKCP cfg conv)))))"

datatype kcp_op =
    Op_Send bytes
  | Op_Recv nat
  | Op_Input bytes bool bool
  | Op_flush bool
  | Op_Update
  | Op_Check
  | Op_NoDelay int int int int
  | Op_WndSize int int
  | Op_SetStreamMode bool
  | Op_ReleaseTX

text \<open>What the application sees of an operation: the messages \<^verbatim>\<open>Send\<close> accepted and the messages \<^verbatim>\<open>Recv\<close> returned.\<close>

definition kcp_step :: "kcp_config \<Rightarrow> (nat \<Rightarrow> u32) \<Rightarrow> kcp_op \<Rightarrow> KCP \<Rightarrow> (KCP \<times> bytes list \<times> bytes list) option" where
  "kcp_step cfg clk op k =
     (case op of
        Op_Send m \<Rightarrow> map_option (\<lambda>(k', r). (k', if r = 0 then [m] else [], [])) (KCP_Send m k)
      | Op_Recv l \<Rightarrow> map_option (\<lambda>(k', n, out). (k', [], if n \<ge> 0 then [out] else [])) (KCP_Recv l k)
      | Op_Input data regular ackNoDelay \<Rightarrow> map_option (\<lambda>(k', _). (k', [], [])) (KCP_Input cfg clk data regular ackNoDelay k)
      | Op_flush ackOnly \<Rightarrow> map_option (\<lambda>(k', _). (k', [], [])) (KCP_flush cfg clk ackOnly k)
      | Op_Update \<Rightarrow> map_option (\<lambda>k'. (k', [], [])) (Update cfg clk k)
      | Op_Check \<Rightarrow> map_option (\<lambda>(k', _). (k', [], [])) (Check clk k)
      | Op_NoDelay nodelay interval resend nc \<Rightarrow> Some (NoDelay nodelay interval resend nc k, [], [])
      | Op_WndSize sndwnd rcvwnd \<Rightarrow> Some (WndSize sndwnd rcvwnd k, [], [])
      | Op_SetStreamMode enable \<Rightarrow> Some (SetStreamMode enable k, [], [])
      | Op_ReleaseTX \<Rightarrow> map_option (\<lambda>k'. (k', [], [])) (ReleaseTX k))"

fun kcp_run :: "kcp_config \<Rightarrow> (nat \<Rightarrow> u32) \<Rightarrow> kcp_op list \<Rightarrow> KCP \<Rightarrow> KCP option" where
  "kcp_run cfg clk [] k = Some k"
| "kcp_run cfg clk (op # ops) k =
     (case kcp_step cfg clk op k of None \<Rightarrow> None | Some (k', _) \<Rightarrow> kcp_run cfg clk ops k')"

subsection \<open>The invariant holds at the start and is kept\<close>

lemma overhead_bound: "IKCP_OVERHEAD cfg \<le> 32"
  by (simp add: IKCP_OVERHEAD_def IKCP_BASE_OVERHEAD_def IKCP_BYTE_CHECK_OVERHEAD_def)

text \<open>A connection without traffic: only its settings matter.\<close>

definition idle :: "kcp_config \<Rightarrow> u64 \<Rightarrow> KCP \<Rightarrow> bool" where
  "idle cfg conv k \<longleftrightarrow> buffer_ok cfg k \<and> unat (k_mtu k) \<le> mtuLimit \<and> snd_ok [] k \<and> rcv_wf k \<and> k_out k = [] \<and> rcv_ok [] 0 k \<and>
     rb_abs (k_snd_queue k) = [] \<and> rb_abs (k_snd_buf k) = [] \<and> k_stream k = 0 \<and> k_conv k = conv"

lemma idle_NewKCP: "idle cfg conv (fst (NewKCP cfg conv))"
proof -
  have "unat (IKCP_MTU_DEF - of_nat (IKCP_OVERHEAD cfg)) = 1400 - IKCP_OVERHEAD cfg"
    using overhead_bound [of cfg] by (subst unat_sub) (auto simp: IKCP_MTU_DEF_def word_le_nat_alt unat_u32_of_nat)
  then show ?thesis
    using overhead_bound [of cfg]
    by (simp add: idle_def NewKCP_def buffer_ok_def snd_ok_def rcv_wf_def rcv_ok_def mtuLimit_def IKCP_MTU_DEF_def)
qed

lemma unat_diff_u32:
  assumes "i + j < m" "m \<le> mtuLimit"
  shows "unat (of_nat m - of_nat i - of_nat j :: u32) = m - i - j" "unat (of_nat m :: u32) = m"
proof -
  have "(of_nat m - of_nat i - of_nat j :: u32) = of_nat (m - i - j)"
    using assms(1) by (simp add: of_nat_diff)
  then show "unat (of_nat m - of_nat i - of_nat j :: u32) = m - i - j" "unat (of_nat m :: u32) = m"
    using assms(2) unat_u32_of_nat [of m] unat_u32_of_nat [of "m - i - j"] by (simp_all add: mtuLimit_def)
qed

lemma idle_cong:
  assumes "idle cfg conv k" "buffer_ok cfg k'" "unat (k_mtu k') \<le> mtuLimit"
    and "rside k' = rside k" "sside k' = sside k" "k_out k' = k_out k" "k_stream k' = k_stream k" "k_conv k' = k_conv k"
  shows "idle cfg conv k'"
  using assms rcv_wf_cong [of k k'] rcv_ok_cong [of "[]" 0 k k'] by (auto simp: idle_def snd_ok_def sside_def)

lemma idle_SetMtu:
  assumes "idle cfg conv k"
  shows "idle cfg conv (fst (Session_SetMtu cfg mtu k))"
proof (cases "mtu > int mtuLimit \<or> mtu \<le> int (IKCP_OVERHEAD cfg) \<or> int (k_reserved k) \<ge> mtu - int (IKCP_OVERHEAD cfg)")
  case True
  then show ?thesis
    using assms by (auto simp: Session_SetMtu_def SetMtu_def)
next
  case False
  define m where "m = nat mtu"
  have m: "mtu = int m" "m \<le> mtuLimit" "IKCP_OVERHEAD cfg + k_reserved k < m"
    using False by (auto simp: m_def)
  have "idle cfg conv (k\<lparr>k_mtu := of_int mtu, k_mss := of_int mtu - of_nat (IKCP_OVERHEAD cfg) - of_nat (k_reserved k),
      k_buffer := replicate (nat mtu) 0\<rparr>)"
    using m unat_diff_u32 [OF m(3,2)] by (intro idle_cong [OF assms]) (simp_all add: buffer_ok_def parts)
  then show ?thesis
    using False by (simp add: Session_SetMtu_def SetMtu_def)
qed

lemma idle_ReserveBytes:
  assumes "idle cfg conv k"
  shows "idle cfg conv (fst (ReserveBytes cfg n k))"
proof (cases "n < 0 \<or> n \<ge> uint (k_mtu k) - int (IKCP_OVERHEAD cfg)")
  case True
  then show ?thesis
    using assms by (simp add: ReserveBytes_def)
next
  case False
  define m j where "m = unat (k_mtu k)" and "j = nat n"
  have u: "uint (k_mtu k) = int m" "n = int j"
    using False by (simp_all add: m_def j_def)
  then have "IKCP_OVERHEAD cfg + j < m"
    using False by linarith
  then have m: "k_mtu k = of_nat m" "m \<le> mtuLimit" "n = int j" "IKCP_OVERHEAD cfg + j < m"
    using assms u(2) by (simp_all add: m_def idle_def)
  then have "idle cfg conv (k\<lparr>k_reserved := j, k_mss := k_mtu k - of_nat (IKCP_OVERHEAD cfg) - of_int n\<rparr>)"
    using assms unat_diff_u32 [OF m(4,2)]
    by (intro idle_cong [OF assms]) (simp_all add: buffer_ok_def parts, simp_all add: idle_def buffer_ok_def)
  then show ?thesis
    using False by (simp add: ReserveBytes_def j_def)
qed

lemma kcp_start_idle: "idle cfg conv (kcp_start cfg conv mtu n)"
  unfolding kcp_start_def by (intro idle_ReserveBytes idle_SetMtu idle_NewKCP)

lemma idle_kinv: "idle cfg conv k \<Longrightarrow> kinv cfg [] k"
  by (simp add: idle_def kinv_def out_ok_def)

lemma visit_list_total: "(\<And>x s. f x s \<noteq> None) \<Longrightarrow> visit_list f xs s \<noteq> None"
proof (induction xs arbitrary: s)
  case (Cons x xs)
  obtain y s' go where "f x s = Some (y, s', go)"
    using Cons.prems by (metis not_None_eq surj_pair)
  moreover obtain zs s2 go2 where "visit_list f xs s' = Some (zs, s2, go2)"
    using Cons.IH [OF Cons.prems] by (metis not_None_eq surj_pair)
  ultimately show ?case
    by (cases go) auto
qed simp

lemma rb_ForEach_total:
  assumes "rb_wf r" "\<And>x s. f x s \<noteq> None"
  shows "\<exists>r' s'. rb_ForEach f r s = Some (r', s') \<and> rb_wf r'"
proof -
  obtain zs s' go where "visit_list f (rb_abs r) s = Some (zs, s', go)"
    using visit_list_total [of f "rb_abs r" s, OF assms(2)] by (metis not_None_eq surj_pair)
  then show ?thesis
    using rb_ForEach_Some [OF assms(1), of f s zs s' go] by blast
qed

lemma Check_ok:
  assumes "kinv cfg S k"
  shows "\<exists>k' r. Check clk k = Some (k', r) \<and> alike k k'"
proof -
  have "\<exists>r' s'. rb_ForEach (check_visit c) (k_snd_buf k) s = Some (r', s') \<and> rb_wf r'" for c s
    using assms by (intro rb_ForEach_total) (auto simp: kinv_def snd_ok_def check_visit_def Let_def split: prod.split)
  then obtain r' tm rd where "rb_ForEach (check_visit (clk (k_reads k))) (k_snd_buf k) (0x7fffffff, False) = Some (r', tm, rd)"
    by (metis surj_pair)
  then show ?thesis
    by (auto simp: Check_def currentMs_def Let_def alike_def parts)
qed

lemma ReleaseTX_ok:
  assumes "kinv cfg S k"
  shows "\<exists>k'. ReleaseTX k = Some k' \<and> kinv cfg S k' \<and> settings k' = settings k"
proof -
  let ?free = "\<lambda>seg u. Some (seg\<lparr>seg_data := []\<rparr>, (), True)"
  have e: "\<exists>q' u. rb_ForEach ?free q () = Some (q', u) \<and> rb_wf q'" if "rb_wf q" for q
    using that by (rule rb_ForEach_total) simp
  obtain q b where 1: "rb_ForEach ?free (k_snd_queue k) () = Some (q, ())" "rb_wf q"
    "rb_ForEach ?free (k_snd_buf k) () = Some (b, ())" "rb_wf b"
    using e [of "k_snd_queue k"] e [of "k_snd_buf k"] assms by (auto simp: kinv_def snd_ok_def)
  obtain q' b' where "rb_Clear zero_seg q = Some q'" "rb_wf q'" "rb_abs q' = []" "rb_Clear zero_seg b = Some b'" "rb_wf b'" "rb_abs b' = []"
    using rb_Clear_ok [OF 1(2)] rb_Clear_ok [OF 1(4)] by blast
  then show ?thesis
    using 1 assms by (simp add: ReleaseTX_def kinv_defs settings_def)
qed

lemma settings_alike: "alike k (NoDelay a b c d k)" "alike k (WndSize i j k)"
  by (simp_all add: NoDelay_def WndSize_def Let_def alike_def parts)

definition fixed :: "KCP \<Rightarrow> u64 \<times> u32 \<times> u32 \<times> nat" where
  "fixed k = (k_conv k, k_mtu k, k_mss k, k_reserved k)"

lemma fixed_settings: "settings k' = settings k \<Longrightarrow> fixed k' = fixed k \<and> k_stream k' = k_stream k"
  by (simp add: settings_def fixed_def)

lemma sends_alike: "kinv cfg S k \<Longrightarrow> alike k k' \<Longrightarrow> sends cfg S k k'"
  using kinv_alike [of cfg S k k'] sends_same [of cfg S k' k] by (auto simp: alike_def sside_def)

text \<open>Every operation succeeds, keeps the invariant, and, unless it discards data on purpose, numbers what was accepted in order.\<close>

lemma kcp_step_ok:
  assumes "kinv cfg S k"
  shows "\<exists>k' acc msgs T. kcp_step cfg clk op k = Some (k', acc, msgs) \<and> kinv cfg (S @ T) k' \<and> fixed k' = fixed k \<and>
    (k_stream k = 0 \<longrightarrow> op \<noteq> Op_SetStreamMode True \<longrightarrow> op \<noteq> Op_ReleaseTX \<longrightarrow>
      k_stream k' = 0 \<and> (\<forall>m \<in> set acc. m \<noteq> [] \<and> frag_count (unat (k_mss k)) m \<le> 255) \<and>
      map pay (rb_abs (k_snd_queue k)) @ concat (map (msg_frags (unat (k_mss k))) acc) = T @ map pay (rb_abs (k_snd_queue k')))"
    (is "\<exists>k' acc msgs T. ?Q k' acc msgs T")
proof -
  have sent: "\<exists>acc msgs T. ?Q k' acc msgs T" if s: "kcp_step cfg clk op k = Some (k', [], msgs)" "sends cfg S k k'" for k' msgs
  proof -
    obtain T where "kinv cfg (S @ T) k'" "map pay (rb_abs (k_snd_queue k)) = T @ map pay (rb_abs (k_snd_queue k'))" "settings k' = settings k"
      using s(2) by (auto simp: sends_def)
    then show ?thesis
      using s(1) fixed_settings [of k' k] by (intro exI [of _ "[]"] exI [of _ msgs] exI [of _ T]) simp
  qed
  show ?thesis
  proof (cases op)
    case (Op_Send m)
    obtain k' r where r: "KCP_Send m k = Some (k', r)" "kinv cfg S k'" "settings k' = settings k" and
      q: "k_stream k = 0 \<longrightarrow> (if r = 0 then m \<noteq> [] \<and> frag_count (unat (k_mss k)) m \<le> 255 \<and>
        map pay (rb_abs (k_snd_queue k')) = map pay (rb_abs (k_snd_queue k)) @ msg_frags (unat (k_mss k)) m else k_snd_queue k' = k_snd_queue k)"
      using KCP_Send_ok [OF assms, of m] by blast
    have "?Q k' (if r = 0 then [m] else []) [] []"
      using r q fixed_settings [OF r(3)] by (simp add: Op_Send kcp_step_def)
    then show ?thesis by blast
  next
    case (Op_Recv l)
    obtain k' n out where "KCP_Recv l k = Some (k', n, out)" "kinv cfg S k'" "settings k' = settings k" "sside k' = sside k"
      using KCP_Recv_ok [OF assms, of l] by blast
    then show ?thesis
      using sent [of k' "if n \<ge> 0 then [out] else []"] sends_same [of cfg S k' k] by (auto simp: Op_Recv kcp_step_def sside_def)
  next
    case (Op_Input data regular nd)
    obtain k' r where "KCP_Input cfg clk data regular nd k = Some (k', r)" "sends cfg S k k'"
      using KCP_Input_ok [OF assms] by blast
    then show ?thesis
      using sent [of k' "[]"] by (auto simp: Op_Input kcp_step_def)
  next
    case (Op_flush b)
    obtain k' r where "KCP_flush cfg clk b k = Some (k', r)" "sends cfg S k k'"
      using flush_sends [OF assms] by blast
    then show ?thesis
      using sent [of k' "[]"] by (auto simp: Op_flush kcp_step_def)
  next
    case Op_Update
    then show ?thesis
      using Update_ok [OF assms, of clk] sent [of _ "[]"] by (auto simp: kcp_step_def)
  next
    case Op_Check
    then show ?thesis
      using Check_ok [OF assms, of clk] sends_alike [OF assms] sent [of _ "[]"] by (auto simp: kcp_step_def)
  next
    case (Op_NoDelay a b c d)
    then show ?thesis
      using sent [of "NoDelay a b c d k" "[]"] sends_alike [OF assms settings_alike(1)] by (auto simp: kcp_step_def)
  next
    case (Op_WndSize a b)
    then show ?thesis
      using sent [of "WndSize a b k" "[]"] sends_alike [OF assms settings_alike(2)] by (auto simp: kcp_step_def)
  next
    case (Op_SetStreamMode e)
    have "?Q (SetStreamMode e k) [] [] []"
      using assms by (simp add: Op_SetStreamMode kcp_step_def SetStreamMode_def fixed_def kinv_defs)
    then show ?thesis by blast
  next
    case Op_ReleaseTX
    obtain k' where "ReleaseTX k = Some k'" "kinv cfg S k'" "settings k' = settings k"
      using ReleaseTX_ok [OF assms] by blast
    then have "?Q k' [] [] []"
      using fixed_settings [of k' k] by (simp add: Op_ReleaseTX kcp_step_def)
    then show ?thesis by blast
  qed
qed

lemma kcp_run_ok:
  "kinv cfg S k \<Longrightarrow> \<exists>k' T. kcp_run cfg clk ops k = Some k' \<and> kinv cfg (S @ T) k' \<and> fixed k' = fixed k"
proof (induction ops arbitrary: S k)
  case Nil
  then show ?case
    by (intro exI [of _ k] exI [of _ "[]"]) simp
next
  case (Cons op ops)
  obtain k1 acc msgs T where 1: "kcp_step cfg clk op k = Some (k1, acc, msgs)" "kinv cfg (S @ T) k1" "fixed k1 = fixed k"
    using kcp_step_ok [OF Cons.prems, of clk op] by blast
  then show ?case
    using Cons.IH [OF 1(2)] by auto
qed

subsection \<open>Two connections over a network\<close>

text \<open>The sender, the receiver, the messages \<^verbatim>\<open>Send\<close> accepted and the messages \<^verbatim>\<open>Recv\<close> returned so far.\<close>

record kcp_pair =
  kp_a :: KCP
  kp_b :: KCP
  kp_sent :: "bytes list"
  kp_got :: "bytes list"

text \<open>An event: a call at the sender, a call at the receiver, or the arrival of any packet the sender ever put
  out, without its reserved bytes. Packets that never arrive are lost; one may arrive any number of times.\<close>

datatype net_event = At_a kcp_op | At_b kcp_op | Arrive nat bool bool

definition net_step :: "kcp_config \<Rightarrow> (nat \<Rightarrow> u32) \<Rightarrow> (nat \<Rightarrow> u32) \<Rightarrow> net_event \<Rightarrow> kcp_pair \<Rightarrow> kcp_pair option" where
  "net_step cfg clka clkb e st =
     (case e of
        At_a op \<Rightarrow> map_option (\<lambda>(a, acc, _). st\<lparr>kp_a := a, kp_sent := kp_sent st @ acc\<rparr>) (kcp_step cfg clka op (kp_a st))
      | At_b op \<Rightarrow> map_option (\<lambda>(b, _, msgs). st\<lparr>kp_b := b, kp_got := kp_got st @ msgs\<rparr>) (kcp_step cfg clkb op (kp_b st))
      | Arrive i regular ackNoDelay \<Rightarrow>
          if i < length (k_out (kp_a st))
          then map_option (\<lambda>(b, _, msgs). st\<lparr>kp_b := b, kp_got := kp_got st @ msgs\<rparr>)
                 (kcp_step cfg clkb (Op_Input (drop (k_reserved (kp_a st)) (k_out (kp_a st) ! i)) regular ackNoDelay) (kp_b st))
          else Some st)"

fun net_run :: "kcp_config \<Rightarrow> (nat \<Rightarrow> u32) \<Rightarrow> (nat \<Rightarrow> u32) \<Rightarrow> net_event list \<Rightarrow> kcp_pair \<Rightarrow> kcp_pair option" where
  "net_run cfg clka clkb [] st = Some st"
| "net_run cfg clka clkb (e # es) st = Option.bind (net_step cfg clka clkb e st) (net_run cfg clka clkb es)"

text \<open>The sender stays in message mode and keeps its data; the receiver gets packets only from the sender.\<close>

definition allowed :: "net_event \<Rightarrow> bool" where
  "allowed e = (case e of At_a op \<Rightarrow> op \<noteq> Op_SetStreamMode True \<and> op \<noteq> Op_ReleaseTX
     | At_b op \<Rightarrow> (case op of Op_Input _ _ _ \<Rightarrow> False | _ \<Rightarrow> True) | _ \<Rightarrow> True)"

definition offered :: "net_event \<Rightarrow> nat" where
  "offered e = (case e of At_a (Op_Send m) \<Rightarrow> length m | _ \<Rightarrow> 0)"

definition frag_all :: "nat \<Rightarrow> bytes list \<Rightarrow> payload list" where
  "frag_all mss ms = concat (map (msg_frags mss) ms)"

lemma frag_all_simps [simp]: "frag_all mss [] = []" "frag_all mss (m # ms) = msg_frags mss m @ frag_all mss ms"
  "frag_all mss (ms @ ms') = frag_all mss ms @ frag_all mss ms'"
  by (simp_all add: frag_all_def)

lemma frag_all_length: "(\<And>m. m \<in> set ms \<Longrightarrow> m \<noteq> []) \<Longrightarrow> length (frag_all mss ms) \<le> length (concat ms)"
  by (induction ms) (auto simp: frag_count_le add_mono)

lemma rcv_ok_mono: "rcv_ok S p k \<Longrightarrow> length (S @ T) \<le> 2 ^ 31 \<Longrightarrow> rcv_ok (S @ T) p k"
proof -
  assume "rcv_ok S p k" and l: "length (S @ T) \<le> 2 ^ 31"
  then obtain r where r: "p \<le> r" "r \<le> length S" "k_rcv_nxt k = of_nat r"
    "map pay (rb_abs (k_rcv_queue k)) = take (r - p) (drop p S)"
    "\<forall>x \<in> sh_set (k_rcv_buf k). \<exists>i. r \<le> i \<and> i < length S \<and> seg_sn x = of_nat i \<and> S ! i = pay x"
    unfolding rcv_ok_def by blast
  have "\<exists>i. r \<le> i \<and> i < length (S @ T) \<and> seg_sn x = of_nat i \<and> (S @ T) ! i = pay x" if "x \<in> sh_set (k_rcv_buf k)" for x
    using r(5) that by (metis length_append nth_append trans_less_add1)
  moreover have "take (r - p) (drop p S) = take (r - p) (drop p (S @ T))"
    using r(1,2) by simp
  ultimately show ?thesis
    using l r unfolding rcv_ok_def by (intro conjI exI [of _ r]) auto
qed

text \<open>The invariant of the pair: \<open>S\<close> is what the sender has numbered; the receiver has returned \<open>n\<close> messages.\<close>

definition pair_inv :: "kcp_config \<Rightarrow> payload list \<Rightarrow> nat \<Rightarrow> kcp_pair \<Rightarrow> bool" where
  "pair_inv cfg S n st \<longleftrightarrow>
     (let a = kp_a st; b = kp_b st; mss = unat (k_mss a) in
      kinv cfg S a \<and> k_stream a = 0 \<and> (\<exists>S'. kinv cfg S' b) \<and> k_conv b = k_conv a \<and>
      n \<le> length (kp_sent st) \<and> kp_got st = take n (kp_sent st) \<and> (\<forall>m \<in> set (kp_sent st). m \<noteq> [] \<and> frag_count mss m \<le> 255) \<and>
      S @ map pay (rb_abs (k_snd_queue a)) = frag_all mss (kp_sent st) \<and>
      rcv_ok S (length (frag_all mss (take n (kp_sent st)))) b)"

lemma recv_next_message:
  assumes "kinv cfg S' b" "rcv_ok S (length (frag_all mss (take n sent))) b" "S @ Q = frag_all mss sent" "n \<le> length sent"
    and "\<forall>m \<in> set sent. frag_count mss m \<le> 255" "0 < mss" "KCP_Recv l b = Some (b', c, out)" "0 \<le> c"
  shows "n < length sent \<and> out = sent ! n \<and> rcv_ok S (length (frag_all mss (take (Suc n) sent))) b'"
proof -
  let ?xs = "rb_abs (k_rcv_queue b)" and ?p = "length (frag_all mss (take n sent))"
  have r: "?xs \<noteq> []" "out = msg_data ?xs" "seg_frg (hd ?xs) \<noteq> 0 \<longrightarrow> unat (seg_frg (hd ?xs) + 1) \<le> length ?xs"
    "rcv_ok S (?p + length (msg_segs ?xs)) b'"
    using KCP_Recv_ok [OF assms(1), of l] assms(2,7,8) by (auto simp: Let_def)
  obtain r0 where r0: "?p \<le> r0" "r0 \<le> length S" "map pay ?xs = take (r0 - ?p) (drop ?p S)"
    using assms(2) unfolding rcv_ok_def by blast
  have lx: "length ?xs = r0 - ?p"
    using arg_cong [OF r0(3), of length] r0(1,2) by simp
  then have lt: "?p < length (frag_all mss sent)"
    using r(1) r0(2) unfolding assms(3) [symmetric] by (cases ?xs) auto
  then have n: "n < length sent"
    using assms(4) by (cases "n = length sent") auto
  then have "sent = take n sent @ sent ! n # drop (Suc n) sent"
    by (rule id_take_nth_drop)
  then have "frag_all mss sent = frag_all mss (take n sent) @ msg_frags mss (sent ! n) @ frag_all mss (drop (Suc n) sent)"
    by (metis frag_all_simps(2,3))
  then have "drop ?p (S @ Q) = msg_frags mss (sent ! n) @ frag_all mss (drop (Suc n) sent)"
    unfolding assms(3) by simp
  moreover have "take (length ?xs) (drop ?p S) = take (length ?xs) (drop ?p (S @ Q))"
    using lx r0(1,2) by simp
  ultimately have m: "map pay ?xs = take (length ?xs) (msg_frags mss (sent ! n) @ frag_all mss (drop (Suc n) sent))"
    using r0(3) lx by simp
  have c: "frag_count mss (sent ! n) \<le> 255"
    using assms(5) n by simp
  note full = message_complete [OF c m r(1) r(3)]
  show ?thesis
    using msg_data_frags [OF assms(6) c m full] r(2,4) n by (simp add: take_Suc_conv_app_nth)
qed

lemma rcv_step:
  assumes "kinv cfg S' b" "kcp_step cfg clk op b = Some (b', acc, msgs)"
    and "\<forall>data reg nd. op = Op_Input data reg nd \<longrightarrow> sound cfg (k_conv b) P data"
  shows "msgs = [] \<and> (\<forall>p. rcv_ok P p b \<longrightarrow> rcv_ok P p b') \<or> (\<exists>l c out. KCP_Recv l b = Some (b', c, out) \<and> 0 \<le> c \<and> msgs = [out])"
proof -
  have same: "msgs = [] \<and> (\<forall>p. rcv_ok P p b \<longrightarrow> rcv_ok P p b')" if "rside b' = rside b" "msgs = []"
    using that rcv_ok_cong [of P _ b b'] by blast
  show ?thesis
  proof (cases op)
    case (Op_Send m)
    then show ?thesis
      using KCP_Send_ok [OF assms(1), of m] assms(2) same by (auto simp: kcp_step_def)
  next
    case (Op_Recv l)
    then show ?thesis
      using KCP_Recv_ok [OF assms(1), of l] assms(2) by (auto simp: kcp_step_def split: if_splits)
  next
    case (Op_Input data reg nd)
    then show ?thesis
      using KCP_Input_ok [OF assms(1), of clk data reg nd] assms(2,3) by (auto simp: kcp_step_def)
  next
    case (Op_flush f)
    then show ?thesis
      using flush_sends [OF assms(1), of clk f] assms(2) same by (auto simp: kcp_step_def)
  next
    case Op_Update
    then show ?thesis
      using Update_ok [OF assms(1), of clk] assms(2) same by (auto simp: kcp_step_def)
  next
    case Op_Check
    then show ?thesis
      using Check_ok [OF assms(1), of clk] assms(2) same by (auto simp: kcp_step_def alike_def)
  next
    case (Op_NoDelay nodelay interval resend nc)
    then show ?thesis
      using settings_alike(1) [of b] assms(2) same by (auto simp: kcp_step_def alike_def)
  next
    case (Op_WndSize i j)
    then show ?thesis
      using settings_alike(2) [of b] assms(2) same by (auto simp: kcp_step_def alike_def)
  next
    case (Op_SetStreamMode e)
    then show ?thesis
      using assms(2) same by (auto simp: kcp_step_def SetStreamMode_def rside_def)
  next
    case Op_ReleaseTX
    then have "msgs = []" "rside b' = rside b"
      using assms(2) by (auto simp: kcp_step_def ReleaseTX_def rside_def Let_def split: bind_splits)
    then show ?thesis
      using same by blast
  qed
qed

lemma pair_inv_got:
  assumes "pair_inv cfg S n st" "kinv cfg S' b" "k_conv b = k_conv (kp_b st)" "n < length (kp_sent st)"
    and "rcv_ok S (length (frag_all (unat (k_mss (kp_a st))) (take (Suc n) (kp_sent st)))) b"
  shows "pair_inv cfg S (Suc n) (st\<lparr>kp_b := b, kp_got := kp_got st @ [kp_sent st ! n]\<rparr>)"
proof -
  have "kp_got st @ [kp_sent st ! n] = take (Suc n) (kp_sent st)"
    using assms(1,4) by (simp add: pair_inv_def Let_def take_Suc_conv_app_nth)
  then show ?thesis
    using assms by (auto simp: pair_inv_def Let_def)
qed

lemma pair_step_b:
  assumes "pair_inv cfg S n st" "\<forall>data reg nd. op = Op_Input data reg nd \<longrightarrow> sound cfg (k_conv (kp_a st)) S data"
  shows "\<exists>b acc msgs n'. kcp_step cfg clk op (kp_b st) = Some (b, acc, msgs) \<and> pair_inv cfg S n' (st\<lparr>kp_b := b, kp_got := kp_got st @ msgs\<rparr>)"
proof -
  obtain S' where i: "kinv cfg S' (kp_b st)" "k_conv (kp_b st) = k_conv (kp_a st)"
    using assms(1) by (auto simp: pair_inv_def Let_def)
  obtain b acc msgs T where b: "kcp_step cfg clk op (kp_b st) = Some (b, acc, msgs)" "kinv cfg (S' @ T) b" "fixed b = fixed (kp_b st)"
    using kcp_step_ok [OF i(1), of clk op] by blast
  have mss: "0 < unat (k_mss (kp_a st))"
    using assms(1) by (simp add: pair_inv_def kinv_def buffer_ok_def Let_def)
  have "\<forall>data reg nd. op = Op_Input data reg nd \<longrightarrow> sound cfg (k_conv (kp_b st)) S data"
    using assms(2) i(2) by simp
  from rcv_step [OF i(1) b(1) this]
  have "\<exists>n'. pair_inv cfg S n' (st\<lparr>kp_b := b, kp_got := kp_got st @ msgs\<rparr>)"
  proof (elim disjE exE conjE)
    assume "msgs = []" "\<forall>p. rcv_ok S p (kp_b st) \<longrightarrow> rcv_ok S p b"
    then have "pair_inv cfg S n (st\<lparr>kp_b := b, kp_got := kp_got st @ msgs\<rparr>)"
      using assms(1) b(2,3) by (auto simp: pair_inv_def Let_def fixed_def)
    then show ?thesis ..
  next
    fix l c out
    assume 2: "KCP_Recv l (kp_b st) = Some (b, c, out)" "0 \<le> c" "msgs = [out]"
    have "n < length (kp_sent st) \<and> out = kp_sent st ! n \<and>
        rcv_ok S (length (frag_all (unat (k_mss (kp_a st))) (take (Suc n) (kp_sent st)))) b"
      using assms(1) mss 2 by (intro recv_next_message [OF i(1)]) (auto simp: pair_inv_def Let_def)
    then have "pair_inv cfg S (Suc n) (st\<lparr>kp_b := b, kp_got := kp_got st @ msgs\<rparr>)"
      using pair_inv_got [OF assms(1) b(2)] b(3) 2(3) by (simp add: fixed_def)
    then show ?thesis ..
  qed
  then show ?thesis
    using b(1) by blast
qed

lemma pair_step_a:
  assumes "pair_inv cfg S n st" "op \<noteq> Op_SetStreamMode True" "op \<noteq> Op_ReleaseTX"
    and "length (concat (kp_sent st)) + offered (At_a op) \<le> 2 ^ 31"
  shows "\<exists>a acc msgs T. kcp_step cfg clk op (kp_a st) = Some (a, acc, msgs) \<and> length (concat acc) \<le> offered (At_a op) \<and>
    pair_inv cfg (S @ T) n (st\<lparr>kp_a := a, kp_sent := kp_sent st @ acc\<rparr>)"
proof -
  let ?mss = "unat (k_mss (kp_a st))"
  have i: "kinv cfg S (kp_a st)" "k_stream (kp_a st) = 0" "S @ map pay (rb_abs (k_snd_queue (kp_a st))) = frag_all ?mss (kp_sent st)"
    "\<forall>m \<in> set (kp_sent st). m \<noteq> [] \<and> frag_count ?mss m \<le> 255"
    using assms(1) by (simp_all add: pair_inv_def Let_def)
  obtain a acc msgs T where a: "kcp_step cfg clk op (kp_a st) = Some (a, acc, msgs)" "kinv cfg (S @ T) a" "fixed a = fixed (kp_a st)"
    "k_stream a = 0" "\<forall>m \<in> set acc. m \<noteq> [] \<and> frag_count ?mss m \<le> 255"
    "map pay (rb_abs (k_snd_queue (kp_a st))) @ frag_all ?mss acc = T @ map pay (rb_abs (k_snd_queue a))"
    using kcp_step_ok [OF i(1), of clk op] i(2) assms(2,3) unfolding frag_all_def by blast
  have acc: "length (concat acc) \<le> offered (At_a op)"
    using a(1) by (cases op) (auto simp: kcp_step_def offered_def split: if_splits)
  have q: "(S @ T) @ map pay (rb_abs (k_snd_queue a)) = frag_all ?mss (kp_sent st @ acc)"
    using a(6) i(3) by (metis append.assoc frag_all_simps(3))
  have "length (S @ T) \<le> length (frag_all ?mss (kp_sent st @ acc))"
    unfolding q [symmetric] by simp
  also have "\<dots> \<le> length (concat (kp_sent st @ acc))"
    using i(4) a(5) by (intro frag_all_length) auto
  also have "\<dots> \<le> 2 ^ 31"
    using acc assms(4) by simp
  finally have "rcv_ok S p (kp_b st) \<Longrightarrow> rcv_ok (S @ T) p (kp_b st)" for p
    by (intro rcv_ok_mono)
  then have "pair_inv cfg (S @ T) n (st\<lparr>kp_a := a, kp_sent := kp_sent st @ acc\<rparr>)"
    using assms(1) a(2-5) q by (auto simp: pair_inv_def Let_def fixed_def)
  then show ?thesis
    using a(1) acc by blast
qed

lemma net_step_ok:
  assumes "pair_inv cfg S n st" "allowed e" "length (concat (kp_sent st)) + offered e \<le> 2 ^ 31"
  shows "\<exists>st' S' n'. net_step cfg clka clkb e st = Some st' \<and> pair_inv cfg S' n' st' \<and>
    length (concat (kp_sent st')) \<le> length (concat (kp_sent st)) + offered e"
proof (cases e)
  case (At_a op)
  then show ?thesis
    using pair_step_a [OF assms(1), of op clka] assms(2,3) by (fastforce simp: allowed_def net_step_def)
next
  case (At_b op)
  then have "\<And>data reg nd. op \<noteq> Op_Input data reg nd"
    using assms(2) by (auto simp: allowed_def)
  then show ?thesis
    using pair_step_b [OF assms(1), of op clkb] by (fastforce simp: At_b net_step_def)
next
  case (Arrive i reg nd)
  show ?thesis
  proof (cases "i < length (k_out (kp_a st))")
    case True
    let ?data = "drop (k_reserved (kp_a st)) (k_out (kp_a st) ! i)"
    have "sound cfg (k_conv (kp_a st)) S ?data"
      using assms(1) True by (simp add: pair_inv_def Let_def kinv_def out_ok_def)
    then show ?thesis
      using pair_step_b [OF assms(1), of "Op_Input ?data reg nd" clkb] True by (fastforce simp: Arrive net_step_def)
  next
    case False
    then show ?thesis
      using assms(1) by (auto simp: Arrive net_step_def)
  qed
qed

lemma net_run_ok:
  assumes "pair_inv cfg S n st" "list_all allowed es" "length (concat (kp_sent st)) + sum_list (map offered es) \<le> 2 ^ 31"
  shows "\<exists>st' S' n'. net_run cfg clka clkb es st = Some st' \<and> pair_inv cfg S' n' st'"
  using assms
proof (induction es arbitrary: S n st)
  case (Cons e es)
  obtain st1 S1 n1 where 1: "net_step cfg clka clkb e st = Some st1" "pair_inv cfg S1 n1 st1"
    "length (concat (kp_sent st1)) \<le> length (concat (kp_sent st)) + offered e"
    using net_step_ok [OF Cons.prems(1), of e clka clkb] Cons.prems(2,3) by auto
  then show ?case
    using Cons.IH [OF 1(2)] Cons.prems(2,3) by simp
qed auto

definition net_start :: "kcp_config \<Rightarrow> u64 \<Rightarrow> int \<times> int \<Rightarrow> int \<times> int \<Rightarrow> kcp_pair" where
  "net_start cfg conv sa sb =
     \<lparr>kp_a = kcp_start cfg conv (fst sa) (snd sa), kp_b = kcp_start cfg conv (fst sb) (snd sb), kp_sent = [], kp_got = []\<rparr>"

lemma net_start_inv: "pair_inv cfg [] 0 (net_start cfg conv sa sb)"
  using kcp_start_idle [of cfg conv "fst sa" "snd sa"] kcp_start_idle [of cfg conv "fst sb" "snd sb"]
    idle_kinv [of cfg conv] by (auto simp: pair_inv_def net_start_def idle_def Let_def)

subsection \<open>The promises of a connection\<close>




end
