(* ===== verification/Control_Packets.thy ===== *)
theory Control_Packets
  imports Proto_Utils
begin

text \<open>
  The small fixed-size control packets: the connection control packets of the KCP sessions,
  \<^verbatim>\<open>src/protocol/kcp/enet.go\<close>, the endpoint discovery packets, \<^verbatim>\<open>src/p2p/discovery.go\<close>, and the
  hole punching packets, \<^verbatim>\<open>src/p2p/punch.go\<close>. For each kind, parsing inverts building, and
  what the parser accepts is what building gives.
\<close>

subsection \<open>Byte orders, from bytes to words and back\<close>

lemma bit_u8_beyond: "8 \<le> n \<Longrightarrow> \<not> bit (x :: u8) n"
  by (simp add: impossible_bit)

lemma be32_get_be32 [byte_codec]: "be32 (get_be32 (a # b # c # d # r)) = [a, b, c, d]"
proof -
  have "get_be32 (a # b # c # d # r) = IpAddrToU (Ipv4Addr a b c d)"
    by (simp add: get_be32_def)
  then show ?thesis
    using UToIpAddr_IpAddrToU [of "Ipv4Addr a b c d"] by (simp add: be32_def UToIpAddr_def)
qed

lemma be64_get_be64 [byte_codec]: "be64 (get_be64 (a # b # c # d # e # f # g # h # r)) = [a, b, c, d, e, f, g, h]"
proof -
  let ?w = "get_be64 (a # b # c # d # e # f # g # h # r)"
  have "ucast (drop_bit 56 ?w) = a" "ucast (drop_bit 48 ?w) = b" "ucast (drop_bit 40 ?w) = c" "ucast (drop_bit 32 ?w) = d"
    "ucast (drop_bit 24 ?w) = e" "ucast (drop_bit 16 ?w) = f" "ucast (drop_bit 8 ?w) = g" "ucast ?w = h"
    by (rule bit_word_eqI, simp add: get_be64_def bit_or_iff bit_push_bit_iff bit_unsigned_iff bit_drop_bit_eq bit_u8_beyond)+
  then show ?thesis
    by (simp add: be64_def)
qed

lemma list_of_length:
  "length xs = 4 \<longleftrightarrow> (\<exists>a b c d. xs = [a, b, c, d])"
  by (auto simp: numeral_eq_Suc length_Suc_conv)

subsection \<open>Connection control\<close>

definition ConnEnetSyn :: string where "ConnEnetSyn = ''ConnEnetSyn''"
definition ConnEnetEst :: string where "ConnEnetEst = ''ConnEnetEst''"
definition ConnEnetFin :: string where "ConnEnetFin = ''ConnEnetFin''"
definition ConnEnetPing :: string where "ConnEnetPing = ''ConnEnetPing''"
definition MagicEnetSynHead :: bytes where "MagicEnetSynHead = [0x00, 0x00, 0x00, 0xff]"
definition MagicEnetSynTail :: bytes where "MagicEnetSynTail = [0xff, 0xff, 0xff, 0xff]"
definition MagicEnetEstHead :: bytes where "MagicEnetEstHead = [0x00, 0x00, 0x01, 0x45]"
definition MagicEnetEstTail :: bytes where "MagicEnetEstTail = [0x14, 0x51, 0x45, 0x45]"
definition MagicEnetFinHead :: bytes where "MagicEnetFinHead = [0x00, 0x00, 0x01, 0x94]"
definition MagicEnetFinTail :: bytes where "MagicEnetFinTail = [0x19, 0x41, 0x94, 0x94]"
definition MagicEnetPingHead :: bytes where "MagicEnetPingHead = [0x00, 0x00, 0x02, 0x27]"
definition MagicEnetPingTail :: bytes where "MagicEnetPingTail = [0x22, 0x72, 0x27, 0x27]"

lemmas conn_types = ConnEnetSyn_def ConnEnetEst_def ConnEnetFin_def ConnEnetPing_def
lemmas enet_magics = MagicEnetSynHead_def MagicEnetSynTail_def MagicEnetEstHead_def MagicEnetEstTail_def
  MagicEnetFinHead_def MagicEnetFinTail_def MagicEnetPingHead_def MagicEnetPingTail_def

definition BuildEnet :: "string \<Rightarrow> u32 \<Rightarrow> u32 \<Rightarrow> u32 \<Rightarrow> bytes option" where
  "BuildEnet connType enetType sessionId conv =
     do {
       (head, tail) \<leftarrow>
         (if connType = ConnEnetSyn then Some (MagicEnetSynHead, MagicEnetSynTail)
          else if connType = ConnEnetEst then Some (MagicEnetEstHead, MagicEnetEstTail)
          else if connType = ConnEnetFin then Some (MagicEnetFinHead, MagicEnetFinTail)
          else if connType = ConnEnetPing then Some (MagicEnetPingHead, MagicEnetPingTail)
          else None);
       Some (head @ be32 sessionId @ be32 conv @ be32 enetType @ tail)
     }"

definition ParseEnet :: "bytes \<Rightarrow> (string \<times> u32 \<times> u32 \<times> u32 \<times> u64) go_result" where
  "ParseEnet data =
     (if length data \<noteq> 20 then Err ''invalid enet packet length''
      else
        let sessionId = get_be32 (go_slice data 4 8);
            conv = get_be32 (go_slice data 8 12);
            rawConv = get_le64 (go_slice data 4 12);
            head = take 4 data;
            tail = drop (length data - 4) data;
            enetType = get_be32 (go_slice data 12 16)
        in
        if head = MagicEnetSynHead \<and> tail = MagicEnetSynTail then Ok (ConnEnetSyn, enetType, sessionId, conv, rawConv)
        else if head = MagicEnetEstHead \<and> tail = MagicEnetEstTail then Ok (ConnEnetEst, enetType, sessionId, conv, rawConv)
        else if head = MagicEnetFinHead \<and> tail = MagicEnetFinTail then Ok (ConnEnetFin, enetType, sessionId, conv, rawConv)
        else if head = MagicEnetPingHead \<and> tail = MagicEnetPingTail then Ok (ConnEnetPing, enetType, sessionId, conv, rawConv)
        else Err ''unknown conn type'')"

lemma list20:
  assumes "length xs = 20"
  obtains h s c e t where "xs = h @ s @ c @ e @ t" "length h = 4" "length s = 4" "length c = 4" "length e = 4" "length t = 4"
proof
  have s: "drop n xs = take 4 (drop n xs) @ drop (n + 4) xs" for n
    by (metis add.commute append_take_drop_id drop_drop)
  show "xs = take 4 xs @ take 4 (drop 4 xs) @ take 4 (drop 8 xs) @ take 4 (drop 12 xs) @ drop 16 xs"
    using s [of 0] s [of 4] s [of 8] s [of 12] by simp
qed (use assms in simp_all)

lemma parse_enet_parts:
  assumes "length h = 4" "length s = 4" "length c = 4" "length e = 4" "length t = 4"
  shows "take 4 (h @ s @ c @ e @ t) = h" "go_slice (h @ s @ c @ e @ t) 4 8 = s" "go_slice (h @ s @ c @ e @ t) 8 12 = c"
    "go_slice (h @ s @ c @ e @ t) 12 16 = e" "drop 16 (h @ s @ c @ e @ t) = t" "go_slice (h @ s @ c @ e @ t) 4 12 = s @ c"
  using assms by (simp_all add: go_slice_def)

lemma ParseEnet_parts:
  assumes "length h = 4" "length s = 4" "length c = 4" "length e = 4" "length t = 4"
  shows "ParseEnet (h @ s @ c @ e @ t) =
      (if h = MagicEnetSynHead \<and> t = MagicEnetSynTail then Ok (ConnEnetSyn, get_be32 e, get_be32 s, get_be32 c, get_le64 (s @ c))
       else if h = MagicEnetEstHead \<and> t = MagicEnetEstTail then Ok (ConnEnetEst, get_be32 e, get_be32 s, get_be32 c, get_le64 (s @ c))
       else if h = MagicEnetFinHead \<and> t = MagicEnetFinTail then Ok (ConnEnetFin, get_be32 e, get_be32 s, get_be32 c, get_le64 (s @ c))
       else if h = MagicEnetPingHead \<and> t = MagicEnetPingTail then Ok (ConnEnetPing, get_be32 e, get_be32 s, get_be32 c, get_le64 (s @ c))
       else Err ''unknown conn type'')"
  using assms by (simp add: ParseEnet_def Let_def parse_enet_parts)

text \<open>The magic numbers of a kind.\<close>

definition magics :: "string \<Rightarrow> bytes \<Rightarrow> bytes \<Rightarrow> bool" where
  "magics connType h t \<longleftrightarrow> connType = ConnEnetSyn \<and> h = MagicEnetSynHead \<and> t = MagicEnetSynTail \<or>
     connType = ConnEnetEst \<and> h = MagicEnetEstHead \<and> t = MagicEnetEstTail \<or>
     connType = ConnEnetFin \<and> h = MagicEnetFinHead \<and> t = MagicEnetFinTail \<or>
     connType = ConnEnetPing \<and> h = MagicEnetPingHead \<and> t = MagicEnetPingTail"

lemma magics_length: "magics connType h t \<Longrightarrow> length h = 4 \<and> length t = 4"
  by (auto simp: magics_def enet_magics)

lemma BuildEnet_magics:
  "magics connType h t \<Longrightarrow> BuildEnet connType enetType sessionId conv = Some (h @ be32 sessionId @ be32 conv @ be32 enetType @ t)"
  unfolding magics_def by (elim disjE conjE) (simp_all add: BuildEnet_def conn_types)

lemma ParseEnet_magics:
  assumes "magics connType h t" "length s = 4" "length c = 4" "length e = 4"
  shows "ParseEnet (h @ s @ c @ e @ t) = Ok (connType, get_be32 e, get_be32 s, get_be32 c, get_le64 (s @ c))"
proof -
  have l: "length h = 4" "length t = 4"
    using magics_length [OF assms(1)] by auto
  show ?thesis
    using assms(1) unfolding ParseEnet_parts [OF l(1) assms(2-4) l(2)] magics_def by (elim disjE conjE) (simp_all add: enet_magics)
qed

text \<open>C30: Control packets of a session round-trip, in both directions: for each of the four kinds, parsing what
  was built gives the kind, the event, the session and the conversation back; and a packet is accepted
  only if it is the one that building gives for what was parsed.\<close>

theorem enet_roundtrip:
  "(connType \<in> {ConnEnetSyn, ConnEnetEst, ConnEnetFin, ConnEnetPing} \<longrightarrow>
     (\<exists>data raw. BuildEnet connType enetType sessionId conv = Some data \<and> length data = 20 \<and>
        ParseEnet data = Ok (connType, enetType, sessionId, conv, raw))) \<and>
   (ParseEnet packet = Ok (connType, enetType, sessionId, conv, raw) \<longrightarrow> BuildEnet connType enetType sessionId conv = Some packet)"
proof (intro conjI impI)
  assume "connType \<in> {ConnEnetSyn, ConnEnetEst, ConnEnetFin, ConnEnetPing}"
  then obtain h t where m: "magics connType h t"
    by (auto simp: magics_def)
  let ?data = "h @ be32 sessionId @ be32 conv @ be32 enetType @ t"
  have be: "get_be32 (be32 w) = w" for w
    using get_be32_be32 [of w "[]"] by simp
  have "ParseEnet ?data = Ok (connType, enetType, sessionId, conv, get_le64 (be32 sessionId @ be32 conv))"
    by (simp add: ParseEnet_magics [OF m] be)
  then show "\<exists>data raw. BuildEnet connType enetType sessionId conv = Some data \<and> length data = 20 \<and>
        ParseEnet data = Ok (connType, enetType, sessionId, conv, raw)"
    using BuildEnet_magics [OF m] magics_length [OF m]
    by (intro exI [of _ ?data] exI [of _ "get_le64 (be32 sessionId @ be32 conv)"]) simp
next
  assume p: "ParseEnet packet = Ok (connType, enetType, sessionId, conv, raw)"
  then have "length packet = 20"
    by (auto simp: ParseEnet_def split: if_splits)
  then obtain h s c e t where x: "packet = h @ s @ c @ e @ t" and l: "length h = 4" "length s = 4" "length c = 4" "length e = 4" "length t = 4"
    by (rule list20)
  have be: "be32 (get_be32 w) = w" if "length w = 4" for w
    using that be32_get_be32 by (auto simp: list_of_length)
  have q: "enetType = get_be32 e \<and> sessionId = get_be32 s \<and> conv = get_be32 c" "magics connType h t"
    using p unfolding x ParseEnet_parts [OF l] magics_def by (simp_all split: if_splits)
  then show "BuildEnet connType enetType sessionId conv = Some packet"
    using BuildEnet_magics [OF q(2)] l be by (simp add: x)
qed

theorem enet_roundtrip_witness:
  "BuildEnet ConnEnetFin 5 7 9 = Some [0, 0, 1, 0x94, 0, 0, 0, 7, 0, 0, 0, 9, 0, 0, 0, 5, 0x19, 0x41, 0x94, 0x94]"
proof -
  have "ParseEnet [0, 0, 1, 0x94, 0, 0, 0, 7, 0, 0, 0, 9, 0, 0, 0, 5, 0x19, 0x41, 0x94, 0x94] = Ok (ConnEnetFin, 5, 7, 9, 0x900000007000000)"
    by code_simp
  then show ?thesis
    using enet_roundtrip by blast
qed

end
