(* ===== verification/P2p.thy ===== *)
theory P2p
  imports Control_Packets
begin

text \<open>
  Endpoint discovery and hole punching, \<^verbatim>\<open>src/p2p/discovery.go\<close> and \<^verbatim>\<open>src/p2p/punch.go\<close>: the packets,
  what the discovery server and its client do with one, and a turn of the punching loop. The text
  of an endpoint (\<^verbatim>\<open>UDPAddr.String\<close>) is a parameter. The clock is read through \<open>clk\<close>, the \<open>n\<close>-th
  reading being \<open>clk n\<close>, in nanoseconds; the result of the \<open>n\<close>-th write is \<open>wr n\<close>. Read deadlines only bound how long
  a read waits; their setting is not part of the model.
\<close>

subsection \<open>Addresses of the Go library\<close>

record UDPAddr =
  ua_IP :: bytes
  ua_Port :: int
  ua_Zone :: string

definition v4InV6Prefix :: bytes where
  "v4InV6Prefix = [0, 0, 0, 0, 0, 0, 0, 0, 0, 0, 0xff, 0xff]"

definition To4 :: "bytes \<Rightarrow> bytes option" where
  "To4 ip = (if length ip = 4 then Some ip
     else if length ip = 16 \<and> take 12 ip = v4InV6Prefix then Some (drop 12 ip) else None)"

definition To16 :: "bytes \<Rightarrow> bytes option" where
  "To16 ip = (if length ip = 4 then Some (v4InV6Prefix @ ip) else if length ip = 16 then Some ip else None)"

definition ip_Equal :: "bytes \<Rightarrow> bytes \<Rightarrow> bool" where
  "ip_Equal x y \<longleftrightarrow> (if length x = length y then x = y
     else if length x = 4 \<and> length y = 16 then take 12 y = v4InV6Prefix \<and> x = drop 12 y
     else if length x = 16 \<and> length y = 4 then take 12 x = v4InV6Prefix \<and> drop 12 x = y
     else False)"

subsection \<open>Discovery\<close>

definition discoveryRequestSize :: nat where "discoveryRequestSize = 7"
definition discoveryIPv4ResponseSize :: nat where "discoveryIPv4ResponseSize = 13"
definition discoveryIPv6ResponseSize :: nat where "discoveryIPv6ResponseSize = 25"
definition discoveryRequestType :: u8 where "discoveryRequestType = 1"
definition discoveryResponseType :: u8 where "discoveryResponseType = 2"

lemmas discovery_consts = discoveryRequestSize_def discoveryIPv4ResponseSize_def discoveryIPv6ResponseSize_def
  discoveryRequestType_def discoveryResponseType_def

record discoveryPacket =
  dp_packetType :: u8
  dp_transactionID :: u32
  dp_publicIP :: bytes
  dp_publicPort :: u16

definition buildDiscoveryRequest :: "u32 \<Rightarrow> bytes" where
  "buildDiscoveryRequest transactionID = [0x48, 0x44, discoveryRequestType] @ be32 transactionID"

definition buildDiscoveryResponse :: "u32 \<Rightarrow> bytes \<Rightarrow> u16 \<Rightarrow> bytes option" where
  "buildDiscoveryResponse transactionID publicIP publicPort =
     (let (address, packetSize) =
        (case To4 publicIP of
           Some a \<Rightarrow> (Some a, discoveryIPv4ResponseSize)
         | None \<Rightarrow> (To16 publicIP, discoveryIPv6ResponseSize))
      in case address of
           None \<Rightarrow> None
         | Some a \<Rightarrow> Some (go_copy ([0x48, 0x44, discoveryResponseType] @ be32 transactionID @ replicate (packetSize - 7) 0) 7
                             (take (packetSize - 9) a @ be16 publicPort)))"

definition parseDiscoveryPacket :: "bytes \<Rightarrow> discoveryPacket go_result" where
  "parseDiscoveryPacket packet =
     (if length packet < 3 \<or> packet ! 0 \<noteq> 0x48 \<or> packet ! 1 \<noteq> 0x44 then Err ''p2p: invalid packet''
      else if packet ! 2 = discoveryRequestType \<and> length packet \<noteq> discoveryRequestSize then Err ''p2p: invalid packet''
      else if packet ! 2 = discoveryResponseType \<and> length packet \<noteq> discoveryIPv4ResponseSize \<and> length packet \<noteq> discoveryIPv6ResponseSize
      then Err ''p2p: invalid packet''
      else if packet ! 2 \<noteq> discoveryRequestType \<and> packet ! 2 \<noteq> discoveryResponseType then Err ''p2p: invalid packet''
      else
        let addressEnd = length packet - 2; response = (packet ! 2 = discoveryResponseType) in
        Ok \<lparr>dp_packetType = packet ! 2, dp_transactionID = get_be32 (go_slice packet 3 7),
            dp_publicIP = (if response then go_slice packet 7 addressEnd else []),
            dp_publicPort = (if response then get_be16 (drop addressEnd packet) else 0)\<rparr>)"

definition normalizePunchAddr :: "UDPAddr option \<Rightarrow> UDPAddr go_result" where
  "normalizePunchAddr addr =
     (case addr of
        None \<Rightarrow> Err ''p2p: udp address is nil''
      | Some a \<Rightarrow>
          if ua_Port a \<le> 0 \<or> ua_Port a > 65535 then Err ''p2p: UDP port must be between 1 and 65535''
          else
            (case To4 (ua_IP a) of
               Some ip \<Rightarrow> Ok \<lparr>ua_IP = ip, ua_Port = ua_Port a, ua_Zone = ''''\<rparr>
             | None \<Rightarrow>
                 (case To16 (ua_IP a) of
                    Some ip \<Rightarrow> Ok \<lparr>ua_IP = ip, ua_Port = ua_Port a, ua_Zone = ua_Zone a\<rparr>
                  | None \<Rightarrow> Err ''p2p: invalid IP address'')))"

text \<open>The same function under another name.\<close>

definition normalizeDiscoveryAddr :: "UDPAddr option \<Rightarrow> UDPAddr go_result" where
  "normalizeDiscoveryAddr addr = normalizePunchAddr addr"

text \<open>What the server answers to a datagram, and which endpoint the client takes from one.\<close>

definition discovery_serve :: "bytes \<Rightarrow> UDPAddr \<Rightarrow> bytes option" where
  "discovery_serve datagram sourceUDP =
     (case parseDiscoveryPacket datagram of
        Err _ \<Rightarrow> None
      | Ok request \<Rightarrow>
          if dp_packetType request \<noteq> discoveryRequestType then None
          else buildDiscoveryResponse (dp_transactionID request) (ua_IP sourceUDP) (of_int (ua_Port sourceUDP)))"

definition discovery_accept :: "(UDPAddr \<Rightarrow> string) \<Rightarrow> UDPAddr \<Rightarrow> u32 \<Rightarrow> bytes \<Rightarrow> UDPAddr \<Rightarrow> UDPAddr option" where
  "discovery_accept str server transactionID datagram source =
     (if str source \<noteq> str server then None
      else
        case parseDiscoveryPacket datagram of
          Err _ \<Rightarrow> None
        | Ok response \<Rightarrow>
            if dp_packetType response \<noteq> discoveryResponseType \<or> dp_transactionID response \<noteq> transactionID \<or> dp_publicPort response = 0
            then None
            else Some \<lparr>ua_IP = dp_publicIP response, ua_Port = uint (dp_publicPort response), ua_Zone = ''''\<rparr>)"

lemma take_be: "take 4 (be32 w @ r) = be32 w" "take 4 (be32 w) = be32 w"
  by (simp_all add: be32_def)

lemma parse_request: "parseDiscoveryPacket (buildDiscoveryRequest t) =
  Ok \<lparr>dp_packetType = discoveryRequestType, dp_transactionID = t, dp_publicIP = [], dp_publicPort = 0\<rparr>"
  using get_be32_be32 [of t "[]"]
  by (simp add: parseDiscoveryPacket_def buildDiscoveryRequest_def discovery_consts Let_def go_slice_def)

lemma response_bytes:
  assumes "length ip \<in> {4, 16}"
  shows "\<exists>a. length a \<in> {4, 16} \<and> ip_Equal a ip \<and>
    buildDiscoveryResponse t ip port = Some ([0x48, 0x44, discoveryResponseType] @ be32 t @ a @ be16 port)"
proof -
  have v: "length v4InV6Prefix = 12"
    by (simp add: v4InV6Prefix_def)
  show ?thesis
  proof (cases "To4 ip")
    case (Some a)
    then have "length a = 4" "ip_Equal a ip"
      using assms by (auto simp: To4_def ip_Equal_def split: if_splits)
    then show ?thesis
      using Some by (auto simp: buildDiscoveryResponse_def go_copy_def discovery_consts intro!: exI [of _ a])
  next
    case None
    then have "length ip = 16"
      using assms by (auto simp: To4_def split: if_splits)
    then show ?thesis
      using None by (auto simp: buildDiscoveryResponse_def go_copy_def discovery_consts To16_def ip_Equal_def intro!: exI [of _ ip])
  qed
qed

lemma parse_response:
  assumes "length a \<in> {4, 16}"
  shows "parseDiscoveryPacket ([0x48, 0x44, discoveryResponseType] @ be32 t @ a @ be16 port) =
    Ok \<lparr>dp_packetType = discoveryResponseType, dp_transactionID = t, dp_publicIP = a, dp_publicPort = port\<rparr>"
  using assms get_be32_be32 [of t "[]"] get_be16_be16 [of port "[]"]
  by (auto simp: parseDiscoveryPacket_def discovery_consts Let_def go_slice_def)

text \<open>C29: Endpoint discovery is right end to end: when the server answers the request of a client, the client takes
  from the answer the address and the port that the server saw as the source of the request, for IPv4 and IPv6.\<close>

theorem discovery_finds_source:
  assumes "length (ua_IP source) \<in> {4, 16}" "0 < ua_Port source" "ua_Port source \<le> 65535"
  shows "\<exists>response endpoint. discovery_serve (buildDiscoveryRequest transactionID) source = Some response \<and>
    discovery_accept str server transactionID response server = Some endpoint \<and>
    ip_Equal (ua_IP endpoint) (ua_IP source) \<and> ua_Port endpoint = ua_Port source"
proof -
  let ?port = "of_int (ua_Port source) :: u16"
  have port: "uint ?port = ua_Port source"
    using assms(2,3) by (simp add: uint_word_of_int_eq take_bit_int_eq_self)
  then have "?port \<noteq> 0"
    using assms(2) by (metis less_irrefl unsigned_0)
  moreover obtain a where "length a \<in> {4, 16}" "ip_Equal a (ua_IP source)"
    "buildDiscoveryResponse transactionID (ua_IP source) ?port = Some ([0x48, 0x44, discoveryResponseType] @ be32 transactionID @ a @ be16 ?port)"
    using response_bytes [OF assms(1)] by blast
  ultimately show ?thesis
    using port parse_response [of a transactionID ?port]
    by (simp add: discovery_serve_def discovery_accept_def parse_request)
qed

theorem discovery_finds_source_witness:
  "\<exists>response endpoint. discovery_serve (buildDiscoveryRequest 77) \<lparr>ua_IP = [1, 2, 3, 4], ua_Port = 4000, ua_Zone = ''''\<rparr> = Some response \<and>
    discovery_accept (\<lambda>a. ''s'') \<lparr>ua_IP = [9, 9, 9, 9], ua_Port = 53, ua_Zone = ''''\<rparr> 77 response
      \<lparr>ua_IP = [9, 9, 9, 9], ua_Port = 53, ua_Zone = ''''\<rparr> = Some endpoint \<and>
    ip_Equal (ua_IP endpoint) [1, 2, 3, 4] \<and> ua_Port endpoint = 4000"
  using discovery_finds_source [of "\<lparr>ua_IP = [1, 2, 3, 4], ua_Port = 4000, ua_Zone = ''''\<rparr>" 77 "\<lambda>a. ''s''"
    "\<lparr>ua_IP = [9, 9, 9, 9], ua_Port = 53, ua_Zone = ''''\<rparr>"] by simp

subsection \<open>Punching: packets\<close>

definition punchPacketSize :: nat where "punchPacketSize = 15"
definition punchCheck :: u8 where "punchCheck = 1"
definition punchCheckAck :: u8 where "punchCheckAck = 2"
definition punchConfirm :: u8 where "punchConfirm = 3"
definition punchConfirmAck :: u8 where "punchConfirmAck = 4"
definition maxInboundTransactions :: nat where "maxInboundTransactions = 128"

lemmas punch_types = punchCheck_def punchCheckAck_def punchConfirm_def punchConfirmAck_def

record punchPacket =
  pp_packetType :: u8
  pp_conv :: u64
  pp_transactionID :: u32

definition buildPunchPacket :: "u8 \<Rightarrow> u64 \<Rightarrow> u32 \<Rightarrow> bytes" where
  "buildPunchPacket packetType conv transactionID = [0x48, 0x50, packetType] @ be64 conv @ be32 transactionID"

definition parsePunchPacket :: "bytes \<Rightarrow> punchPacket go_result" where
  "parsePunchPacket packet =
     (if length packet \<noteq> punchPacketSize \<or> packet ! 0 \<noteq> 0x48 \<or> packet ! 1 \<noteq> 0x50 then Err ''p2p: invalid packet''
      else if packet ! 2 \<notin> {punchCheck, punchCheckAck, punchConfirm, punchConfirmAck} then Err ''p2p: invalid packet''
      else Ok \<lparr>pp_packetType = packet ! 2, pp_conv = get_be64 (go_slice packet 3 11), pp_transactionID = get_be32 (go_slice packet 11 15)\<rparr>)"

lemma parse_punch_build:
  "t \<in> {punchCheck, punchCheckAck, punchConfirm, punchConfirmAck} \<Longrightarrow>
   parsePunchPacket (buildPunchPacket t conv i) = Ok \<lparr>pp_packetType = t, pp_conv = conv, pp_transactionID = i\<rparr>"
  using be64_bytes [of conv "[]"] get_be32_be32 [of i "[]"]
  by (simp add: parsePunchPacket_def buildPunchPacket_def punchPacketSize_def go_slice_def)

lemma build_punch_parse:
  assumes "parsePunchPacket p = Ok c"
  shows "p = buildPunchPacket (pp_packetType c) (pp_conv c) (pp_transactionID c)"
proof -
  have "length p = 15"
    using assms by (auto simp: parsePunchPacket_def punchPacketSize_def split: if_splits)
  then obtain x y t a b c' d e f g h i j k l where p: "p = [x, y, t, a, b, c', d, e, f, g, h, i, j, k, l]"
    by (auto simp: numeral_eq_Suc length_Suc_conv)
  have "x = 0x48" "y = 0x50" "pp_packetType c = t" "pp_conv c = get_be64 [a, b, c', d, e, f, g, h]" "pp_transactionID c = get_be32 [i, j, k, l]"
    using assms unfolding p by (auto simp: parsePunchPacket_def punchPacketSize_def go_slice_def split: if_splits)
  then show ?thesis
    by (simp add: p buildPunchPacket_def byte_codec)
qed

subsection \<open>Punching: one turn of the loop\<close>

record punchConfig =
  pc_candidatePortCount :: nat
  pc_burstCount :: nat
  pc_burstInterval :: int
  pc_timeout :: int
  pc_confirmInterval :: int
  pc_successLinger :: int

definition defaultPunchConfig :: punchConfig where
  "defaultPunchConfig = \<lparr>pc_candidatePortCount = 5, pc_burstCount = 8, pc_burstInterval = 10000000, pc_timeout = 5000000000,
     pc_confirmInterval = 10000000, pc_successLinger = 30000000\<rparr>"

text \<open>The variables of the loop; \<open>pu_sent\<close> is what was written to the connection.\<close>

record punch_state =
  pu_nextTransactionID :: u32
  pu_outbound :: "u32 list"
  pu_inbound :: "(u32 \<times> string) list"
  pu_nextBurst :: int
  pu_hardDeadline :: int
  pu_burst :: nat
  pu_selectedTransactionID :: u32
  pu_selectedRemote :: "UDPAddr option"
  pu_nextConfirm :: int
  pu_successDeadline :: "int option"
  pu_localConfirmed :: bool
  pu_peerConfirmed :: bool
  pu_sent :: "(bytes \<times> UDPAddr) list"
  pu_reads :: nat

datatype punch_result = Going punch_state | Found "UDPAddr option" | Failed string

datatype punch_read = Read_retry | Read_error string | Received bytes UDPAddr

definition punch_candidates :: "punchConfig \<Rightarrow> UDPAddr \<Rightarrow> UDPAddr list" where
  "punch_candidates config remote =
     (let candidatePortCount = (if To4 (ua_IP remote) = None then 1 else pc_candidatePortCount config) in
      map (\<lambda>offset. remote\<lparr>ua_Port := ua_Port remote + int offset\<rparr>)
        (takeWhile (\<lambda>offset. ua_Port remote + int offset \<le> 65535) [0..<candidatePortCount]))"

definition punch_start :: "(nat \<Rightarrow> int) \<Rightarrow> punchConfig \<Rightarrow> u32 \<Rightarrow> punch_state" where
  "punch_start clk config rnd =
     \<lparr>pu_nextTransactionID = rnd, pu_outbound = [], pu_inbound = [], pu_nextBurst = clk 0, pu_hardDeadline = clk 0 + pc_timeout config,
      pu_burst = 0, pu_selectedTransactionID = 0, pu_selectedRemote = None, pu_nextConfirm = 0, pu_successDeadline = None,
      pu_localConfirmed = False, pu_peerConfirmed = False, pu_sent = [], pu_reads = 1\<rparr>"

definition punch_now :: "(nat \<Rightarrow> int) \<Rightarrow> punch_state \<Rightarrow> int \<times> punch_state" where
  "punch_now clk st = (clk (pu_reads st), st\<lparr>pu_reads := pu_reads st + 1\<rparr>)"

definition punch_write :: "(nat \<Rightarrow> string option) \<Rightarrow> bytes \<Rightarrow> UDPAddr \<Rightarrow> punch_state \<Rightarrow> string + punch_state" where
  "punch_write wr packet addr st =
     (case wr (length (pu_sent st)) of Some e \<Rightarrow> Err e | None \<Rightarrow> Ok (st\<lparr>pu_sent := pu_sent st @ [(packet, addr)]\<rparr>))"

fun punch_checks :: "(nat \<Rightarrow> string option) \<Rightarrow> u64 \<Rightarrow> UDPAddr list \<Rightarrow> punch_state \<Rightarrow> string + punch_state" where
  "punch_checks wr conv [] st = Ok st"
| "punch_checks wr conv (c # cs) st =
     (let i = pu_nextTransactionID st;
          st = st\<lparr>pu_nextTransactionID := i + 1, pu_outbound := i # pu_outbound st\<rparr>
      in case punch_write wr (buildPunchPacket punchCheck conv i) c st of
           Err e \<Rightarrow> Err (''p2p: write CHECK: '' @ e)
         | Ok st \<Rightarrow> punch_checks wr conv cs st)"

definition punch_bursts :: "(nat \<Rightarrow> int) \<Rightarrow> (nat \<Rightarrow> string option) \<Rightarrow> punchConfig \<Rightarrow> u64 \<Rightarrow> UDPAddr \<Rightarrow> int \<Rightarrow> punch_state \<Rightarrow> string + (int \<times> punch_state)" where
  "punch_bursts clk wr config conv remote now st =
     (if pu_burst st < pc_burstCount config \<and> pu_nextBurst st \<le> now then
        case punch_checks wr conv (punch_candidates config remote) st of
          Err e \<Rightarrow> Err e
        | Ok st \<Rightarrow>
            let (t, st) = punch_now clk (st\<lparr>pu_burst := pu_burst st + 1\<rparr>)
            in Ok (punch_now clk (st\<lparr>pu_nextBurst := t + pc_burstInterval config\<rparr>))
      else Ok (now, st))"

definition punch_reconfirm :: "(nat \<Rightarrow> int) \<Rightarrow> (nat \<Rightarrow> string option) \<Rightarrow> punchConfig \<Rightarrow> u64 \<Rightarrow> int \<Rightarrow> punch_state \<Rightarrow> string + punch_state" where
  "punch_reconfirm clk wr config conv now st =
     (case pu_selectedRemote st of
        Some remote \<Rightarrow>
          if \<not> pu_localConfirmed st \<and> pu_nextConfirm st \<le> now then
            case punch_write wr (buildPunchPacket punchConfirm conv (pu_selectedTransactionID st)) remote st of
              Err e \<Rightarrow> Err (''p2p: write CONFIRM: '' @ e)
            | Ok st \<Rightarrow> let (t, st) = punch_now clk st in Ok (st\<lparr>pu_nextConfirm := t + pc_confirmInterval config\<rparr>)
          else Ok st
      | None \<Rightarrow> Ok st)"

text \<open>A packet from the peer. The boolean says whether the loop goes on at once (\<^verbatim>\<open>continue\<close>).\<close>

definition punch_packet ::
    "(UDPAddr \<Rightarrow> string) \<Rightarrow> (nat \<Rightarrow> int) \<Rightarrow> (nat \<Rightarrow> string option) \<Rightarrow> punchConfig \<Rightarrow> u64 \<Rightarrow> punchPacket \<Rightarrow> UDPAddr \<Rightarrow> punch_state \<Rightarrow>
     string + (punch_state \<times> bool)" where
  "punch_packet str clk wr config conv control sourceUDP st =
     (let i = pp_transactionID control; ep = str sourceUDP; t = pp_packetType control in
      if t = punchCheck then
        if i \<in> set (pu_outbound st) then Ok (st, True)
        else if map_of (pu_inbound st) i \<noteq> None \<and> map_of (pu_inbound st) i \<noteq> Some ep then Ok (st, True)
        else if map_of (pu_inbound st) i = None \<and> length (pu_inbound st) \<ge> maxInboundTransactions then Ok (st, True)
        else
          let st = (if map_of (pu_inbound st) i = None then st\<lparr>pu_inbound := (i, ep) # pu_inbound st\<rparr> else st) in
          (case punch_write wr (buildPunchPacket punchCheckAck conv i) sourceUDP st of
             Err e \<Rightarrow> Err (''p2p: write CHECK_ACK: '' @ e) | Ok st \<Rightarrow> Ok (st, False))
      else if t = punchCheckAck then
        if pu_selectedRemote st \<noteq> None then Ok (st, True)
        else if i \<notin> set (pu_outbound st) then Ok (st, True)
        else
          let st = st\<lparr>pu_selectedTransactionID := i, pu_selectedRemote := Some sourceUDP\<rparr> in
          (case punch_write wr (buildPunchPacket punchConfirm conv i) sourceUDP st of
             Err e \<Rightarrow> Err (''p2p: write CONFIRM: '' @ e)
           | Ok st \<Rightarrow> let (n, st) = punch_now clk st in Ok (st\<lparr>pu_nextConfirm := n + pc_confirmInterval config\<rparr>, False))
      else if t = punchConfirm then
        if map_of (pu_inbound st) i \<noteq> Some ep then Ok (st, True)
        else
          (case punch_write wr (buildPunchPacket punchConfirmAck conv i) sourceUDP st of
             Err e \<Rightarrow> Err (''p2p: write CONFIRM_ACK: '' @ e) | Ok st \<Rightarrow> Ok (st\<lparr>pu_peerConfirmed := True\<rparr>, False))
      else if t = punchConfirmAck then
        (case pu_selectedRemote st of
           None \<Rightarrow> Ok (st, True)
         | Some remote \<Rightarrow>
             if i \<noteq> pu_selectedTransactionID st \<or> str remote \<noteq> ep then Ok (st, True)
             else Ok (st\<lparr>pu_localConfirmed := True\<rparr>, False))
      else Ok (st, False))"

definition punch_success :: "(nat \<Rightarrow> int) \<Rightarrow> punchConfig \<Rightarrow> punch_state \<Rightarrow> punch_state" where
  "punch_success clk config st =
     (if pu_localConfirmed st \<and> pu_peerConfirmed st \<and> pu_successDeadline st = None then
        let (t, st) = punch_now clk st; d = t + pc_successLinger config
        in st\<lparr>pu_successDeadline := Some (if pu_hardDeadline st < d then pu_hardDeadline st else d)\<rparr>
      else st)"

definition punch_receive ::
    "(UDPAddr \<Rightarrow> string) \<Rightarrow> (nat \<Rightarrow> int) \<Rightarrow> (nat \<Rightarrow> string option) \<Rightarrow> punchConfig \<Rightarrow> u64 \<Rightarrow> UDPAddr \<Rightarrow> punch_read \<Rightarrow>
     punch_state \<Rightarrow> punch_result" where
  "punch_receive str clk wr config conv remote rd st =
     (case rd of
        Read_retry \<Rightarrow> Going st
      | Read_error e \<Rightarrow> Failed (''p2p: read punch packet: '' @ e)
      | Received data sourceUDP \<Rightarrow>
          if \<not> ip_Equal (ua_IP sourceUDP) (ua_IP remote) then Going st
          else
            (case parsePunchPacket data of
               Err _ \<Rightarrow> Going st
             | Ok control \<Rightarrow>
                 if pp_conv control \<noteq> conv then Going st
                 else
                   (case punch_packet str clk wr config conv control sourceUDP st of
                      Err e \<Rightarrow> Failed e
                    | Ok (st, cont) \<Rightarrow> Going (if cont then st else punch_success clk config st))))"

definition punch_turn ::
    "(UDPAddr \<Rightarrow> string) \<Rightarrow> (nat \<Rightarrow> int) \<Rightarrow> (nat \<Rightarrow> string option) \<Rightarrow> punchConfig \<Rightarrow> u64 \<Rightarrow> UDPAddr \<Rightarrow> string option \<times> punch_read \<Rightarrow>
     punch_state \<Rightarrow> punch_result" where
  "punch_turn str clk wr config conv remote inp st =
     (case fst inp of
        Some e \<Rightarrow> Failed e
      | None \<Rightarrow>
          let (now, st) = punch_now clk st in
          if (case pu_successDeadline st of None \<Rightarrow> False | Some d \<Rightarrow> d \<le> now) then Found (pu_selectedRemote st)
          else if pu_hardDeadline st \<le> now then Failed ''p2p: punch timeout''
          else
            (case punch_bursts clk wr config conv remote now st of
               Err e \<Rightarrow> Failed e
             | Ok (now, st) \<Rightarrow>
                 (case punch_reconfirm clk wr config conv now st of
                    Err e \<Rightarrow> Failed e
                  | Ok st \<Rightarrow>
                      punch_receive str clk wr config conv remote (snd inp) st)))"

fun punch_run ::
    "(UDPAddr \<Rightarrow> string) \<Rightarrow> (nat \<Rightarrow> int) \<Rightarrow> (nat \<Rightarrow> string option) \<Rightarrow> punchConfig \<Rightarrow> u64 \<Rightarrow> UDPAddr \<Rightarrow> (string option \<times> punch_read) list \<Rightarrow>
     punch_state \<Rightarrow> punch_result" where
  "punch_run str clk wr config conv remote [] st = Going st"
| "punch_run str clk wr config conv remote (i # is) st =
     (case punch_turn str clk wr config conv remote i st of
        Going st \<Rightarrow> punch_run str clk wr config conv remote is st
      | r \<Rightarrow> r)"

subsection \<open>A found endpoint answered in both directions\<close>

definition datagrams :: "(string option \<times> punch_read) list \<Rightarrow> (bytes \<times> UDPAddr) set" where
  "datagrams is = {(d, a). \<exists>c. (c, Received d a) \<in> set is}"

text \<open>The probes that are not our own: the probe of a turn counts when no probe with its number was sent before it
  arrived, in the turn of its arrival included.\<close>

definition peer_probes ::
    "(UDPAddr \<Rightarrow> string) \<Rightarrow> (nat \<Rightarrow> int) \<Rightarrow> (nat \<Rightarrow> string option) \<Rightarrow> punchConfig \<Rightarrow> u64 \<Rightarrow> UDPAddr \<Rightarrow> punch_state \<Rightarrow>
     (string option \<times> punch_read) list \<Rightarrow> (u32 \<times> UDPAddr) set" where
  "peer_probes str clk wr config conv remote st0 xs =
     {(j, p). \<exists>us x vs st. xs = us @ x # vs \<and> punch_run str clk wr config conv remote (us @ [x]) st0 = Going st \<and>
        snd x = Received (buildPunchPacket punchCheck conv j) p \<and>
        (\<forall>c. (buildPunchPacket punchCheck conv j, c) \<notin> set (pu_sent st))}"

text \<open>The invariant, where \<open>H\<close> has the datagrams received so far and \<open>F\<close> the probes of the peer.\<close>

definition punch_inv ::
    "(UDPAddr \<Rightarrow> string) \<Rightarrow> u64 \<Rightarrow> UDPAddr \<Rightarrow> (bytes \<times> UDPAddr) set \<Rightarrow> (u32 \<times> UDPAddr) set \<Rightarrow> punch_state \<Rightarrow> bool" where
  "punch_inv str conv remote H F st \<longleftrightarrow>
     (\<forall>r. pu_selectedRemote st = Some r \<longrightarrow> ip_Equal (ua_IP r) (ua_IP remote) \<and> pu_selectedTransactionID st \<in> set (pu_outbound st) \<and>
        (buildPunchPacket punchCheckAck conv (pu_selectedTransactionID st), r) \<in> H \<and>
        (buildPunchPacket punchConfirm conv (pu_selectedTransactionID st), r) \<in> set (pu_sent st)) \<and>
     (\<forall>i ep. (i, ep) \<in> set (pu_inbound st) \<longrightarrow> (\<exists>r. (i, r) \<in> F \<and> str r = ep)) \<and>
     (pu_localConfirmed st \<longrightarrow> (\<exists>r r'. pu_selectedRemote st = Some r \<and>
        (buildPunchPacket punchConfirmAck conv (pu_selectedTransactionID st), r') \<in> H \<and> str r' = str r)) \<and>
     (pu_peerConfirmed st \<longrightarrow> (\<exists>j p p'. (j, p) \<in> F \<and> (buildPunchPacket punchConfirm conv j, p') \<in> H \<and> str p = str p' \<and>
        ip_Equal (ua_IP p') (ua_IP remote) \<and> (buildPunchPacket punchConfirmAck conv j, p') \<in> set (pu_sent st))) \<and>
     (pu_successDeadline st \<noteq> None \<longrightarrow> pu_localConfirmed st \<and> pu_peerConfirmed st)"

text \<open>The numbers the loop remembers are those of the probes it sent, each to a candidate.\<close>

definition probes_ok :: "punchConfig \<Rightarrow> u64 \<Rightarrow> UDPAddr \<Rightarrow> punch_state \<Rightarrow> bool" where
  "probes_ok config conv remote st \<longleftrightarrow>
     (\<forall>i \<in> set (pu_outbound st). \<exists>c \<in> set (punch_candidates config remote). (buildPunchPacket punchCheck conv i, c) \<in> set (pu_sent st)) \<and>
     (\<forall>i c. (buildPunchPacket punchCheck conv i, c) \<in> set (pu_sent st) \<longrightarrow> i \<in> set (pu_outbound st))"

lemma probe_only:
  "buildPunchPacket punchCheck conv j \<noteq> buildPunchPacket punchCheckAck conv i"
  "buildPunchPacket punchCheck conv j \<noteq> buildPunchPacket punchConfirm conv i"
  "buildPunchPacket punchCheck conv j \<noteq> buildPunchPacket punchConfirmAck conv i"
  "buildPunchPacket punchCheck conv i = buildPunchPacket punchCheck conv j \<longleftrightarrow> i = j"
proof -
  have "(1 :: u8) \<noteq> 2" "(1 :: u8) \<noteq> 3" "(1 :: u8) \<noteq> 4"
    by simp_all
  then show "buildPunchPacket punchCheck conv j \<noteq> buildPunchPacket punchCheckAck conv i"
    "buildPunchPacket punchCheck conv j \<noteq> buildPunchPacket punchConfirm conv i"
    "buildPunchPacket punchCheck conv j \<noteq> buildPunchPacket punchConfirmAck conv i"
    unfolding buildPunchPacket_def punch_types append.simps list.inject by blast+
  have "parsePunchPacket (buildPunchPacket punchCheck conv k) = Ok \<lparr>pp_packetType = punchCheck, pp_conv = conv, pp_transactionID = k\<rparr>" for k
    by (rule parse_punch_build) simp
  then show "buildPunchPacket punchCheck conv i = buildPunchPacket punchCheck conv j \<longleftrightarrow> i = j"
    by (metis punchPacket.select_convs(3) sum.inject(2))
qed

lemma probes_ok_same:
  "probes_ok config conv remote st \<Longrightarrow> pu_outbound st' = pu_outbound st \<Longrightarrow> pu_sent st' = pu_sent st \<Longrightarrow> probes_ok config conv remote st'"
  by (simp add: probes_ok_def)

lemma probes_ok_other:
  assumes "probes_ok config conv remote st" "pu_outbound st' = pu_outbound st" "pu_sent st' = pu_sent st @ [(p, a)]"
    and "\<And>j. buildPunchPacket punchCheck conv j \<noteq> p"
  shows "probes_ok config conv remote st'"
proof -
  have "(buildPunchPacket punchCheck conv j, c) \<in> set (pu_sent st') \<longleftrightarrow> (buildPunchPacket punchCheck conv j, c) \<in> set (pu_sent st)" for j c
    using assms(3,4) by simp
  then show ?thesis
    using assms(1,2) by (simp add: probes_ok_def)
qed

text \<open>The part of the state that only received packets change; what was sent and remembered only grows.\<close>

definition punch_view :: "punch_state \<Rightarrow> UDPAddr option \<times> u32 \<times> (u32 \<times> string) list \<times> bool \<times> bool \<times> int option" where
  "punch_view st = (pu_selectedRemote st, pu_selectedTransactionID st, pu_inbound st, pu_localConfirmed st, pu_peerConfirmed st,
     pu_successDeadline st)"

definition later :: "punch_state \<Rightarrow> punch_state \<Rightarrow> bool" where
  "later st st' \<longleftrightarrow> punch_view st' = punch_view st \<and> set (pu_sent st) \<subseteq> set (pu_sent st') \<and> set (pu_outbound st) \<subseteq> set (pu_outbound st')"

lemma later_refl: "later st st"
  by (simp add: later_def)

lemma later_trans: "later st st' \<Longrightarrow> later st' st2 \<Longrightarrow> later st st2"
  by (auto simp: later_def)

lemma punch_inv_later: "punch_inv str conv remote H F st \<Longrightarrow> later st st' \<Longrightarrow> punch_inv str conv remote H F st'"
  unfolding punch_inv_def later_def punch_view_def by (simp only: prod.inject) blast

lemma punch_inv_mono: "punch_inv str conv remote H F st \<Longrightarrow> H \<subseteq> H' \<Longrightarrow> F \<subseteq> F' \<Longrightarrow> punch_inv str conv remote H' F' st"
  unfolding punch_inv_def by (elim conjE) (intro conjI; blast)

lemma punch_write_D:
  "punch_write wr p a st = Ok st' \<Longrightarrow> st' = st\<lparr>pu_sent := pu_sent st @ [(p, a)]\<rparr>"
  by (auto simp: punch_write_def split: option.splits)

lemma punch_checks_probes:
  "punch_checks wr conv cs st = Ok st' \<Longrightarrow> set cs \<subseteq> set (punch_candidates config remote) \<Longrightarrow> probes_ok config conv remote st \<Longrightarrow>
    later st st' \<and> probes_ok config conv remote st'"
proof (induction cs arbitrary: st)
  case (Cons c cs)
  define i where "i = pu_nextTransactionID st"
  define st1 where "st1 = st\<lparr>pu_nextTransactionID := i + 1, pu_outbound := i # pu_outbound st,
    pu_sent := pu_sent st @ [(buildPunchPacket punchCheck conv i, c)]\<rparr>"
  have 1: "punch_checks wr conv cs st1 = Ok st'"
    using Cons.prems(1) by (auto simp: Let_def st1_def i_def dest!: punch_write_D split: sum.splits)
  have "probes_ok config conv remote st1" "later st st1"
    using Cons.prems(2,3) by (auto simp: probes_ok_def st1_def probe_only later_def punch_view_def)
  then show ?case
    using Cons.IH [OF 1] Cons.prems(2) later_trans [of st st1 st'] by auto
qed (auto simp: later_refl)

text \<open>What a turn does before it reads keeps the view and the account of the probes.\<close>

lemma punch_bursts_probes:
  assumes "punch_bursts clk wr config conv remote now st = Ok (n, st')" "probes_ok config conv remote st"
  shows "later st st' \<and> probes_ok config conv remote st'"
proof (cases "pu_burst st < pc_burstCount config \<and> pu_nextBurst st \<le> now")
  case True
  then obtain st1 where 1: "punch_checks wr conv (punch_candidates config remote) st = Ok st1"
    using assms(1) by (auto simp: punch_bursts_def split: sum.splits)
  then have "punch_view st' = punch_view st1" "pu_sent st' = pu_sent st1" "pu_outbound st' = pu_outbound st1"
    using assms(1) True by (auto simp: punch_bursts_def punch_now_def punch_view_def)
  then show ?thesis
    using punch_checks_probes [OF 1 subset_refl assms(2)] by (simp add: later_def probes_ok_def)
qed (use assms in \<open>auto simp: punch_bursts_def later_refl\<close>)

lemma punch_reconfirm_probes:
  assumes "punch_reconfirm clk wr config conv now st = Ok st'" "probes_ok config conv remote st"
  shows "later st st' \<and> probes_ok config conv remote st'"
proof -
  have "st' = st \<or> (\<exists>i r. pu_sent st' = pu_sent st @ [(buildPunchPacket punchConfirm conv i, r)] \<and>
      pu_outbound st' = pu_outbound st \<and> punch_view st' = punch_view st)"
    using assms(1) by (auto simp: punch_reconfirm_def punch_now_def punch_view_def dest!: punch_write_D
        split: if_splits sum.splits option.splits)
  then show ?thesis
    using assms(2) probes_ok_other [OF assms(2), of st'] probe_only(2) by (auto simp: later_def)
qed

lemma punch_success_inv:
  "punch_inv str conv remote H F st \<Longrightarrow> punch_inv str conv remote H F (punch_success clk config st)"
  "pu_sent (punch_success clk config st) = pu_sent st" "pu_outbound (punch_success clk config st) = pu_outbound st"
  by (auto simp: punch_inv_def punch_success_def punch_now_def Let_def)

subsection \<open>A packet keeps the invariant\<close>

lemma punch_packet_probes:
  assumes "punch_packet str clk wr config conv c src st = Ok (st', cont)" "probes_ok config conv remote st"
  shows "probes_ok config conv remote st' \<and> pu_outbound st' = pu_outbound st"
proof -
  have o: "pu_outbound st' = pu_outbound st" and
    "pu_sent st' = pu_sent st \<or> (\<exists>p. pu_sent st' = pu_sent st @ [(p, src)] \<and> (\<forall>j. buildPunchPacket punchCheck conv j \<noteq> p))"
    using assms(1) by (auto simp: punch_packet_def Let_def punch_now_def probe_only dest!: punch_write_D
        split: if_splits sum.splits option.splits)
  then show ?thesis
    using probes_ok_same [OF assms(2) o] probes_ok_other [OF assms(2) o] by blast
qed

lemma punch_packet_inv:
  assumes "punch_inv str conv remote H F st" "punch_packet str clk wr config conv c src st = Ok (st', cont)"
    and "ip_Equal (ua_IP src) (ua_IP remote)" "(buildPunchPacket (pp_packetType c) conv (pp_transactionID c), src) \<in> H"
    and "pp_packetType c = punchCheck \<Longrightarrow> pp_transactionID c \<notin> set (pu_outbound st) \<Longrightarrow> (pp_transactionID c, src) \<in> F"
  shows "punch_inv str conv remote H F st'"
proof -
  consider "pp_packetType c = punchCheck" | "pp_packetType c = punchCheckAck" | "pp_packetType c = punchConfirm"
    | "pp_packetType c = punchConfirmAck" | "pp_packetType c \<notin> {punchCheck, punchCheckAck, punchConfirm, punchConfirmAck}"
    by blast
  then show ?thesis
  proof cases
    case 1
    let ?st = "if map_of (pu_inbound st) (pp_transactionID c) = None
      then st\<lparr>pu_inbound := (pp_transactionID c, str src) # pu_inbound st\<rparr> else st"
    have "punch_inv str conv remote H F ?st" if "pp_transactionID c \<notin> set (pu_outbound st)"
      using assms(1) assms(5) [OF 1 that] by (auto simp: punch_inv_def)
    moreover have "later ?st (?st\<lparr>pu_sent := pu_sent ?st @ [x]\<rparr>)" for x
      by (auto simp: later_def punch_view_def)
    ultimately have "punch_inv str conv remote H F (?st\<lparr>pu_sent := pu_sent ?st @ [x]\<rparr>)"
      if "pp_transactionID c \<notin> set (pu_outbound st)" for x
      using that punch_inv_later by blast
    then show ?thesis
      using assms(1,2) 1 by (auto simp: punch_packet_def Let_def dest!: punch_write_D split: if_splits sum.splits)
  next
    case 2
    then show ?thesis
      using assms(1-4) by (auto simp: punch_packet_def Let_def punch_now_def punch_types punch_inv_def dest!: punch_write_D
          split: if_splits sum.splits) blast
  next
    case 3
    have "punch_inv str conv remote H F (st2\<lparr>pu_peerConfirmed := True\<rparr>)"
      if m: "map_of (pu_inbound st) (pp_transactionID c) = Some (str src)"
        and w: "st2 = st\<lparr>pu_sent := pu_sent st @ [(buildPunchPacket punchConfirmAck conv (pp_transactionID c), src)]\<rparr>" for st2
    proof -
      obtain r where r: "(pp_transactionID c, r) \<in> F" "str r = str src"
        using assms(1) map_of_SomeD [OF m] unfolding punch_inv_def by blast
      have "punch_inv str conv remote H F st2"
        by (rule punch_inv_later [OF assms(1)]) (auto simp: w later_def punch_view_def)
      moreover have "(buildPunchPacket punchConfirmAck conv (pp_transactionID c), src) \<in> set (pu_sent st2)"
        by (simp add: w)
      ultimately show ?thesis
        using r assms(3,4) 3 unfolding punch_inv_def by simp blast
    qed
    then show ?thesis
      using assms(1,2) 3 by (auto simp: punch_packet_def Let_def punch_types dest!: punch_write_D split: if_splits sum.splits)
  next
    case 4
    then show ?thesis
      using assms by (auto simp: punch_packet_def Let_def punch_types punch_inv_def split: if_splits option.splits) blast
  next
    case 5
    then show ?thesis
      using assms(1,2) by (auto simp: punch_packet_def Let_def)
  qed
qed

subsection \<open>The run\<close>

lemma punch_run_snoc:
  "punch_run str clk wr config conv remote (xs @ [x]) st =
    (case punch_run str clk wr config conv remote xs st of Going st' \<Rightarrow> punch_turn str clk wr config conv remote x st' | r \<Rightarrow> r)"
  by (induction xs arbitrary: st) (auto split: punch_result.split)

lemma punch_turn_inv:
  assumes "punch_inv str conv remote H F st" "probes_ok config conv remote st"
    and "punch_turn str clk wr config conv remote x st = Going st'"
    and "datagrams [x] \<subseteq> H" "\<And>j p. snd x = Received (buildPunchPacket punchCheck conv j) p \<Longrightarrow>
      (\<forall>c. (buildPunchPacket punchCheck conv j, c) \<notin> set (pu_sent st')) \<Longrightarrow> (j, p) \<in> F"
  shows "punch_inv str conv remote H F st' \<and> probes_ok config conv remote st'"
proof -
  obtain now st1 where 1: "punch_now clk st = (now, st1)"
    by (cases "punch_now clk st")
  obtain n st2 where 2: "punch_bursts clk wr config conv remote now st1 = Ok (n, st2)"
    using assms(3) 1 by (auto simp: punch_turn_def split: option.splits if_splits sum.splits)
  obtain st3 where 3: "punch_reconfirm clk wr config conv n st2 = Ok st3"
    using assms(3) 1 2 by (auto simp: punch_turn_def split: option.splits if_splits sum.splits)
  have l1: "later st st1" "probes_ok config conv remote st1"
    using 1 probes_ok_same [OF assms(2), of st1] by (auto simp: punch_now_def later_def punch_view_def)
  then have p3: "probes_ok config conv remote st3" and i3: "punch_inv str conv remote H F st3"
    using punch_bursts_probes [OF 2] punch_reconfirm_probes [OF 3, of remote] punch_inv_later [OF assms(1)]
    by (blast intro: later_trans)+
  have r: "punch_receive str clk wr config conv remote (snd x) st3 = Going st'"
    using assms(3) 1 2 3 by (auto simp: punch_turn_def split: option.splits if_splits)
  show ?thesis
  proof (cases "st' = st3")
    case False
    then obtain d src c st4 cont where d: "snd x = Received d src" "ip_Equal (ua_IP src) (ua_IP remote)" "parsePunchPacket d = Ok c"
      "pp_conv c = conv" "punch_packet str clk wr config conv c src st3 = Ok (st4, cont)"
      "st' = (if cont then st4 else punch_success clk config st4)"
      using r by (auto simp: punch_receive_def split: punch_read.splits if_splits sum.splits)
    note b = build_punch_parse [OF d(3), unfolded d(4)]
    have p4: "probes_ok config conv remote st4" "pu_outbound st4 = pu_outbound st3"
      using punch_packet_probes [OF d(5) p3] by auto
    then have p': "probes_ok config conv remote st'" "pu_outbound st' = pu_outbound st3"
      using d(6) probes_ok_same [OF p4(1)] by (auto simp: punch_success_inv(2,3))
    have "(d, src) \<in> H"
      using assms(4) d(1) by (cases x) (auto simp: datagrams_def)
    moreover have "(pp_transactionID c, src) \<in> F" if "pp_packetType c = punchCheck" "pp_transactionID c \<notin> set (pu_outbound st3)"
      using assms(5) [of "pp_transactionID c" src] d(1) b that p' by (auto simp: probes_ok_def)
    ultimately have "punch_inv str conv remote H F st4"
      using punch_packet_inv [OF i3 d(5,2)] b by simp
    then show ?thesis
      using p'(1) d(6) punch_success_inv(1) by simp
  qed (use i3 p3 in simp)
qed

lemma peer_probes_mono:
  "peer_probes str clk wr config conv remote st0 xs \<subseteq> peer_probes str clk wr config conv remote st0 (xs @ ys)"
proof (rule subsetI)
  fix z
  assume "z \<in> peer_probes str clk wr config conv remote st0 xs"
  then obtain j p us x vs st where "z = (j, p)" "xs = us @ x # vs" "punch_run str clk wr config conv remote (us @ [x]) st0 = Going st"
    "snd x = Received (buildPunchPacket punchCheck conv j) p" "\<forall>c. (buildPunchPacket punchCheck conv j, c) \<notin> set (pu_sent st)"
    unfolding peer_probes_def by blast
  then show "z \<in> peer_probes str clk wr config conv remote st0 (xs @ ys)"
    unfolding peer_probes_def by (simp only: mem_Collect_eq prod.case)
      (intro exI [of _ us] exI [of _ x] exI [of _ "vs @ ys"] exI [of _ st] conjI, simp_all)
qed

lemma peer_probes_last:
  assumes "punch_run str clk wr config conv remote (xs @ [x]) st0 = Going st"
    and "snd x = Received (buildPunchPacket punchCheck conv j) p" "\<forall>c. (buildPunchPacket punchCheck conv j, c) \<notin> set (pu_sent st)"
  shows "(j, p) \<in> peer_probes str clk wr config conv remote st0 (xs @ [x])"
  unfolding peer_probes_def
  by (intro CollectI case_prodI exI [of _ xs] exI [of _ x] exI [of _ "[]"] exI [of _ st] conjI refl assms)

lemma punch_run_inv:
  assumes "punch_run str clk wr config conv remote xs (punch_start clk config rnd) = Going st"
  shows "punch_inv str conv remote (datagrams xs) (peer_probes str clk wr config conv remote (punch_start clk config rnd) xs) st \<and>
    probes_ok config conv remote st"
  using assms
proof (induction xs arbitrary: st rule: rev_induct)
  case Nil
  then show ?case
    by (auto simp: punch_inv_def probes_ok_def punch_start_def)
next
  case (snoc x xs)
  let ?F = "peer_probes str clk wr config conv remote (punch_start clk config rnd)"
  obtain st1 where 1: "punch_run str clk wr config conv remote xs (punch_start clk config rnd) = Going st1"
    "punch_turn str clk wr config conv remote x st1 = Going st"
    using snoc.prems by (auto simp: punch_run_snoc split: punch_result.splits)
  have "?F xs \<subseteq> ?F (xs @ [x])"
    by (rule peer_probes_mono)
  moreover have "datagrams xs \<subseteq> datagrams (xs @ [x])" "datagrams [x] \<subseteq> datagrams (xs @ [x])"
    by (auto simp: datagrams_def)
  moreover have "(j, p) \<in> ?F (xs @ [x])" if "snd x = Received (buildPunchPacket punchCheck conv j) p"
    "\<forall>c. (buildPunchPacket punchCheck conv j, c) \<notin> set (pu_sent st)" for j p
    using peer_probes_last [OF snoc.prems that] .
  ultimately show ?case
    using snoc.IH [OF 1(1)] by (intro punch_turn_inv [OF punch_inv_mono _ 1(2)]) auto
qed

lemma punch_run_found:
  assumes "punch_run str clk wr config conv remote is st0 = Found ep"
  shows "\<exists>xs ys st. is = xs @ ys \<and> punch_run str clk wr config conv remote xs st0 = Going st \<and>
    pu_successDeadline st \<noteq> None \<and> ep = pu_selectedRemote st"
  using assms
proof (induction "is" arbitrary: st0)
  case (Cons i "is")
  show ?case
  proof (cases "punch_turn str clk wr config conv remote i st0")
    case (Going st1)
    then have f: "punch_run str clk wr config conv remote is st1 = Found ep"
      using Cons.prems by simp
    obtain xs ys st where "is = xs @ ys" "punch_run str clk wr config conv remote xs st1 = Going st"
      "pu_successDeadline st \<noteq> None" "ep = pu_selectedRemote st"
      using Cons.IH [OF f] by blast
    then show ?thesis
      using Going by (intro exI [of _ "i # xs"] exI [of _ ys] exI [of _ st]) simp
  next
    case (Found r)
    then have "pu_successDeadline st0 \<noteq> None" "r = pu_selectedRemote st0"
      by (auto simp: punch_turn_def punch_receive_def punch_now_def split: option.splits if_splits sum.splits punch_read.splits)
    then show ?thesis
      using Found Cons.prems by (intro exI [of _ "[]"] exI [of _ "i # is"] exI [of _ st0]) simp
  qed (use Cons.prems in simp)
qed simp

text \<open>C28: Hole punching reports an endpoint only if the path works in both directions. Whatever datagrams arrive,
  if the loop ends with an endpoint, then at that moment the endpoint has the address of the peer; it
  acknowledged a probe that we had sent to a candidate port of the peer, we sent it our confirmation of that probe, and the
  same endpoint acknowledged the confirmation; and a probe that is not one of ours reflected back (no probe with
  its number had been sent when it arrived) and its confirmation arrived from one endpoint at the peer's address, and
  we acknowledged that confirmation. Endpoints are compared by their printed form, as the code does.\<close>

theorem punch_two_way:
  assumes "punch_run str clk wr config conv remote is (punch_start clk config rnd) = Found ep"
  shows "\<exists>xs ys st r i c r' j p p'. is = xs @ ys \<and>
    punch_run str clk wr config conv remote xs (punch_start clk config rnd) = Going st \<and>
    ep = Some r \<and> ip_Equal (ua_IP r) (ua_IP remote) \<and>
    c \<in> set (punch_candidates config remote) \<and> (buildPunchPacket punchCheck conv i, c) \<in> set (pu_sent st) \<and>
    (buildPunchPacket punchCheckAck conv i, r) \<in> datagrams xs \<and>
    (buildPunchPacket punchConfirm conv i, r) \<in> set (pu_sent st) \<and>
    (buildPunchPacket punchConfirmAck conv i, r') \<in> datagrams xs \<and> str r' = str r \<and>
    (j, p) \<in> peer_probes str clk wr config conv remote (punch_start clk config rnd) xs \<and>
    (buildPunchPacket punchConfirm conv j, p') \<in> datagrams xs \<and> str p = str p' \<and> ip_Equal (ua_IP p') (ua_IP remote) \<and>
    (buildPunchPacket punchConfirmAck conv j, p') \<in> set (pu_sent st)"
proof -
  obtain xs ys st where st: "is = xs @ ys" "punch_run str clk wr config conv remote xs (punch_start clk config rnd) = Going st"
    "pu_successDeadline st \<noteq> None" "ep = pu_selectedRemote st"
    using punch_run_found [OF assms] by blast
  note i = punch_run_inv [OF st(2)]
  then have c: "pu_localConfirmed st" "pu_peerConfirmed st"
    using st(3) by (auto simp: punch_inv_def)
  obtain r r' where r: "pu_selectedRemote st = Some r" "str r' = str r"
    "(buildPunchPacket punchConfirmAck conv (pu_selectedTransactionID st), r') \<in> datagrams xs"
    using i c(1) unfolding punch_inv_def by blast
  then have s: "ip_Equal (ua_IP r) (ua_IP remote)" "pu_selectedTransactionID st \<in> set (pu_outbound st)"
    "(buildPunchPacket punchCheckAck conv (pu_selectedTransactionID st), r) \<in> datagrams xs"
    "(buildPunchPacket punchConfirm conv (pu_selectedTransactionID st), r) \<in> set (pu_sent st)"
    using i unfolding punch_inv_def by blast+
  obtain k where k: "k \<in> set (punch_candidates config remote)"
    "(buildPunchPacket punchCheck conv (pu_selectedTransactionID st), k) \<in> set (pu_sent st)"
    using i s(2) unfolding probes_ok_def by blast
  obtain j p p' where j: "(j, p) \<in> peer_probes str clk wr config conv remote (punch_start clk config rnd) xs"
    "(buildPunchPacket punchConfirm conv j, p') \<in> datagrams xs" "str p = str p'" "ip_Equal (ua_IP p') (ua_IP remote)"
    "(buildPunchPacket punchConfirmAck conv j, p') \<in> set (pu_sent st)"
    using i c(2) unfolding punch_inv_def by blast
  show ?thesis
    by (intro exI [of _ xs] exI [of _ ys] exI [of _ st] exI [of _ r] exI [of _ "pu_selectedTransactionID st"] exI [of _ k]
        exI [of _ r'] exI [of _ j] exI [of _ p] exI [of _ p'] conjI) (fact st k r s j | rule trans [OF st(4) r(1)])+
qed

definition peer_addr :: UDPAddr where
  "peer_addr = \<lparr>ua_IP = [10, 0, 0, 2], ua_Port = 4000, ua_Zone = []\<rparr>"

definition punch_inputs :: "(string option \<times> punch_read) list" where
  "punch_inputs = [(None, Received (buildPunchPacket punchCheck 5 900) peer_addr),
     (None, Received (buildPunchPacket punchCheckAck 5 100) peer_addr),
     (None, Received (buildPunchPacket punchConfirm 5 900) peer_addr),
     (None, Received (buildPunchPacket punchConfirmAck 5 100) peer_addr), (None, Read_retry)]"

definition punch_clock :: "nat \<Rightarrow> int" where
  "punch_clock n = (if n < 9 then int n else 50000000)"

theorem punch_two_way_witness:
  "punch_run (\<lambda>a. ''e'') punch_clock (\<lambda>n. None) defaultPunchConfig 5 peer_addr punch_inputs (punch_start punch_clock defaultPunchConfig 100)
     = Found (Some peer_addr) \<and>
   (\<exists>xs ys i. punch_inputs = xs @ ys \<and> (buildPunchPacket punchCheckAck 5 i, peer_addr) \<in> datagrams xs)"
proof -
  have r: "punch_run (\<lambda>a. ''e'') punch_clock (\<lambda>n. None) defaultPunchConfig 5 peer_addr punch_inputs (punch_start punch_clock defaultPunchConfig 100)
     = Found (Some peer_addr)"
    by code_simp
  from punch_two_way [OF r] have "\<exists>xs ys i. punch_inputs = xs @ ys \<and> (buildPunchPacket punchCheckAck 5 i, peer_addr) \<in> datagrams xs"
    by (elim exE conjE) (simp only: option.inject, blast)
  with r show ?thesis ..
qed

end
