(* ===== verification/Route_Table.thy ===== *)
theory Route_Table
  imports Proto_Utils "HOL-Library.Multiset" "HOL-Library.Sublist"
begin

text \<open>
  The routing table of \<^verbatim>\<open>src/engine/ipv4_engine.go\<close>: a binary trie over the bits of the destination,
  with a list of equivalent routes in a node. A \<^verbatim>\<open>nil\<close> list is \<^const>\<open>None\<close>, which the code
  distinguishes from an empty one. The specification is the list of the routes in the order of
  their insertion, and longest-prefix match on it.
\<close>

subsection \<open>The table\<close>

record RouteEntry =
  DstIpAddr :: Ipv4Addr
  NetworkMask :: Ipv4Addr
  NextHop :: Ipv4Addr
  HasNextHop :: bool
  NetIfName :: string

datatype TrieNode = TrieNode (RouteList: "RouteEntry list option") (LeftNode: "TrieNode option") (RightNode: "TrieNode option")

definition new_node :: TrieNode where
  "new_node = TrieNode None None None"

fun mask_loop :: "u32 \<Rightarrow> nat list \<Rightarrow> nat \<Rightarrow> nat" where
  "mask_loop networkMaskU [] maskSize = maskSize"
| "mask_loop networkMaskU (i # is) maskSize =
     (if push_bit i networkMaskU = 0 then maskSize + 1 else mask_loop networkMaskU is (maskSize + 1))"

definition mask_size :: "u32 \<Rightarrow> nat" where
  "mask_size networkMaskU = (if networkMaskU \<noteq> 0 then mask_loop networkMaskU [1..<33] 0 else 0)"

definition addr_bit :: "Ipv4Addr \<Rightarrow> nat \<Rightarrow> u8" where
  "addr_bit ip i = drop_bit (7 - i mod 8) (ip_bytes ip ! (i div 8)) AND 1"

text \<open>Walking down the bits \<open>is\<close> of the address, making the nodes that are missing, and changing the list at the end.\<close>

fun node_update :: "Ipv4Addr \<Rightarrow> nat list \<Rightarrow> (RouteEntry list option \<Rightarrow> RouteEntry list) \<Rightarrow> TrieNode \<Rightarrow> TrieNode" where
  "node_update ip [] f (TrieNode rl a b) = TrieNode (Some (f rl)) a b"
| "node_update ip (i # is) f (TrieNode rl a b) =
     (if addr_bit ip i = 0
      then TrieNode rl (Some (node_update ip is f (case a of None \<Rightarrow> new_node | Some n \<Rightarrow> n))) b
      else TrieNode rl a (Some (node_update ip is f (case b of None \<Rightarrow> new_node | Some n \<Rightarrow> n))))"

definition same_route :: "RouteEntry \<Rightarrow> RouteEntry \<Rightarrow> bool" where
  "same_route routeEntry oldRoute \<longleftrightarrow> DstIpAddr routeEntry = DstIpAddr oldRoute \<and> NetworkMask routeEntry = NetworkMask oldRoute \<and>
     HasNextHop routeEntry = HasNextHop oldRoute \<and> (\<not> HasNextHop routeEntry \<or> NextHop routeEntry = NextHop oldRoute) \<and>
     NetIfName routeEntry = NetIfName oldRoute"

definition UpdateRoute :: "RouteEntry \<Rightarrow> RouteEntry option \<Rightarrow> TrieNode \<Rightarrow> TrieNode" where
  "UpdateRoute oldRoute newRoute root =
     node_update (DstIpAddr oldRoute) [0..<mask_size (IpAddrToU (NetworkMask oldRoute))]
       (\<lambda>rl. filter (\<lambda>e. \<not> same_route e oldRoute) (case rl of None \<Rightarrow> [] | Some l \<Rightarrow> l) @
             (case newRoute of None \<Rightarrow> [] | Some r \<Rightarrow> [r])) root"

definition AddRoute :: "RouteEntry \<Rightarrow> TrieNode \<Rightarrow> TrieNode" where
  "AddRoute route root = UpdateRoute route (Some route) root"

definition DeleteRoute :: "RouteEntry \<Rightarrow> TrieNode \<Rightarrow> TrieNode" where
  "DeleteRoute route root = UpdateRoute route None root"

text \<open>\<^verbatim>\<open>fnv.New32a\<close> of the Go library.\<close>

definition fnv32a :: "bytes \<Rightarrow> u32" where
  "fnv32a data = foldl (\<lambda>h b. (h XOR ucast b) * 16777619) 2166136261 data"

definition keep_list :: "TrieNode \<Rightarrow> RouteEntry list option \<Rightarrow> RouteEntry list option" where
  "keep_list node lastMatch = (case RouteList node of None \<Rightarrow> lastMatch | Some l \<Rightarrow> Some l)"

fun find_loop :: "Ipv4Addr \<Rightarrow> nat list \<Rightarrow> TrieNode \<Rightarrow> RouteEntry list option \<Rightarrow> TrieNode \<times> RouteEntry list option" where
  "find_loop ip [] node lastMatch = (node, lastMatch)"
| "find_loop ip (i # is) node lastMatch =
     (case (if addr_bit ip i = 0 then LeftNode node else RightNode node) of
        None \<Rightarrow> (node, keep_list node lastMatch)
      | Some n \<Rightarrow> find_loop ip is n (keep_list node lastMatch))"

text \<open>\<^const>\<open>None\<close> is the panic of the division by the length of the list, as 32 bits, when it is zero.\<close>

definition FindRoute :: "TrieNode \<Rightarrow> Ipv4Addr \<Rightarrow> RouteEntry option option" where
  "FindRoute root ip =
     (let (node, lastMatch) = find_loop ip [0..<32] root None in
      case keep_list node lastMatch of
        None \<Rightarrow> Some None
      | Some l \<Rightarrow> if (of_nat (length l) :: u32) = 0 then None
                  else Some (Some (l ! unat (fnv32a (ip_bytes ip) mod of_nat (length l)))))"

fun foreachNode :: "TrieNode option \<Rightarrow> RouteEntry list" where
  "foreachNode None = []"
| "foreachNode (Some (TrieNode rl a b)) = (case rl of None \<Rightarrow> [] | Some l \<Rightarrow> l) @ foreachNode a @ foreachNode b"

definition ListRoute :: "TrieNode \<Rightarrow> RouteEntry list" where
  "ListRoute root = foreachNode (Some root)"

subsection \<open>The lists of a trie by the path to them\<close>

fun route_at :: "TrieNode option \<Rightarrow> bool list \<Rightarrow> RouteEntry list option" where
  "route_at None p = None"
| "route_at (Some (TrieNode rl a b)) [] = rl"
| "route_at (Some (TrieNode rl a b)) (x # p) = route_at (if x then b else a) p"

abbreviation bits_of :: "Ipv4Addr \<Rightarrow> nat list \<Rightarrow> bool list" where
  "bits_of ip is \<equiv> map (\<lambda>i. addr_bit ip i \<noteq> 0) is"

lemma route_at_new [simp]: "route_at (Some new_node) p = None"
  by (cases p) (auto simp: new_node_def)

lemma route_at_case: "route_at (Some (case a of None \<Rightarrow> new_node | Some n \<Rightarrow> n)) p = route_at a p"
  by (cases a) auto

lemma route_at_update:
  "route_at (Some (node_update ip is f t)) p = (if p = bits_of ip is then Some (f (route_at (Some t) p)) else route_at (Some t) p)"
proof (induction ip "is" f t arbitrary: p rule: node_update.induct)
  case (1 ip f rl a b)
  then show ?case
    by (cases p) auto
next
  case (2 ip i "is" f rl a b)
  then show ?case
    by (cases p) (auto simp: route_at_case)
qed

text \<open>The search keeps the list at the longest prefix of the address that has one.\<close>

definition last_list :: "TrieNode \<Rightarrow> bool list list \<Rightarrow> RouteEntry list option \<Rightarrow> RouteEntry list option" where
  "last_list t ps acc = fold (\<lambda>p acc. case route_at (Some t) p of None \<Rightarrow> acc | Some l \<Rightarrow> Some l) ps acc"

lemma last_list_None: "(\<And>p. p \<in> set ps \<Longrightarrow> route_at (Some t) p = None) \<Longrightarrow> last_list t ps acc = acc"
  unfolding last_list_def by (induction ps arbitrary: acc) auto

lemma last_list_Cons: "last_list t (map ((#) x) ps) acc = (case (if x then RightNode t else LeftNode t) of None \<Rightarrow> acc | Some n \<Rightarrow> last_list n ps acc)"
  unfolding last_list_def by (cases t; induction ps arbitrary: acc) (auto split: option.splits)

lemma find_loop_last:
  "(case find_loop ip is t acc of (n, l) \<Rightarrow> keep_list n l) = last_list t (prefixes (bits_of ip is)) acc"
proof (induction ip "is" t acc rule: find_loop.induct)
  case (1 ip t acc)
  then show ?case
    by (cases t) (simp add: last_list_def keep_list_def split: option.splits)
next
  case (2 ip i "is" t acc)
  have head: "last_list t ([] # ps) acc = last_list t ps (keep_list t acc)" for ps
    by (cases t) (simp add: last_list_def keep_list_def split: option.splits)
  have keep: "keep_list t (keep_list t acc) = keep_list t acc"
    by (simp add: keep_list_def split: option.splits)
  show ?case
    using 2 by (auto simp: head keep last_list_Cons split: option.splits)
qed

lemma last_list_result:
  assumes "last_list t ps acc = Some l"
  shows "acc = Some l \<and> (\<forall>p \<in> set ps. route_at (Some t) p = None) \<or>
    (\<exists>xs p ys. ps = xs @ p # ys \<and> route_at (Some t) p = Some l \<and> (\<forall>q \<in> set ys. route_at (Some t) q = None))"
  using assms
proof (induction ps arbitrary: acc)
  case Nil
  then show ?case
    by (simp add: last_list_def)
next
  case (Cons p ps)
  let ?acc = "case route_at (Some t) p of None \<Rightarrow> acc | Some l \<Rightarrow> Some l"
  have "last_list t ps ?acc = Some l"
    using Cons.prems by (simp add: last_list_def)
  from Cons.IH [OF this] show ?case
  proof (elim disjE exE conjE)
    assume a: "?acc = Some l" "\<forall>p \<in> set ps. route_at (Some t) p = None"
    show ?case
    proof (cases "route_at (Some t) p")
      case (Some l')
      then have "p # ps = [] @ p # ps \<and> route_at (Some t) p = Some l \<and> (\<forall>q \<in> set ps. route_at (Some t) q = None)"
        using a by simp
      then show ?thesis
        by blast
    qed (use a in auto)
  next
    fix xs q ys
    assume "ps = xs @ q # ys" "route_at (Some t) q = Some l" "\<forall>q \<in> set ys. route_at (Some t) q = None"
    then have "p # ps = (p # xs) @ q # ys \<and> route_at (Some t) q = Some l \<and> (\<forall>q \<in> set ys. route_at (Some t) q = None)"
      by simp
    then show ?case
      by blast
  qed
qed

lemma last_list_empty: "last_list t ps acc = None \<Longrightarrow> \<forall>p \<in> set ps. route_at (Some t) p = None"
proof (induction ps arbitrary: acc)
  case (Cons p ps)
  let ?acc = "case route_at (Some t) p of None \<Rightarrow> acc | Some l \<Rightarrow> Some l"
  have n: "last_list t ps ?acc = None"
    using Cons.prems by (simp add: last_list_def)
  have "last_list t ps acc = acc" if "\<forall>p \<in> set ps. route_at (Some t) p = None" for acc
    using that by (intro last_list_None) auto
  then have "?acc = None"
    using Cons.IH [OF n] n by simp
  then show ?case
    using Cons.IH [OF n] by (auto split: option.splits)
qed simp

subsection \<open>Prefixes and masks\<close>

definition prefix_mask :: "nat \<Rightarrow> u32" where
  "prefix_mask n = NOT (mask (32 - n))"

definition contiguous :: "RouteEntry \<Rightarrow> bool" where
  "contiguous r \<longleftrightarrow> (\<exists>n \<le> 32. IpAddrToU (NetworkMask r) = prefix_mask n)"

definition matches :: "RouteEntry \<Rightarrow> Ipv4Addr \<Rightarrow> bool" where
  "matches r ip \<longleftrightarrow> IpAddrToU ip AND IpAddrToU (NetworkMask r) = IpAddrToU (DstIpAddr r) AND IpAddrToU (NetworkMask r)"

lemma bit_prefix_mask: "j < 32 \<Longrightarrow> bit (prefix_mask n) j \<longleftrightarrow> 31 - j < n"
  by (auto simp: prefix_mask_def bit_simps)

lemma push_prefix_mask:
  assumes "i \<le> 32" "n \<le> 32"
  shows "push_bit i (prefix_mask n) = 0 \<longleftrightarrow> n \<le> i"
proof
  assume z: "push_bit i (prefix_mask n) = 0"
  show "n \<le> i"
  proof (rule ccontr)
    assume "\<not> n \<le> i"
    then have "bit (push_bit i (prefix_mask n)) 31"
      using assms by (simp add: bit_push_bit_iff bit_prefix_mask)
    then show False
      by (simp add: z)
  qed
next
  assume "n \<le> i"
  then show "push_bit i (prefix_mask n) = 0"
    using assms by (intro bit_word_eqI) (auto simp: bit_push_bit_iff bit_prefix_mask)
qed

lemma mask_loop_prefix:
  assumes "n \<le> 32" "k < n"
  shows "mask_loop (prefix_mask n) [Suc k..<33] k = n"
  using assms
proof (induction "n - k" arbitrary: k)
  case (Suc d)
  have "[Suc k..<33] = Suc k # [Suc (Suc k)..<33]"
    using Suc.prems by (simp add: upt_conv_Cons)
  then show ?case
    using Suc push_prefix_mask [of "Suc k" n] by (cases "Suc k = n") auto
qed simp

lemma mask_size_prefix:
  assumes "n \<le> 32"
  shows "mask_size (prefix_mask n) = n"
proof (cases "n = 0")
  case True
  then show ?thesis
    by (simp add: mask_size_def prefix_mask_def mask_eq_exp_minus_1)
next
  case False
  then have "prefix_mask n \<noteq> 0"
    using push_prefix_mask [of 0 n] assms by simp
  then show ?thesis
    using mask_loop_prefix [of n 0] assms False unfolding mask_size_def by simp
qed

lemma prefix_mask_mono:
  assumes "m \<le> n"
  shows "prefix_mask m \<le> prefix_mask n"
proof -
  have "prefix_mask m = prefix_mask m AND prefix_mask n"
    using assms by (intro bit_word_eqI) (auto simp: bit_and_iff bit_prefix_mask)
  then show ?thesis
    by (metis word_and_le1)
qed

lemma addr_bit_nonzero: "addr_bit ip i \<noteq> 0 \<longleftrightarrow> bit (ip_bytes ip ! (i div 8)) (7 - i mod 8)"
proof -
  have "drop_bit k b AND 1 \<noteq> 0 \<longleftrightarrow> bit b k" for b :: u8 and k
    by (simp add: and_one_eq bit_iff_odd_drop_bit odd_iff_mod_2_eq_one)
  then show ?thesis
    by (simp add: addr_bit_def)
qed

lemma bit_IpAddrToU:
  assumes "k < 8"
  shows "bit (IpAddrToU (Ipv4Addr a b c d)) (24 + k) = bit a k" "bit (IpAddrToU (Ipv4Addr a b c d)) (16 + k) = bit b k"
    "bit (IpAddrToU (Ipv4Addr a b c d)) (8 + k) = bit c k" "bit (IpAddrToU (Ipv4Addr a b c d)) k = bit d k"
proof -
  have "\<not> bit x n" if "8 \<le> n" for x :: u8 and n
    using that by (simp add: impossible_bit)
  then show "bit (IpAddrToU (Ipv4Addr a b c d)) (24 + k) = bit a k" "bit (IpAddrToU (Ipv4Addr a b c d)) (16 + k) = bit b k"
    "bit (IpAddrToU (Ipv4Addr a b c d)) (8 + k) = bit c k" "bit (IpAddrToU (Ipv4Addr a b c d)) k = bit d k"
    using assms by (simp_all add: bit_or_iff bit_push_bit_iff bit_unsigned_iff)
qed

lemma addr_bit_iff:
  assumes "i < 32"
  shows "addr_bit ip i \<noteq> 0 \<longleftrightarrow> bit (IpAddrToU ip) (31 - i)"
proof (cases ip)
  case (Ipv4Addr a b c d)
  define q k r where "q = i div 8" and "k = 7 - i mod 8" and "r = i mod 8"
  have r: "i = 8 * q + r" "r < 8" "k = 7 - r" "q < 4"
    using assms by (auto simp: q_def r_def k_def)
  have k: "k < 8" "q = 0 \<or> q = 1 \<or> q = 2 \<or> q = 3"
    using r(3,4) by linarith+
  have "q = 0 \<Longrightarrow> 31 - i = 24 + k" "q = 1 \<Longrightarrow> 31 - i = 16 + k" "q = 2 \<Longrightarrow> 31 - i = 8 + k" "q = 3 \<Longrightarrow> 31 - i = k"
    using r(1-3) by linarith+
  then have q: "q = 0 \<and> 31 - i = 24 + k \<or> q = 1 \<and> 31 - i = 16 + k \<or> q = 2 \<and> 31 - i = 8 + k \<or> q = 3 \<and> 31 - i = k"
    using k(2) by blast
  have "bit (ip_bytes ip ! q) k \<longleftrightarrow> bit (IpAddrToU ip) (31 - i)"
    using q bit_IpAddrToU [OF k(1), of a b c d] unfolding Ipv4Addr
    by (elim disjE) (simp_all only: ip_bytes.simps nth_Cons_0 nth_Cons_numeral, simp_all)
  then show ?thesis
    unfolding addr_bit_nonzero q_def k_def .
qed

lemma matches_bits:
  assumes "n \<le> 32"
  shows "x AND prefix_mask n = y AND prefix_mask n \<longleftrightarrow> (\<forall>i < n. bit x (31 - i) \<longleftrightarrow> bit y (31 - i))"
proof
  assume e: "x AND prefix_mask n = y AND prefix_mask n"
  show "\<forall>i < n. bit x (31 - i) \<longleftrightarrow> bit y (31 - i)"
  proof (intro allI impI)
    fix i
    assume "i < n"
    then have "bit (prefix_mask n) (31 - i)"
      using assms by (auto simp: prefix_mask_def bit_simps)
    then show "bit x (31 - i) \<longleftrightarrow> bit y (31 - i)"
      using arg_cong [OF e, of "\<lambda>w. bit w (31 - i)"] by (simp add: bit_simps)
  qed
next
  assume b: "\<forall>i < n. bit x (31 - i) \<longleftrightarrow> bit y (31 - i)"
  show "x AND prefix_mask n = y AND prefix_mask n"
  proof (rule bit_word_eqI)
    fix j
    assume j: "j < LENGTH(32)"
    show "bit (x AND prefix_mask n) j \<longleftrightarrow> bit (y AND prefix_mask n) j"
    proof (cases "bit (prefix_mask n) j")
      case True
      then have "31 - j < n" "31 - (31 - j) = j"
        using j by (auto simp: prefix_mask_def bit_simps)
      then show ?thesis
        using b by (metis bit_and_iff)
    qed (simp add: bit_simps)
  qed
qed

lemma prefix_take: "prefix xs ys \<longleftrightarrow> xs = take (length xs) ys"
  by (metis append_eq_conv_conj prefix_def take_is_prefix)

lemma prefix_bits: "n \<le> m \<Longrightarrow> prefix (bits_of a [0..<n]) (bits_of b [0..<m]) \<longleftrightarrow> bits_of a [0..<n] = bits_of b [0..<n]"
  unfolding prefix_take by (simp add: take_map)

definition route_path :: "RouteEntry \<Rightarrow> bool list" where
  "route_path r = bits_of (DstIpAddr r) [0..<mask_size (IpAddrToU (NetworkMask r))]"

lemma matches_prefix:
  assumes "contiguous r"
  shows "matches r ip \<longleftrightarrow> prefix (route_path r) (bits_of ip [0..<32])"
    and "length (route_path r) \<le> 32" "IpAddrToU (NetworkMask r) = prefix_mask (length (route_path r))"
proof -
  obtain n where n: "n \<le> 32" "IpAddrToU (NetworkMask r) = prefix_mask n"
    using assms by (auto simp: contiguous_def)
  have p: "route_path r = bits_of (DstIpAddr r) [0..<n]"
    by (simp add: route_path_def n mask_size_prefix)
  then show "length (route_path r) \<le> 32" "IpAddrToU (NetworkMask r) = prefix_mask (length (route_path r))"
    using n by simp_all
  have "prefix (route_path r) (bits_of ip [0..<32]) \<longleftrightarrow> bits_of (DstIpAddr r) [0..<n] = bits_of ip [0..<n]"
    unfolding p by (rule prefix_bits [OF n(1)])
  also have "bits_of (DstIpAddr r) [0..<n] = bits_of ip [0..<n] \<longleftrightarrow> (\<forall>i < n. bit (IpAddrToU ip) (31 - i) \<longleftrightarrow> bit (IpAddrToU (DstIpAddr r)) (31 - i))"
    using n(1) addr_bit_iff by (auto simp: less_le_trans)
  finally show "matches r ip \<longleftrightarrow> prefix (route_path r) (bits_of ip [0..<32])"
    unfolding matches_def n(2) matches_bits [OF n(1)] by simp
qed

subsection \<open>The table implements a list of routes\<close>

text \<open>The routes that are left after inserting some one after the other: a new route replaces an equal one.\<close>

definition insert_route :: "RouteEntry \<Rightarrow> RouteEntry list \<Rightarrow> RouteEntry list" where
  "insert_route r R = filter (\<lambda>e. \<not> same_route e r) R @ [r]"

definition holds :: "TrieNode \<Rightarrow> RouteEntry list \<Rightarrow> bool" where
  "holds t R \<longleftrightarrow> (\<forall>p. route_at (Some t) p = (let l = filter (\<lambda>r. route_path r = p) R in if l = [] then None else Some l)) \<and>
     mset (ListRoute t) = mset R"

lemma same_route_path: "same_route e r \<Longrightarrow> route_path e = route_path r"
  by (simp add: same_route_def route_path_def)

lemma mset_node_update:
  "mset (foreachNode (Some (node_update ip is f t))) + mset (case route_at (Some t) (bits_of ip is) of None \<Rightarrow> [] | Some l \<Rightarrow> l) =
   mset (foreachNode (Some t)) + mset (f (route_at (Some t) (bits_of ip is)))"
proof (induction ip "is" f t rule: node_update.induct)
  case (2 ip i "is" f rl a b)
  have new: "foreachNode (Some (case a of None \<Rightarrow> new_node | Some n \<Rightarrow> n)) = foreachNode a" for a
    by (cases a) (simp_all add: new_node_def)
  show ?case
    using 2 by (auto simp: route_at_case new ac_simps union_assoc)
qed auto

lemma holds_new: "holds new_node []"
  by (simp add: holds_def ListRoute_def new_node_def del: route_at_new) (simp flip: new_node_def)

lemma holds_insert:
  assumes "holds t R"
  shows "holds (AddRoute r t) (insert_route r R)"
proof -
  let ?p = "route_path r" and ?old = "filter (\<lambda>e. \<not> same_route e r) (filter (\<lambda>e. route_path e = route_path r) R)"
  let ?f = "\<lambda>rl. filter (\<lambda>e. \<not> same_route e r) (case rl of None \<Rightarrow> [] | Some l \<Rightarrow> l) @ [r]"
  have t: "AddRoute r t = node_update (DstIpAddr r) [0..<mask_size (IpAddrToU (NetworkMask r))] ?f t"
    by (simp add: AddRoute_def UpdateRoute_def)
  have l: "(case route_at (Some t) ?p of None \<Rightarrow> [] | Some l \<Rightarrow> l) = filter (\<lambda>e. route_path e = ?p) R"
    using assms by (simp add: holds_def Let_def)
  have at: "route_at (Some (AddRoute r t)) p = (if p = ?p then Some (?old @ [r]) else route_at (Some t) p)" for p
    unfolding t route_at_update route_path_def [symmetric] by (simp add: l)
  have other: "filter (\<lambda>e. route_path e = p) (insert_route r R) = filter (\<lambda>e. route_path e = p) R" if "p \<noteq> ?p" for p
    using that same_route_path [of _ r] by (auto simp: insert_route_def intro!: filter_cong)
  have same: "filter (\<lambda>e. route_path e = ?p) (insert_route r R) = ?old @ [r]"
    by (auto simp: insert_route_def intro: filter_cong)
  have "route_at (Some (AddRoute r t)) p =
      (let l = filter (\<lambda>e. route_path e = p) (insert_route r R) in if l = [] then None else Some l)" for p
    using assms by (cases "p = ?p") (simp_all add: at other same holds_def Let_def)
  moreover have "mset (ListRoute (AddRoute r t)) = mset (insert_route r R)"
  proof -
    let ?eq = "filter_mset (\<lambda>e. route_path e = ?p) (mset R)"
    have "mset (ListRoute (AddRoute r t)) + ?eq = mset R + mset (?old @ [r])"
      using mset_node_update [of "DstIpAddr r" "[0..<mask_size (IpAddrToU (NetworkMask r))]" ?f t] assms
      unfolding t ListRoute_def route_path_def [symmetric] by (simp add: l holds_def ListRoute_def)
    moreover have "mset (insert_route r R) + ?eq = mset R + mset (?old @ [r])"
    proof -
      have e: "filter_mset (\<lambda>e. \<not> same_route e r) M + filter_mset (\<lambda>e. route_path e = ?p) M =
          M + filter_mset (\<lambda>e. \<not> same_route e r) (filter_mset (\<lambda>e. route_path e = ?p) M)" for M
        using same_route_path [of _ r] by (induction M) auto
      show ?thesis
        using e [of "mset R"] by (simp add: insert_route_def filter_filter_mset)
    qed
    ultimately show ?thesis
      by (metis add_right_cancel)
  qed
  ultimately show ?thesis
    unfolding holds_def by blast
qed

lemma holds_fold: "holds t R \<Longrightarrow> holds (fold AddRoute rs t) (fold insert_route rs R)"
  by (induction rs arbitrary: t R) (auto intro: holds_insert)

lemma fold_insert_sub: "set (fold insert_route rs R) \<subseteq> set R \<union> set rs"
  by (induction rs arbitrary: R) (fastforce simp: insert_route_def)+

lemma fold_insert_has: "r \<in> set R \<union> set rs \<Longrightarrow> \<exists>e \<in> set (fold insert_route rs R). same_route e r"
proof (induction rs arbitrary: R r)
  case Nil
  then show ?case
    by (auto simp: same_route_def)
next
  case (Cons x rs)
  have "\<exists>e \<in> set (insert_route x R) \<union> set rs. same_route e r"
  proof (cases "same_route r x")
    case True
    then have "same_route x r"
      by (auto simp: same_route_def)
    then show ?thesis
      by (auto simp: insert_route_def)
  next
    case False
    then have "r \<in> set (insert_route x R) \<union> set rs" "same_route r r"
      using Cons.prems by (auto simp: insert_route_def same_route_def)
    then show ?thesis by blast
  qed
  then obtain e where e: "e \<in> set (insert_route x R) \<union> set rs" "same_route e r"
    by blast
  obtain e' where "e' \<in> set (fold insert_route rs (insert_route x R))" "same_route e' e"
    using Cons.IH [OF e(1)] by blast
  then show ?case
    using e(2) by (auto simp: same_route_def intro!: bexI [of _ e'])
qed

lemma sorted_prefixes: "sorted_wrt (\<lambda>a b. length a < length b) (prefixes xs)"
  by (induction xs) (auto simp: sorted_wrt_map)

lemma length_fold_insert: "length (fold insert_route rs R) \<le> length R + length rs"
proof (induction rs arbitrary: R)
  case (Cons r rs)
  have "length (insert_route r R) \<le> Suc (length R)"
    by (simp add: insert_route_def)
  then show ?case
    using Cons [of "insert_route r R"] by simp
qed simp

lemma find_route_holds:
  assumes "holds t R" "length R < 2 ^ 32" "\<And>r. r \<in> set R \<Longrightarrow> contiguous r"
  shows "\<exists>res. FindRoute t ip = Some res \<and> (case res of None \<Rightarrow> \<forall>r \<in> set R. \<not> matches r ip
    | Some r \<Rightarrow> r \<in> set R \<and> matches r ip \<and> (\<forall>r' \<in> set R. matches r' ip \<longrightarrow> IpAddrToU (NetworkMask r') \<le> IpAddrToU (NetworkMask r)))"
proof -
  let ?bits = "bits_of ip [0..<32]"
  have at: "route_at (Some t) p = (let l = filter (\<lambda>r. route_path r = p) R in if l = [] then None else Some l)" for p
    using assms(1) unfolding holds_def by blast
  have mp: "matches r ip \<longleftrightarrow> route_path r \<in> set (prefixes ?bits)" if "r \<in> set R" for r
    using matches_prefix(1) [OF assms(3) [OF that]] by (metis in_set_prefixes)
  define res where "res = last_list t (prefixes ?bits) None"
  have f: "FindRoute t ip = (case res of None \<Rightarrow> Some None
      | Some l \<Rightarrow> if (of_nat (length l) :: u32) = 0 then None
                  else Some (Some (l ! unat (fnv32a (ip_bytes ip) mod of_nat (length l)))))"
    unfolding FindRoute_def res_def find_loop_last [symmetric] Let_def by (simp add: case_prod_beta)
  show ?thesis
  proof (cases res)
    case None
    then have "\<forall>p \<in> set (prefixes ?bits). route_at (Some t) p = None"
      unfolding res_def by (rule last_list_empty)
    then have "\<not> matches r ip" if "r \<in> set R" for r
      using mp [OF that] that unfolding at by (auto simp: Let_def filter_empty_conv split: if_splits)
    then show ?thesis
      using f None by simp
  next
    case (Some l)
    then obtain xs p ys where p: "prefixes ?bits = xs @ p # ys" "route_at (Some t) p = Some l" "\<forall>q \<in> set ys. route_at (Some t) q = None"
      using last_list_result [of t "prefixes ?bits" None l] unfolding res_def by auto
    then have l: "l = filter (\<lambda>r. route_path r = p) R" "l \<noteq> []"
      unfolding at by (auto simp: Let_def split: if_splits)
    define r where "r = l ! unat (fnv32a (ip_bytes ip) mod of_nat (length l))"
    have "length l \<le> length R"
      unfolding l(1) by (rule length_filter_le)
    then have n: "unat (of_nat (length l) :: u32) = length l"
      using assms(2) by (simp add: unat_of_nat)
    have nz: "(of_nat (length l) :: u32) \<noteq> 0"
      using n l(2) by (metis length_0_conv unat_0)
    have "unat (fnv32a (ip_bytes ip) mod of_nat (length l)) < length l"
      unfolding unat_mod n using l(2) by simp
    then have "r \<in> set l"
      by (simp add: r_def)
    then have r: "r \<in> set R" "route_path r = p"
      by (auto simp: l(1))
    have "IpAddrToU (NetworkMask r') \<le> IpAddrToU (NetworkMask r)" if m: "r' \<in> set R" "matches r' ip" for r'
    proof -
      have "route_path r' \<notin> set ys"
        using p(3) m(1) unfolding at by (auto simp: Let_def filter_empty_conv split: if_splits)
      moreover have "route_path r' \<in> set (prefixes ?bits)"
        using mp m by blast
      ultimately have "length (route_path r') \<le> length p"
        using sorted_prefixes [of ?bits] unfolding p(1) by (auto simp: sorted_wrt_append less_imp_le)
      then show ?thesis
        using matches_prefix(3) [OF assms(3) [OF m(1)]] matches_prefix(3) [OF assms(3) [OF r(1)]] r(2) by (simp add: prefix_mask_mono)
    qed
    moreover have "matches r ip"
      using mp [OF r(1)] r(2) p(1) by simp
    ultimately show ?thesis
      using f Some nz r(1) by (simp add: r_def)
  qed
qed

text \<open>C10: Route lookup is longest-prefix match: after inserting any routes with contiguous masks in any order,
  looking up an address never fails; it finds no route exactly if no inserted route matches the address under
  its mask, and otherwise an inserted route that matches and has a longest mask among those that match.\<close>

theorem route_lookup_longest_prefix:
  assumes "list_all contiguous rs" "length rs < 2 ^ 32"
  shows "\<exists>res. FindRoute (fold AddRoute rs new_node) ip = Some res \<and> (case res of
      None \<Rightarrow> \<forall>r \<in> set rs. \<not> matches r ip
    | Some r \<Rightarrow> r \<in> set rs \<and> matches r ip \<and> (\<forall>r' \<in> set rs. matches r' ip \<longrightarrow> IpAddrToU (NetworkMask r') \<le> IpAddrToU (NetworkMask r)))"
proof -
  let ?R = "fold insert_route rs []"
  have h: "holds (fold AddRoute rs new_node) ?R"
    by (rule holds_fold [OF holds_new])
  have sub: "set ?R \<subseteq> set rs" "length ?R < 2 ^ 32"
    using fold_insert_sub [of rs "[]"] length_fold_insert [of rs "[]"] assms(2) by auto
  have has: "\<exists>e \<in> set ?R. (matches e ip \<longleftrightarrow> matches r ip) \<and> NetworkMask e = NetworkMask r" if r: "r \<in> set rs" for r
  proof -
    obtain e where e: "e \<in> set ?R" "same_route e r"
      using fold_insert_has [of r "[]" rs] r by auto
    then have "DstIpAddr e = DstIpAddr r" "NetworkMask e = NetworkMask r"
      by (simp_all add: same_route_def)
    then show ?thesis
      using e(1) by (intro bexI [of _ e]) (simp_all add: matches_def)
  qed
  obtain res where res: "FindRoute (fold AddRoute rs new_node) ip = Some res" "case res of None \<Rightarrow> \<forall>r \<in> set ?R. \<not> matches r ip
    | Some r \<Rightarrow> r \<in> set ?R \<and> matches r ip \<and> (\<forall>r' \<in> set ?R. matches r' ip \<longrightarrow> IpAddrToU (NetworkMask r') \<le> IpAddrToU (NetworkMask r))"
    using find_route_holds [OF h sub(2), of ip] sub(1) assms(1) unfolding list_all_iff by blast
  then show ?thesis
  proof (cases res)
    case None
    then show ?thesis
      using res has by fastforce
  next
    case (Some r)
    have "IpAddrToU (NetworkMask r') \<le> IpAddrToU (NetworkMask r)" if m: "r' \<in> set rs" "matches r' ip" for r'
      using has [OF m(1)] m(2) res(2) Some by auto
    then show ?thesis
      using res Some sub(1) by auto
  qed
qed

definition route_a :: RouteEntry where
  "route_a = \<lparr>DstIpAddr = Ipv4Addr 10 0 0 0, NetworkMask = Ipv4Addr 255 0 0 0, NextHop = Ipv4Addr 1 1 1 1, HasNextHop = True, NetIfName = ''a''\<rparr>"

definition route_b :: RouteEntry where
  "route_b = \<lparr>DstIpAddr = Ipv4Addr 10 7 0 0, NetworkMask = Ipv4Addr 255 255 0 0, NextHop = Ipv4Addr 0 0 0 0, HasNextHop = False, NetIfName = ''b''\<rparr>"

lemma example_routes: "contiguous route_a" "contiguous route_b"
proof -
  have "IpAddrToU (NetworkMask route_a) = prefix_mask 8" "IpAddrToU (NetworkMask route_b) = prefix_mask 16"
    by code_simp+
  moreover have "(8 :: nat) \<le> 32" "(16 :: nat) \<le> 32"
    by simp_all
  ultimately show "contiguous route_a" "contiguous route_b"
    unfolding contiguous_def by blast+
qed

theorem route_lookup_longest_prefix_witness:
  "FindRoute (fold AddRoute [route_b, route_a] new_node) (Ipv4Addr 10 7 1 1) = Some (Some route_b) \<and>
   (\<exists>r. FindRoute (fold AddRoute [route_b, route_a] new_node) (Ipv4Addr 10 9 1 1) = Some (Some r) \<and> matches r (Ipv4Addr 10 9 1 1))"
proof (rule conjI)
  show "FindRoute (fold AddRoute [route_b, route_a] new_node) (Ipv4Addr 10 7 1 1) = Some (Some route_b)"
    by code_simp
  have m: "matches route_a (Ipv4Addr 10 9 1 1)"
    by code_simp
  have "list_all contiguous [route_b, route_a]"
    using example_routes by simp
  from route_lookup_longest_prefix [OF this, of "Ipv4Addr 10 9 1 1"]
  show "\<exists>r. FindRoute (fold AddRoute [route_b, route_a] new_node) (Ipv4Addr 10 9 1 1) = Some (Some r) \<and> matches r (Ipv4Addr 10 9 1 1)"
    using m by (auto split: option.splits)
qed

text \<open>C32: Listing the table gives exactly the routes that were inserted, each once, equal routes replacing one another.\<close>

theorem route_list_complete:
  "mset (ListRoute (fold AddRoute rs new_node)) = mset (fold insert_route rs [])"
  using holds_fold [OF holds_new, of rs] by (simp add: holds_def)

text \<open>C33: Deleting the last route of a prefix leaves an empty list in its node, which the search takes for a match:
  from then on, looking up any address under that prefix in a table that had only this route panics.\<close>

theorem deleted_route_panics:
  assumes "contiguous r" "matches r ip"
  shows "FindRoute (DeleteRoute r (AddRoute r new_node)) ip = None"
proof -
  let ?t = "DeleteRoute r (AddRoute r new_node)" and ?bits = "bits_of ip [0..<32]"
  have "same_route r r"
    by (simp add: same_route_def)
  then have at: "route_at (Some ?t) p = (if p = route_path r then Some [] else None)" for p
    by (simp add: DeleteRoute_def AddRoute_def UpdateRoute_def route_at_update flip: route_path_def)
  have "route_path r \<in> set (prefixes ?bits)"
    using matches_prefix(1) [OF assms(1)] assms(2) by (metis in_set_prefixes)
  then have "last_list ?t (prefixes ?bits) None \<noteq> None"
    using last_list_empty [of ?t "prefixes ?bits" None] at by (metis option.distinct(1))
  then obtain l where l: "last_list ?t (prefixes ?bits) None = Some l"
    by blast
  then have "l = []"
    using last_list_result [OF l] at by (auto split: if_splits)
  then show ?thesis
    using l unfolding FindRoute_def find_loop_last [symmetric] Let_def by (auto simp: case_prod_beta)
qed

theorem deleted_route_panics_witness:
  "contiguous route_a \<and> matches route_a (Ipv4Addr 10 9 1 1) \<and>
   FindRoute (DeleteRoute route_a (AddRoute route_a new_node)) (Ipv4Addr 10 9 1 1) = None"
proof -
  have "matches route_a (Ipv4Addr 10 9 1 1)"
    by code_simp
  then show ?thesis
    using example_routes(1) deleted_route_panics [of route_a "Ipv4Addr 10 9 1 1"] by blast
qed

end
