(* ===== verification/Static_Strings.thy ===== *)
theory Static_Strings
  imports Halo_Prelude
begin

text \<open>
  The fixed-size strings at the end of \<^verbatim>\<open>src/mem/static_allocator.go\<close>: an array whose last bytes hold the
  length. Storing the empty string takes the address of the first byte of an empty slice and
  panics; reading with a length beyond the array would leave it. Both are \<^const>\<open>None\<close>.
\<close>

definition KB :: nat where "KB = 1024"
definition MB :: nat where "MB = 1024 * KB"

lemmas string_sizes = KB_def MB_def

text \<open>\<^verbatim>\<open>MemCpy\<close> to the start of the array, from the bytes of a string.\<close>

definition copy_string :: "bytes \<Rightarrow> nat \<Rightarrow> bytes \<Rightarrow> bytes option" where
  "copy_string v l s = (if v = [] then None else Some (go_copy s 0 (take l v)))"

definition get_string :: "bytes \<Rightarrow> nat \<Rightarrow> bytes option" where
  "get_string s l = (if l \<le> length s then Some (take l s) else None)"

definition StaticString64_Get :: "bytes \<Rightarrow> bytes option" where
  "StaticString64_Get s = get_string s (unat (s ! 63))"

definition StaticString64_Set :: "bytes \<Rightarrow> bytes \<Rightarrow> bytes option" where
  "StaticString64_Set v s =
     (let l = (of_nat (length v) :: u8);
          l = (if l > 63 then 63 else l)
      in copy_string v (unat l) (s[63 := l]))"

definition StaticString1K_Get :: "bytes \<Rightarrow> bytes option" where
  "StaticString1K_Get s =
     (let l = (push_bit 8 (ucast (s ! (KB - 1))) OR ucast (s ! (KB - 2)) :: u16) in get_string s (unat l))"

definition StaticString1K_Set :: "bytes \<Rightarrow> bytes \<Rightarrow> bytes option" where
  "StaticString1K_Set v s =
     (let l = (of_nat (length v) :: u16);
          l = (if l > of_nat (KB - 2) then of_nat (KB - 2) else l)
      in copy_string v (unat l) (s[KB - 1 := ucast (drop_bit 8 l), KB - 2 := ucast l]))"

definition StaticString1M_Get :: "bytes \<Rightarrow> bytes option" where
  "StaticString1M_Get s =
     (let l = (push_bit 24 (ucast (s ! (MB - 1))) OR push_bit 16 (ucast (s ! (MB - 2))) OR push_bit 8 (ucast (s ! (MB - 3))) OR
               ucast (s ! (MB - 4)) :: u32)
      in get_string s (unat l))"

definition StaticString1M_Set :: "bytes \<Rightarrow> bytes \<Rightarrow> bytes option" where
  "StaticString1M_Set v s =
     (let l = (of_nat (length v) :: u32);
          l = (if l > of_nat (MB - 4) then of_nat (MB - 4) else l)
      in copy_string v (unat l)
           (s[MB - 1 := ucast (drop_bit 24 l), MB - 2 := ucast (drop_bit 16 l), MB - 3 := ucast (drop_bit 8 l), MB - 4 := ucast l]))"

subsection \<open>What is stored is read back\<close>

lemma copy_string_read:
  assumes "v \<noteq> []" "l \<le> length v" "l \<le> length s"
  shows "\<exists>s'. copy_string v l s = Some s' \<and> length s' = length s \<and> get_string s' l = Some (take l v) \<and> (\<forall>i. l \<le> i \<longrightarrow> s' ! i = s ! i)"
proof -
  let ?s = "go_copy s 0 (take l v)"
  have s: "?s = take l v @ drop l s"
    using assms(2,3) by (simp add: go_copy_def min_def)
  then have "length ?s = length s" "take l ?s = take l v" "\<forall>i. l \<le> i \<longrightarrow> ?s ! i = s ! i"
    using assms(2,3) by (auto simp: nth_append)
  then show ?thesis
    using assms(1,3) by (simp add: copy_string_def get_string_def)
qed

lemma clamp_word:
  fixes m :: nat
  assumes "n < 2 ^ LENGTH('a :: len)" "m < 2 ^ LENGTH('a)"
  shows "unat (if (of_nat n :: 'a word) > of_nat m then of_nat m else of_nat n :: 'a word) = min n m"
  using assms by (simp add: word_less_nat_alt unat_of_nat min_def)

lemma stored_string:
  fixes l :: "'a :: len word"
  assumes "0 < length v" "unat l = min (length v) m" "m \<le> length t"
  obtains s' where "copy_string v (unat l) t = Some s'" "length s' = length t" "get_string s' (unat l) = Some (take m v)"
    "\<And>i. m \<le> i \<Longrightarrow> s' ! i = t ! i"
proof -
  have "v \<noteq> []" "unat l \<le> length v" "unat l \<le> length t" "unat l \<le> m" "take (unat l) v = take m v"
    using assms by (auto simp: min_def)
  then show thesis
    using copy_string_read [of v "unat l" t] that by (metis le_trans)
qed

lemma string64:
  assumes "length s = 64" "0 < length v" "length v < 2 ^ 8"
  shows "\<exists>s'. StaticString64_Set v s = Some s' \<and> length s' = 64 \<and> StaticString64_Get s' = Some (take 63 v)"
proof -
  define l :: u8 where "l = (if (of_nat (length v) :: u8) > 63 then 63 else of_nat (length v))"
  have l: "unat l = min (length v) 63"
    using clamp_word [of "length v" 63, where 'a = 8] assms(3) unfolding l_def of_nat_numeral by simp
  have "63 \<le> length (s[63 := l])"
    using assms(1) by simp
  from stored_string [OF assms(2) l this]
  obtain s' where s': "copy_string v (unat l) (s[63 := l]) = Some s'" "length s' = length (s[63 := l])"
    "get_string s' (unat l) = Some (take 63 v)" "\<And>i. 63 \<le> i \<Longrightarrow> s' ! i = s[63 := l] ! i"
    by blast
  then have "s' ! 63 = l"
    using assms(1) by simp
  then show ?thesis
    using s' assms(1) by (simp add: StaticString64_Set_def StaticString64_Get_def Let_def l_def [symmetric])
qed

lemma string1K:
  assumes "length s = KB" "0 < length v" "length v < 2 ^ 16"
  shows "\<exists>s'. StaticString1K_Set v s = Some s' \<and> length s' = KB \<and> StaticString1K_Get s' = Some (take (KB - 2) v)"
proof -
  define l :: u16 where "l = (if (of_nat (length v) :: u16) > of_nat (KB - 2) then of_nat (KB - 2) else of_nat (length v))"
  let ?s = "s[KB - 1 := ucast (drop_bit 8 l), KB - 2 := ucast l]"
  have l: "unat l = min (length v) (KB - 2)"
    unfolding l_def using assms(3) by (intro clamp_word) (simp_all add: string_sizes)
  have "KB - 2 \<le> length ?s"
    using assms(1) by simp
  from stored_string [OF assms(2) l this]
  obtain s' where s': "copy_string v (unat l) ?s = Some s'" "length s' = length ?s" "get_string s' (unat l) = Some (take (KB - 2) v)"
    "\<And>i. KB - 2 \<le> i \<Longrightarrow> s' ! i = ?s ! i"
    by blast
  then have "s' ! (KB - 1) = ucast (drop_bit 8 l)" "s' ! (KB - 2) = ucast l"
    using assms(1) by (simp_all add: string_sizes)
  then have "StaticString1K_Get s' = get_string s' (unat l)"
    using be16_bytes [of l "[]"] by (simp add: StaticString1K_Get_def get_be16_def)
  then show ?thesis
    using s' assms(1) by (simp add: StaticString1K_Set_def Let_def l_def [symmetric])
qed

lemma string1M:
  assumes "length s = MB" "0 < length v" "length v < 2 ^ 32"
  shows "\<exists>s'. StaticString1M_Set v s = Some s' \<and> length s' = MB \<and> StaticString1M_Get s' = Some (take (MB - 4) v)"
proof -
  define l :: u32 where "l = (if (of_nat (length v) :: u32) > of_nat (MB - 4) then of_nat (MB - 4) else of_nat (length v))"
  let ?s = "s[MB - 1 := ucast (drop_bit 24 l), MB - 2 := ucast (drop_bit 16 l), MB - 3 := ucast (drop_bit 8 l), MB - 4 := ucast l]"
  have l: "unat l = min (length v) (MB - 4)"
    unfolding l_def using assms(3) by (intro clamp_word) (simp_all add: string_sizes)
  have "MB - 4 \<le> length ?s"
    using assms(1) by simp
  from stored_string [OF assms(2) l this]
  obtain s' where s': "copy_string v (unat l) ?s = Some s'" "length s' = length ?s" "get_string s' (unat l) = Some (take (MB - 4) v)"
    "\<And>i. MB - 4 \<le> i \<Longrightarrow> s' ! i = ?s ! i"
    by blast
  then have "s' ! (MB - 1) = ucast (drop_bit 24 l)" "s' ! (MB - 2) = ucast (drop_bit 16 l)" "s' ! (MB - 3) = ucast (drop_bit 8 l)" "s' ! (MB - 4) = ucast l"
    using assms(1) by (simp_all add: string_sizes)
  then have "StaticString1M_Get s' = get_string s' (unat l)"
    using be32_bytes [of l "[]"] by (simp add: StaticString1M_Get_def get_be32_def)
  then show ?thesis
    using s' assms(1) by (simp add: StaticString1M_Set_def Let_def l_def [symmetric])
qed

text \<open>C31: A fixed-size string gives back what was stored, cut to its capacity (63, 1022 and 1 MiB minus 4 bytes): for
  every non-empty string whose length fits the length field, storing succeeds, keeps the size of the array,
  and reading returns the longest prefix that fits, whatever the array held before.\<close>

theorem static_string_roundtrip:
  "(length s = 64 \<and> 0 < length v \<and> length v < 2 ^ 8 \<longrightarrow>
     (\<exists>s'. StaticString64_Set v s = Some s' \<and> length s' = 64 \<and> StaticString64_Get s' = Some (take 63 v))) \<and>
   (length s = KB \<and> 0 < length v \<and> length v < 2 ^ 16 \<longrightarrow>
     (\<exists>s'. StaticString1K_Set v s = Some s' \<and> length s' = KB \<and> StaticString1K_Get s' = Some (take (KB - 2) v))) \<and>
   (length s = MB \<and> 0 < length v \<and> length v < 2 ^ 32 \<longrightarrow>
     (\<exists>s'. StaticString1M_Set v s = Some s' \<and> length s' = MB \<and> StaticString1M_Get s' = Some (take (MB - 4) v)))"
  using string64 string1K string1M by blast

theorem static_string_roundtrip_witness:
  "\<exists>s'. StaticString64_Set (replicate 70 5) (replicate 64 9) = Some s' \<and> length s' = 64 \<and> StaticString64_Get s' = Some (replicate 63 5)"
  using static_string_roundtrip [of "replicate 64 9" "replicate 70 5"] by simp

text \<open>The length is reduced to the width of its field before it is clamped: a string of 256 bytes is stored as the empty one.\<close>

lemma static_string_wraps:
  assumes "length s = 64" "length v = 256"
  shows "\<exists>s'. StaticString64_Set v s = Some s' \<and> StaticString64_Get s' = Some []"
proof -
  have "(256 :: u8) = 0"
    by code_simp
  then have "s[63 := (256 :: u8)] = s[63 := 0]"
    by (rule arg_cong)
  then have "StaticString64_Set v s = Some (s[63 := 0])"
    using assms by (auto simp: StaticString64_Set_def copy_string_def go_copy_def)
  then show ?thesis
    using assms(1) by (simp add: StaticString64_Get_def get_string_def)
qed

end
