(* ===== verification/Engine_State.thy ===== *)
theory Engine_State
  imports Dhcp_Packets Tcp_Packets Route_Table Static_Strings Hash_Codes
begin

text \<open>
  The state of a router of \<^verbatim>\<open>src/engine\<close>, with the parts of \<^verbatim>\<open>engine.go\<close>, \<^verbatim>\<open>ethernet_engine.go\<close> and
  \<^verbatim>\<open>arp_engine.go\<close> that send frames and keep the ARP cache. A hash map is a map here, since
  the hash map of the code implements one; where the code iterates over it, the order of
  the keys is an argument. An operation that may fail for lack of memory asks the
  environment, which grants or refuses the \<open>n\<close>-th request; requests are counted in the state.
  Flow records shared by two tables live in a store under their address.

  A handler is a function of the whole router and runs without interruption, as the locks of
  the tables make each access do; \<^const>\<open>None\<close> is a panic, such as the use of a nil interface.
  What a handler sends or passes to a registered service is appended to the trace of events.
\<close>

subsection \<open>Records\<close>

record ArpCache =
  ac_IpAddr :: u32
  ac_MacAddr :: MacAddr
  ac_ExpTime :: u32

record NatFlowHash =
  nh_RemoteIpAddr :: u32
  nh_RemotePort :: u16
  nh_LanHostIpAddr :: u32
  nh_LanHostPort :: u16
  nh_Ipv4HeadProto :: u8

record NatWanFlowHash =
  nw_RemoteIpAddr :: u32
  nw_RemotePort :: u16
  nw_WanIpAddr :: u32
  nw_WanPort :: u16
  nw_Ipv4HeadProto :: u8

record NatFlow =
  nf_NatFlowHash :: NatFlowHash
  nf_RemoteIpAddr :: u32
  nf_RemotePort :: u16
  nf_WanIpAddr :: u32
  nf_WanPort :: u16
  nf_LanHostIpAddr :: u32
  nf_LanHostPort :: u16
  nf_Ipv4HeadProto :: u8
  nf_LastAliveTime :: u32

record NatPortMappingEntry =
  pm_WanPort :: u16
  pm_LanHostIpAddr :: u32
  pm_LanHostPort :: u16
  pm_Ipv4HeadProto :: u8

record NatPortMappingFlow =
  pf_WanNetIf :: string
  pf_WanPort :: u16
  pf_LastAliveTime :: u32

record DhcpLease =
  dl_IpAddr :: Ipv4Addr
  dl_MacAddr :: MacAddr
  dl_ExpTime :: u32
  dl_HostName :: bytes
  dl_OfferExpTime :: u32
  dl_OfferTransactionId :: bytes

record UdpSession =
  us_RemoteIp :: u32
  us_RemotePort :: u16

text \<open>The interface, with the fields of its configuration that are read after the start. A
  registered service is whether its function is not nil; the port sets of \<^verbatim>\<open>PortAlloc\<close> are sets.\<close>

record NetIf =
  n_Name :: string
  n_NatEnable :: bool
  n_NatType :: int
  n_DhcpServerEnable :: bool
  n_DhcpClientEnable :: bool
  n_MacAddr :: MacAddr
  n_IpAddr :: Ipv4Addr
  n_NetworkMask :: Ipv4Addr
  n_Gateway :: Ipv4Addr
  n_HasGateway :: bool
  n_LoChan :: "bytes list"
  n_Ipv6PassthroughPeer :: "string option"
  n_ArpCacheTable :: "u32 \<rightharpoonup> ArpCache"
  n_NatFlowTable :: "NatFlowHash \<rightharpoonup> nat"
  n_NatWanFlowTable :: "NatWanFlowHash \<rightharpoonup> nat"
  n_flow :: "nat \<Rightarrow> NatFlow"
  n_NatPortAlloc :: "u32 \<rightharpoonup> u16 set"
  n_NatPortMappingTable :: "NatPortMappingEntry list"
  n_DnsServerAddr :: Ipv4Addr
  n_DhcpLeaseTable :: "u32 \<rightharpoonup> DhcpLease"
  n_DhcpClientTransactionId :: bytes
  n_UdpServiceMap :: "u16 \<rightharpoonup> bool"
  n_TcpServiceMap :: "u16 \<rightharpoonup> bool"

datatype event =
  EthTx string bytes
| UdpCall string u16 UdpSession bytes
| TcpCall string u16 Ipv4Addr bytes

record Router =
  r_NetIfMap :: "string \<rightharpoonup> NetIf"
  r_RouteTable :: TrieNode
  r_NatPortMappingFlowTable :: "NatFlowHash \<rightharpoonup> NatPortMappingFlow"
  r_Ipv4PktFwdHook :: "(bytes \<Rightarrow> nat \<Rightarrow> bool \<times> bytes) option"
  r_TimeNow :: u32
  r_iphId :: u32
  r_req :: nat
  r_events :: "event list"

text \<open>What a step of the router takes from outside: whether checksums are enabled, which memory
  requests are granted, and the orders in which maps are walked.\<close>

record env =
  e_ce :: bool
  e_grant :: "nat \<Rightarrow> bool"
  e_options :: "option_map \<Rightarrow> u8 list"
  e_leases :: "(u32 \<rightharpoonup> DhcpLease) \<Rightarrow> u32 list"

definition put_if :: "string \<Rightarrow> NetIf \<Rightarrow> Router \<Rightarrow> Router" where
  "put_if n i s = s\<lparr>r_NetIfMap := (r_NetIfMap s)(n \<mapsto> i)\<rparr>"

definition request :: "env \<Rightarrow> Router \<Rightarrow> bool \<times> Router" where
  "request e s = (e_grant e (r_req s), s\<lparr>r_req := r_req s + 1\<rparr>)"

definition emit_event :: "event \<Rightarrow> Router \<Rightarrow> Router" where
  "emit_event ev s = s\<lparr>r_events := r_events s @ [ev]\<rparr>"

definition GetNetIf :: "Router \<Rightarrow> string \<Rightarrow> NetIf option" where
  "GetNetIf s n = r_NetIfMap s n"

subsection \<open>Frames\<close>

definition TxEthernet :: "string \<Rightarrow> bytes \<Rightarrow> MacAddr \<Rightarrow> u16 \<Rightarrow> Router \<Rightarrow> (Router \<times> bool) option" where
  "TxEthernet n ethPayload ethDstMac ethProto s =
     do {
       i \<leftarrow> r_NetIfMap s n;
       Some (case BuildEthFrm [] \<lparr>eth_Payload = ethPayload, eth_DstMac = ethDstMac, eth_SrcMac = n_MacAddr i,
                    eth_EthProto = ethProto\<rparr> of
               Inl err \<Rightarrow> (s, False)
             | Inr ethFrm \<Rightarrow> (emit_event (EthTx n ethFrm) s, True))
     }"

subsection \<open>ARP\<close>

definition send_arp :: "string \<Rightarrow> (NetIf \<Rightarrow> ArpPkt) \<Rightarrow> MacAddr \<Rightarrow> Router \<Rightarrow> Router option" where
  "send_arp n pkt dst s =
     do {
       i \<leftarrow> r_NetIfMap s n;
       case BuildArpPkt [] (pkt i) of
         Inl err \<Rightarrow> Some s
       | Inr arpPkt \<Rightarrow> map_option fst (TxEthernet n arpPkt dst ETH_PROTO_ARP s)
     }"

definition SendFreeArp :: "string \<Rightarrow> Router \<Rightarrow> Router option" where
  "SendFreeArp n = send_arp n (\<lambda>i. \<lparr>arp_Option = ARP_REQUEST, arp_SrcMac = n_MacAddr i, arp_SrcAddr = n_IpAddr i,
     arp_DstMac = BROADCAST_MAC_ADDR, arp_DstAddr = n_IpAddr i\<rparr>) BROADCAST_MAC_ADDR"

definition SendArpReq :: "string \<Rightarrow> Ipv4Addr \<Rightarrow> Router \<Rightarrow> Router option" where
  "SendArpReq n ipAddr = send_arp n (\<lambda>i. \<lparr>arp_Option = ARP_REQUEST, arp_SrcMac = n_MacAddr i, arp_SrcAddr = n_IpAddr i,
     arp_DstMac = BROADCAST_MAC_ADDR, arp_DstAddr = ipAddr\<rparr>) BROADCAST_MAC_ADDR"

definition GetArpCache :: "string \<Rightarrow> Ipv4Addr \<Rightarrow> Router \<Rightarrow> (Router \<times> ArpCache option) option" where
  "GetArpCache n ipAddr s =
     do {
       i \<leftarrow> r_NetIfMap s n;
       if ipAddr = n_IpAddr i then Some (s, None)
       else case n_ArpCacheTable i (IpAddrToU ipAddr) of
         Some arpCache \<Rightarrow> Some (s, Some arpCache)
       | None \<Rightarrow> do { s \<leftarrow> SendArpReq n ipAddr s; Some (s, None) }
     }"

definition SetArpCache :: "env \<Rightarrow> string \<Rightarrow> Ipv4Addr \<Rightarrow> MacAddr \<Rightarrow> Router \<Rightarrow> Router option" where
  "SetArpCache e n ipAddr macAddr s =
     do {
       i \<leftarrow> r_NetIfMap s n;
       let ipAddrU = IpAddrToU ipAddr;
       let arpCache = \<lparr>ac_IpAddr = ipAddrU, ac_MacAddr = macAddr, ac_ExpTime = r_TimeNow s + 300\<rparr>;
       let i' = i\<lparr>n_ArpCacheTable := (n_ArpCacheTable i)(ipAddrU \<mapsto> arpCache)\<rparr>;
       Some (case n_ArpCacheTable i ipAddrU of
               Some _ \<Rightarrow> put_if n i' s
             | None \<Rightarrow>
                 let (ok, s) = request e s in
                 if \<not> ok then s
                 else let (ok, s) = request e s in if \<not> ok then s else put_if n i' s)
     }"

definition HandleArp :: "env \<Rightarrow> string \<Rightarrow> bytes \<Rightarrow> MacAddr \<Rightarrow> Router \<Rightarrow> Router option" where
  "HandleArp e n ethPayload ethSrcMac s =
     do {
       i \<leftarrow> r_NetIfMap s n;
       case ParseArpPkt ethPayload of
         Inl err \<Rightarrow> Some s
       | Inr arp \<Rightarrow>
           if arp_SrcMac arp \<noteq> ethSrcMac then Some s
           else if arp_SrcAddr arp = n_IpAddr i then Some s
           else do {
             s \<leftarrow> SetArpCache e n (arp_SrcAddr arp) (arp_SrcMac arp) s;
             if arp_Option arp = ARP_REQUEST \<and> arp_DstAddr arp = n_IpAddr i then
               send_arp n (\<lambda>i. \<lparr>arp_Option = ARP_REPLY, arp_SrcMac = n_MacAddr i, arp_SrcAddr = n_IpAddr i,
                 arp_DstMac = arp_SrcMac arp, arp_DstAddr = arp_SrcAddr arp\<rparr>) (arp_SrcMac arp) s
             else Some s
           }
     }"

text \<open>One round of the two background tasks on the cache, over the keys in the order of the walk.\<close>

fun ArpTableRefresh :: "string \<Rightarrow> u32 list \<Rightarrow> Router \<Rightarrow> Router option" where
  "ArpTableRefresh n [] s = Some s"
| "ArpTableRefresh n (key # order) s =
     do {
       i \<leftarrow> r_NetIfMap s n;
       value \<leftarrow> n_ArpCacheTable i key;
       s \<leftarrow> (if ac_ExpTime value - 10 < r_TimeNow s then SendArpReq n (UToIpAddr (ac_IpAddr value)) s else Some s);
       ArpTableRefresh n order s
     }"

definition expire :: "('v \<Rightarrow> bool) \<Rightarrow> 'k list \<Rightarrow> ('k \<rightharpoonup> 'v) \<Rightarrow> ('k \<rightharpoonup> 'v)" where
  "expire old order m = foldl (\<lambda>m k. case m k of Some v \<Rightarrow> if old v then m(k := None) else m | None \<Rightarrow> m) m order"

definition ArpTableClear :: "string \<Rightarrow> u32 list \<Rightarrow> Router \<Rightarrow> Router option" where
  "ArpTableClear n order s =
     do {
       i \<leftarrow> r_NetIfMap s n;
       Some (put_if n (i\<lparr>n_ArpCacheTable := expire (\<lambda>value. ac_ExpTime value < r_TimeNow s) order (n_ArpCacheTable i)\<rparr>) s)
     }"

definition ListArp :: "string \<Rightarrow> u32 list \<Rightarrow> Router \<Rightarrow> ArpCache list option" where
  "ListArp n order s = map_option (\<lambda>i. List.map_filter (n_ArpCacheTable i) order) (r_NetIfMap s n)"

end
