(* ===== verification/Nat_Table.thy ===== *)
theory Nat_Table
  imports Engine_State
begin

text \<open>
  The NAT tables of an interface, the second half of \<^verbatim>\<open>src/engine/ipv4_engine.go\<close>: looking up, adding
  and expiring flows, and the static port mappings. An operation is a function of the interface,
  the current time and the number of memory requests made so far. The invariant of the tables
  says that the LAN and the WAN table index the same flows, that a flow's port is allocated for
  its remote address, and that no two flows share one.
\<close>

subsection \<open>The operations\<close>

definition LanToWan :: nat where "LanToWan = 0"
definition WanToLan :: nat where "WanToLan = 1"
definition NatTypeSymmetric :: int where "NatTypeSymmetric = 0"
definition NatTypeFullCone :: int where "NatTypeFullCone = 1"

text \<open>The remote address and port that go into the keys.\<close>

definition nat_remote :: "NetIf \<Rightarrow> Ipv4Addr \<Rightarrow> u16 \<Rightarrow> u8 \<Rightarrow> u32 \<times> u16" where
  "nat_remote i remoteIpAddr remotePort ipv4HeadProto =
     (let (ip, port) =
        (if n_NatType i = NatTypeSymmetric then (IpAddrToU remoteIpAddr, remotePort)
         else if n_NatType i = NatTypeFullCone then (0, 0)
         else (0, 0))
      in (ip, if ipv4HeadProto = IPH_PROTO_ICMP then 0 else port))"

definition nat_flow_hash :: "NetIf \<Rightarrow> Ipv4Addr \<Rightarrow> u16 \<Rightarrow> Ipv4Addr \<Rightarrow> u16 \<Rightarrow> u8 \<Rightarrow> NatFlowHash" where
  "nat_flow_hash i remoteIpAddr remotePort lanHostIpAddr lanHostPort ipv4HeadProto =
     (let (ip, port) = nat_remote i remoteIpAddr remotePort ipv4HeadProto in
      \<lparr>nh_RemoteIpAddr = ip, nh_RemotePort = port, nh_LanHostIpAddr = IpAddrToU lanHostIpAddr,
       nh_LanHostPort = lanHostPort, nh_Ipv4HeadProto = ipv4HeadProto\<rparr>)"

definition touch :: "u32 \<Rightarrow> nat \<Rightarrow> NetIf \<Rightarrow> NetIf" where
  "touch now p i = i\<lparr>n_flow := (n_flow i)(p := (n_flow i p)\<lparr>nf_LastAliveTime := now\<rparr>)\<rparr>"

definition NatGetFlowByHash :: "u32 \<Rightarrow> Ipv4Addr \<Rightarrow> u16 \<Rightarrow> Ipv4Addr \<Rightarrow> u16 \<Rightarrow> u8 \<Rightarrow> NetIf \<Rightarrow> NetIf \<times> NatFlow option" where
  "NatGetFlowByHash now remoteIpAddr remotePort lanHostIpAddr lanHostPort ipv4HeadProto i =
     (case n_NatFlowTable i (nat_flow_hash i remoteIpAddr remotePort lanHostIpAddr lanHostPort ipv4HeadProto) of
        None \<Rightarrow> (i, None)
      | Some p \<Rightarrow> let i = touch now p i in (i, Some (n_flow i p)))"

definition NatGetFlowByWan :: "u32 \<Rightarrow> Ipv4Addr \<Rightarrow> u16 \<Rightarrow> Ipv4Addr \<Rightarrow> u16 \<Rightarrow> u8 \<Rightarrow> NetIf \<Rightarrow> NetIf \<times> NatFlow option" where
  "NatGetFlowByWan now remoteIpAddr remotePort wanIpAddr wanPort ipv4HeadProto i =
     (let (ip, port) = nat_remote i remoteIpAddr remotePort ipv4HeadProto in
      case n_NatWanFlowTable i \<lparr>nw_RemoteIpAddr = ip, nw_RemotePort = port, nw_WanIpAddr = IpAddrToU wanIpAddr,
             nw_WanPort = wanPort, nw_Ipv4HeadProto = ipv4HeadProto\<rparr> of
        None \<Rightarrow> (i, None)
      | Some p \<Rightarrow> let i = touch now p i in (i, Some (n_flow i p)))"

definition CheckNatPortMapping :: "nat \<Rightarrow> Ipv4Addr \<Rightarrow> u16 \<Rightarrow> u8 \<Rightarrow> NetIf \<Rightarrow> NatPortMappingEntry option" where
  "CheckNatPortMapping dir ipAddr port ipv4HeadProto i =
     (if ipv4HeadProto \<noteq> IPH_PROTO_TCP \<and> ipv4HeadProto \<noteq> IPH_PROTO_UDP then None
      else if dir = LanToWan then
        find (\<lambda>entry. pm_LanHostIpAddr entry = IpAddrToU ipAddr \<and> pm_LanHostPort entry = port \<and>
          pm_Ipv4HeadProto entry = ipv4HeadProto) (n_NatPortMappingTable i)
      else if dir = WanToLan then
        find (\<lambda>entry. pm_WanPort entry = port \<and> pm_Ipv4HeadProto entry = ipv4HeadProto) (n_NatPortMappingTable i)
      else None)"

text \<open>The search for a free port: from the given port on, until one is free or the counter wraps.\<close>

function next_port :: "(u16 \<Rightarrow> bool) \<Rightarrow> u16 \<Rightarrow> u16" where
  "next_port busy wanPort =
     (let wanPort = wanPort + 1 in
      if wanPort = 0 then 0
      else if busy wanPort then next_port busy wanPort
      else wanPort)"
  by pat_completeness auto

lemma unat_next_port:
  fixes w :: u16
  assumes "w + 1 \<noteq> 0"
  shows "unat (w + 1) = unat w + 1" "unat w + 1 < 65536"
  using assms unatSuc [of w] unat_u16_less [of "w + 1"] by (simp_all add: add.commute)

termination next_port
proof (relation "measure (\<lambda>(busy, w). 65536 - unat w)")
  fix busy and w x :: u16
  assume "x = w + 1" "x \<noteq> 0"
  then show "((busy, x), (busy, w)) \<in> measure (\<lambda>(busy, w). 65536 - unat w)"
    using unat_next_port [of w] by auto
qed simp

declare next_port.simps [simp del]

definition port_busy :: "NetIf \<Rightarrow> u16 set \<Rightarrow> u8 \<Rightarrow> u16 \<Rightarrow> bool" where
  "port_busy i used ipv4HeadProto wanPort \<longleftrightarrow>
     wanPort \<in> used \<or>
     ipv4HeadProto = IPH_PROTO_TCP \<and> n_TcpServiceMap i wanPort = Some True \<or>
     ipv4HeadProto = IPH_PROTO_UDP \<and> n_UdpServiceMap i wanPort = Some True \<or>
     CheckNatPortMapping WanToLan (n_IpAddr i) wanPort ipv4HeadProto i \<noteq> None"

text \<open>The port set of a remote address: the one there is, or a new empty one, whose record, map
  and table entry are three requests. The flag says that it is new.\<close>

definition nat_port_alloc :: "env \<Rightarrow> u32 \<Rightarrow> NetIf \<times> nat \<Rightarrow> (NetIf \<times> nat) \<times> bool option" where
  "nat_port_alloc e ip iq =
     (let (i, q) = iq in
      case n_NatPortAlloc i ip of
        Some used \<Rightarrow> ((i, q), Some False)
      | None \<Rightarrow>
          if \<not> e_grant e q then ((i, q + 1), None)
          else if \<not> e_grant e (q + 1) then ((i, q + 2), None)
          else if \<not> e_grant e (q + 2) then ((i, q + 3), None)
          else ((i\<lparr>n_NatPortAlloc := (n_NatPortAlloc i)(ip \<mapsto> {})\<rparr>, q + 3), Some True))"

definition use_ports :: "u32 \<Rightarrow> (u16 set \<Rightarrow> u16 set) \<Rightarrow> NetIf \<Rightarrow> NetIf" where
  "use_ports ip f i = i\<lparr>n_NatPortAlloc := (n_NatPortAlloc i)(ip := map_option f (n_NatPortAlloc i ip))\<rparr>"

definition nat_wan_key :: "NatFlow \<Rightarrow> NatWanFlowHash" where
  "nat_wan_key f = \<lparr>nw_RemoteIpAddr = nf_RemoteIpAddr f, nw_RemotePort = nf_RemotePort f, nw_WanIpAddr = nf_WanIpAddr f,
     nw_WanPort = nf_WanPort f, nw_Ipv4HeadProto = nf_Ipv4HeadProto f\<rparr>"

text \<open>Making the flow once the port set is there: a port, its entry in the set, the record of the
  flow, and its two entries. Each request that fails undoes the ones before it.\<close>

definition nat_new_flow :: "env \<Rightarrow> u32 \<Rightarrow> NatFlowHash \<Rightarrow> NetIf \<times> nat \<Rightarrow> (NetIf \<times> nat) \<times> NatFlow option" where
  "nat_new_flow e now h iq =
     (let (i, q) = iq;
          ip = nh_RemoteIpAddr h;
          used = (case n_NatPortAlloc i ip of None \<Rightarrow> {} | Some used \<Rightarrow> used);
          wanPort = next_port (port_busy i used (nh_Ipv4HeadProto h)) 32767;
          give_back = use_ports ip (\<lambda>used. used - {wanPort})
      in
      if wanPort = 0 then ((i, q), None)
      else if \<not> e_grant e q then ((i, q + 1), None)
      else
        let i = use_ports ip (insert wanPort) i in
        if \<not> e_grant e (q + 1) then ((give_back i, q + 2), None)
        else
          let p = q + 1;
              flow = \<lparr>nf_NatFlowHash = h, nf_RemoteIpAddr = nh_RemoteIpAddr h, nf_RemotePort = nh_RemotePort h,
                nf_WanIpAddr = IpAddrToU (n_IpAddr i), nf_WanPort = wanPort, nf_LanHostIpAddr = nh_LanHostIpAddr h,
                nf_LanHostPort = nh_LanHostPort h, nf_Ipv4HeadProto = nh_Ipv4HeadProto h, nf_LastAliveTime = now\<rparr>;
              i = i\<lparr>n_flow := (n_flow i)(p := flow)\<rparr>
          in
          if \<not> e_grant e (q + 2) then ((give_back i, q + 3), None)
          else
            let i = i\<lparr>n_NatFlowTable := (n_NatFlowTable i)(h \<mapsto> p)\<rparr> in
            if \<not> e_grant e (q + 3)
            then ((give_back (i\<lparr>n_NatFlowTable := (n_NatFlowTable i)(h := None)\<rparr>), q + 4), None)
            else ((i\<lparr>n_NatWanFlowTable := (n_NatWanFlowTable i)(nat_wan_key flow \<mapsto> p)\<rparr>, q + 4), Some flow))"

text \<open>The deferred function: a new port set that is still empty is given back.\<close>

definition nat_drop_empty :: "u32 \<Rightarrow> NetIf \<Rightarrow> NetIf" where
  "nat_drop_empty ip i =
     (if n_NatPortAlloc i ip = Some {} then i\<lparr>n_NatPortAlloc := (n_NatPortAlloc i)(ip := None)\<rparr> else i)"

definition NatAddFlow :: "env \<Rightarrow> u32 \<Rightarrow> Ipv4Addr \<Rightarrow> Ipv4Addr \<Rightarrow> u16 \<Rightarrow> u16 \<Rightarrow> u8 \<Rightarrow> NetIf \<times> nat \<Rightarrow> (NetIf \<times> nat) \<times> NatFlow option" where
  "NatAddFlow e now lanHostIpAddr remoteIpAddr lanHostPort remotePort ipv4HeadProto iq =
     (let (i, q) = iq; h = nat_flow_hash i remoteIpAddr remotePort lanHostIpAddr lanHostPort ipv4HeadProto in
      if lanHostPort = 0 \<or> remotePort = 0 then (iq, None)
      else case n_NatFlowTable i h of
        Some p \<Rightarrow> let i = touch now p i in ((i, q), Some (n_flow i p))
      | None \<Rightarrow>
          (case nat_port_alloc e (nh_RemoteIpAddr h) iq of
             (iq, None) \<Rightarrow> (iq, None)
           | (iq, Some new) \<Rightarrow>
               let ((i, q), r) = nat_new_flow e now h iq
               in ((if new then nat_drop_empty (nh_RemoteIpAddr h) i else i, q), r)))"

text \<open>Expiring one flow, and the walk over the table.\<close>

definition nat_expire :: "u32 \<Rightarrow> NatFlowHash \<Rightarrow> NetIf \<Rightarrow> NetIf" where
  "nat_expire now h i =
     (case n_NatFlowTable i h of
        None \<Rightarrow> i
      | Some p \<Rightarrow>
          let f = n_flow i p; ip = nf_RemoteIpAddr f in
          if now - nf_LastAliveTime f > 60 then
            i\<lparr>n_NatFlowTable := (n_NatFlowTable i)(h := None),
              n_NatWanFlowTable := (n_NatWanFlowTable i)(nat_wan_key f := None),
              n_NatPortAlloc :=
                (case n_NatPortAlloc i ip of
                   None \<Rightarrow> n_NatPortAlloc i
                 | Some used \<Rightarrow>
                     let used = used - {nf_WanPort f} in
                     if used = {} then (n_NatPortAlloc i)(ip := None) else (n_NatPortAlloc i)(ip \<mapsto> used))\<rparr>
          else i)"

definition NatTableClear :: "u32 \<Rightarrow> NatFlowHash list \<Rightarrow> NetIf \<Rightarrow> NetIf" where
  "NatTableClear now order i = foldl (\<lambda>i h. nat_expire now h i) i order"

definition ListNat :: "NatFlowHash list \<Rightarrow> NetIf \<Rightarrow> NatFlow list" where
  "ListNat order i = map (n_flow i) (List.map_filter (n_NatFlowTable i) order)"


subsection \<open>The search for a port\<close>

lemma next_port_step:
  "next_port busy w = (if w + 1 = 0 then 0 else if busy (w + 1) then next_port busy (w + 1) else w + 1)"
  by (subst next_port.simps) (simp add: Let_def)

lemma next_port_free:
  assumes "next_port busy w \<noteq> 0"
  shows "\<not> busy (next_port busy w) \<and> w < next_port busy w"
  using assms
proof (induction busy w rule: next_port.induct)
  case (1 busy w)
  have "w < w + 1" if "w + 1 \<noteq> 0"
    using unat_next_port [OF that] by (simp add: word_less_nat_alt)
  then show ?case
    using 1 next_port_step [of busy w] by (auto split: if_splits intro: less_trans)
qed

lemma next_port_none:
  assumes "next_port busy w = 0" "w < v"
  shows "busy v"
  using assms
proof (induction busy w rule: next_port.induct)
  case (1 busy w)
  have nz: "w + 1 \<noteq> 0"
    using 1(3) by (metis (no_types) add.commute max_word_wrap word_order.extremum_strict)
  then have "unat v = unat w + 1 \<or> unat (w + 1) < unat v"
    using 1(3) unat_next_port [OF nz] by (auto simp: word_less_nat_alt)
  then have "v = w + 1 \<or> w + 1 < v"
    using unat_next_port [OF nz] by (auto simp: word_less_nat_alt word_unat_eq_iff)
  then show ?case
    using 1 next_port_step [of busy w] nz by (auto split: if_splits)
qed

subsection \<open>The invariant\<close>

definition flow_ok :: "NatFlow \<Rightarrow> bool" where
  "flow_ok f \<longleftrightarrow> nf_RemoteIpAddr f = nh_RemoteIpAddr (nf_NatFlowHash f) \<and> nf_RemotePort f = nh_RemotePort (nf_NatFlowHash f) \<and>
     nf_LanHostIpAddr f = nh_LanHostIpAddr (nf_NatFlowHash f) \<and> nf_LanHostPort f = nh_LanHostPort (nf_NatFlowHash f) \<and>
     nf_Ipv4HeadProto f = nh_Ipv4HeadProto (nf_NatFlowHash f) \<and> 32767 < nf_WanPort f"

text \<open>The ports of the flows to a remote address.\<close>

definition flow_ports :: "NetIf \<Rightarrow> u32 \<Rightarrow> u16 set" where
  "flow_ports i ip = {nf_WanPort (n_flow i p) | h p. n_NatFlowTable i h = Some p \<and> nf_RemoteIpAddr (n_flow i p) = ip}"

definition nat_inv :: "nat \<Rightarrow> NetIf \<Rightarrow> bool" where
  "nat_inv q i \<longleftrightarrow>
     (\<forall>h p. n_NatFlowTable i h = Some p \<longrightarrow>
        p < q \<and> flow_ok (n_flow i p) \<and> nf_NatFlowHash (n_flow i p) = h \<and> n_NatWanFlowTable i (nat_wan_key (n_flow i p)) = Some p) \<and>
     (\<forall>w p. n_NatWanFlowTable i w = Some p \<longrightarrow>
        n_NatFlowTable i (nf_NatFlowHash (n_flow i p)) = Some p \<and> nat_wan_key (n_flow i p) = w) \<and>
     (\<forall>h h' p p'. n_NatFlowTable i h = Some p \<longrightarrow> n_NatFlowTable i h' = Some p' \<longrightarrow>
        nf_RemoteIpAddr (n_flow i p) = nf_RemoteIpAddr (n_flow i p') \<longrightarrow> nf_WanPort (n_flow i p) = nf_WanPort (n_flow i p') \<longrightarrow> h = h') \<and>
     (\<forall>ip. n_NatPortAlloc i ip = (if flow_ports i ip = {} then None else Some (flow_ports i ip)))"

lemma nat_invI:
  assumes "\<And>h p. n_NatFlowTable i h = Some p \<Longrightarrow> p < q \<and> flow_ok (n_flow i p) \<and> nf_NatFlowHash (n_flow i p) = h \<and>
      n_NatWanFlowTable i (nat_wan_key (n_flow i p)) = Some p"
    and "\<And>w p. n_NatWanFlowTable i w = Some p \<Longrightarrow>
      n_NatFlowTable i (nf_NatFlowHash (n_flow i p)) = Some p \<and> nat_wan_key (n_flow i p) = w"
    and "\<And>h h' p p'. n_NatFlowTable i h = Some p \<Longrightarrow> n_NatFlowTable i h' = Some p' \<Longrightarrow>
      nf_RemoteIpAddr (n_flow i p) = nf_RemoteIpAddr (n_flow i p') \<Longrightarrow> nf_WanPort (n_flow i p) = nf_WanPort (n_flow i p') \<Longrightarrow> h = h'"
    and "\<And>ip. n_NatPortAlloc i ip = (if flow_ports i ip = {} then None else Some (flow_ports i ip))"
  shows "nat_inv q i"
  using assms unfolding nat_inv_def by blast

lemma nat_invD:
  assumes "nat_inv q i"
  shows "n_NatFlowTable i h = Some p \<Longrightarrow> p < q \<and> flow_ok (n_flow i p) \<and> nf_NatFlowHash (n_flow i p) = h \<and>
      n_NatWanFlowTable i (nat_wan_key (n_flow i p)) = Some p"
    and "n_NatWanFlowTable i w = Some p \<Longrightarrow>
      n_NatFlowTable i (nf_NatFlowHash (n_flow i p)) = Some p \<and> nat_wan_key (n_flow i p) = w"
    and "n_NatFlowTable i h = Some p \<Longrightarrow> n_NatFlowTable i h' = Some p' \<Longrightarrow>
      nf_RemoteIpAddr (n_flow i p) = nf_RemoteIpAddr (n_flow i p') \<Longrightarrow> nf_WanPort (n_flow i p) = nf_WanPort (n_flow i p') \<Longrightarrow> h = h'"
    and "n_NatPortAlloc i ip = (if flow_ports i ip = {} then None else Some (flow_ports i ip))"
  using assms unfolding nat_inv_def by blast+

text \<open>The invariant looks only at the tables, and at the flows they name, but for their age.\<close>

definition nat_same :: "NetIf \<Rightarrow> NetIf \<Rightarrow> bool" where
  "nat_same i i' \<longleftrightarrow> n_NatType i' = n_NatType i \<and> n_NatFlowTable i' = n_NatFlowTable i \<and>
     n_NatWanFlowTable i' = n_NatWanFlowTable i \<and> n_NatPortAlloc i' = n_NatPortAlloc i \<and>
     (\<forall>h p. n_NatFlowTable i h = Some p \<longrightarrow> (n_flow i' p)\<lparr>nf_LastAliveTime := 0\<rparr> = (n_flow i p)\<lparr>nf_LastAliveTime := 0\<rparr>)"

lemma same_but_age:
  assumes "f'\<lparr>nf_LastAliveTime := 0\<rparr> = f\<lparr>nf_LastAliveTime := 0\<rparr>"
  shows "flow_ok f' = flow_ok f" "nf_NatFlowHash f' = nf_NatFlowHash f" "nat_wan_key f' = nat_wan_key f"
    "nf_RemoteIpAddr f' = nf_RemoteIpAddr f" "nf_WanPort f' = nf_WanPort f" "nf_LanHostIpAddr f' = nf_LanHostIpAddr f"
    "nf_LanHostPort f' = nf_LanHostPort f"
  using assms by (cases f'; cases f; simp add: flow_ok_def nat_wan_key_def)+

lemma nat_same_flow:
  assumes "nat_same i i'" "n_NatFlowTable i h = Some p"
  shows "(n_flow i' p)\<lparr>nf_LastAliveTime := 0\<rparr> = (n_flow i p)\<lparr>nf_LastAliveTime := 0\<rparr>"
  using assms by (auto simp: nat_same_def)

lemma nat_same_inv:
  assumes "nat_inv q i" "nat_same i i'" "q \<le> q'"
  shows "nat_inv q' i'"
proof (rule nat_invI)
  have t: "n_NatFlowTable i' = n_NatFlowTable i" "n_NatWanFlowTable i' = n_NatWanFlowTable i" "n_NatPortAlloc i' = n_NatPortAlloc i"
    using assms(2) by (auto simp: nat_same_def)
  note f = same_but_age [OF nat_same_flow [OF assms(2)]] and inv = nat_invD [OF assms(1)]
  show "p < q' \<and> flow_ok (n_flow i' p) \<and> nf_NatFlowHash (n_flow i' p) = h \<and> n_NatWanFlowTable i' (nat_wan_key (n_flow i' p)) = Some p"
    if "n_NatFlowTable i' h = Some p" for h p
    using that inv(1) [of h p] f [of h p] assms(3) by (simp add: t)
  show "n_NatFlowTable i' (nf_NatFlowHash (n_flow i' p)) = Some p \<and> nat_wan_key (n_flow i' p) = w"
    if "n_NatWanFlowTable i' w = Some p" for w p
  proof -
    have a: "n_NatFlowTable i (nf_NatFlowHash (n_flow i p)) = Some p" "nat_wan_key (n_flow i p) = w"
      using that inv(2) [of w p] by (simp_all add: t)
    then show ?thesis
      using f [OF a(1)] by (simp add: t)
  qed
  show "h = h'" if "n_NatFlowTable i' h = Some p" "n_NatFlowTable i' h' = Some p'"
    "nf_RemoteIpAddr (n_flow i' p) = nf_RemoteIpAddr (n_flow i' p')" "nf_WanPort (n_flow i' p) = nf_WanPort (n_flow i' p')" for h h' p p'
    using that inv(3) [of h p h' p'] f(4,5) [of h p] f(4,5) [of h' p'] unfolding t by argo
  have "flow_ports i' ip = flow_ports i ip" for ip
    unfolding flow_ports_def t using f(4,5) by (intro Collect_cong) metis
  then show "n_NatPortAlloc i' ip = (if flow_ports i' ip = {} then None else Some (flow_ports i' ip))" for ip
    using inv(4) [of ip] by (simp add: t)
qed


subsection \<open>Adding and expiring flows\<close>

lemma nat_inv_add:
  assumes inv: "nat_inv q i" and h: "n_NatFlowTable i h = None" and p: "q \<le> p" "p < q'"
    and f: "flow_ok f" "nf_NatFlowHash f = h" "nf_WanPort f \<notin> flow_ports i (nf_RemoteIpAddr f)"
    and i': "n_NatFlowTable i' = (n_NatFlowTable i)(h \<mapsto> p)" "n_NatWanFlowTable i' = (n_NatWanFlowTable i)(nat_wan_key f \<mapsto> p)"
      "n_flow i' = (n_flow i)(p := f)"
      "n_NatPortAlloc i' = (n_NatPortAlloc i)(nf_RemoteIpAddr f \<mapsto> insert (nf_WanPort f) (flow_ports i (nf_RemoteIpAddr f)))"
  shows "nat_inv q' i'"
proof (rule nat_invI)
  note inv = nat_invD [OF inv]
  have np: "x \<noteq> p" if "n_NatFlowTable i k = Some x" for k x
    using inv(1) [OF that] p(1) by auto
  have key: "nat_wan_key (n_flow i x) \<noteq> nat_wan_key f" if "n_NatFlowTable i k = Some x" for k x
    using that f(3) by (auto simp: flow_ports_def nat_wan_key_def)
  have port: "nf_WanPort (n_flow i x) \<noteq> nf_WanPort f" if "n_NatFlowTable i k = Some x" "nf_RemoteIpAddr (n_flow i x) = nf_RemoteIpAddr f" for k x
    using that f(3) by (auto simp: flow_ports_def)
  show "x < q' \<and> flow_ok (n_flow i' x) \<and> nf_NatFlowHash (n_flow i' x) = k \<and> n_NatWanFlowTable i' (nat_wan_key (n_flow i' x)) = Some x"
    if "n_NatFlowTable i' k = Some x" for k x
    using that inv(1) [of k x] key [of k x] np [of k x] p f(1,2) by (auto simp: i' split: if_splits)
  show "n_NatFlowTable i' (nf_NatFlowHash (n_flow i' x)) = Some x \<and> nat_wan_key (n_flow i' x) = w"
    if "n_NatWanFlowTable i' w = Some x" for w x
  proof (cases "w = nat_wan_key f")
    case True
    then show ?thesis
      using that f(2) by (simp add: i')
  next
    case False
    then have "n_NatWanFlowTable i w = Some x"
      using that by (simp add: i')
    note a = inv(2) [OF this]
    then show ?thesis
      using h np [of "nf_NatFlowHash (n_flow i x)" x] by (auto simp: i')
  qed
  show "k = k'" if "n_NatFlowTable i' k = Some x" "n_NatFlowTable i' k' = Some x'"
    "nf_RemoteIpAddr (n_flow i' x) = nf_RemoteIpAddr (n_flow i' x')" "nf_WanPort (n_flow i' x) = nf_WanPort (n_flow i' x')" for k k' x x'
    using that inv(3) [of k x k' x'] np [of k x] np [of k' x'] port [of k x] port [of k' x'] by (auto simp: i' split: if_splits)
  have "x \<in> flow_ports i' ip \<longleftrightarrow> x = nf_WanPort f \<and> ip = nf_RemoteIpAddr f \<or> x \<in> flow_ports i ip" for x ip
  proof
    assume "x \<in> flow_ports i' ip"
    then obtain k y where "n_NatFlowTable i' k = Some y" "nf_RemoteIpAddr (n_flow i' y) = ip" "nf_WanPort (n_flow i' y) = x"
      by (auto simp: flow_ports_def)
    then show "x = nf_WanPort f \<and> ip = nf_RemoteIpAddr f \<or> x \<in> flow_ports i ip"
      using np [of k y] by (cases "k = h") (auto simp: i' flow_ports_def)
  next
    assume "x = nf_WanPort f \<and> ip = nf_RemoteIpAddr f \<or> x \<in> flow_ports i ip"
    then consider "x = nf_WanPort f" "ip = nf_RemoteIpAddr f"
      | k y where "n_NatFlowTable i k = Some y" "nf_RemoteIpAddr (n_flow i y) = ip" "nf_WanPort (n_flow i y) = x"
      by (auto simp: flow_ports_def)
    then show "x \<in> flow_ports i' ip"
    proof cases
      case 1
      then show ?thesis
        unfolding flow_ports_def i' by (intro CollectI exI [of _ h] exI [of _ p]) simp
    next
      case 2
      then show ?thesis
        using h np [of k y] unfolding flow_ports_def i' by (intro CollectI exI [of _ k] exI [of _ y]) auto
    qed
  qed
  then have "flow_ports i' ip = (if ip = nf_RemoteIpAddr f then insert (nf_WanPort f) (flow_ports i ip) else flow_ports i ip)" for ip
    by auto
  then show "n_NatPortAlloc i' ip = (if flow_ports i' ip = {} then None else Some (flow_ports i' ip))" for ip
    using inv(4) [of ip] by (simp add: i')
qed

lemma nat_expire_inv:
  assumes "nat_inv q i"
  shows "nat_inv q (nat_expire now h i)"
proof (cases "\<exists>p. n_NatFlowTable i h = Some p \<and> now - nf_LastAliveTime (n_flow i p) > 60")
  case False
  then have "nat_expire now h i = i"
    by (auto simp: nat_expire_def Let_def split: option.splits)
  then show ?thesis
    using assms by simp
next
  case True
  then obtain p where p: "n_NatFlowTable i h = Some p" "now - nf_LastAliveTime (n_flow i p) > 60"
    by blast
  note inv = nat_invD [OF assms]
  let ?f = "n_flow i p" and ?i = "nat_expire now h i"
  let ?ip = "nf_RemoteIpAddr ?f"
  have t: "n_NatFlowTable ?i = (n_NatFlowTable i)(h := None)" "n_NatWanFlowTable ?i = (n_NatWanFlowTable i)(nat_wan_key ?f := None)"
    "n_flow ?i = n_flow i"
    using p by (simp_all add: nat_expire_def Let_def)
  have ne: "nf_WanPort ?f \<in> flow_ports i ?ip"
    using p(1) by (auto simp: flow_ports_def)
  then have a: "n_NatPortAlloc ?i = (n_NatPortAlloc i)(?ip := (if flow_ports i ?ip - {nf_WanPort ?f} = {} then None
      else Some (flow_ports i ?ip - {nf_WanPort ?f})))"
    using p inv(4) [of ?ip] by (auto simp: nat_expire_def Let_def fun_eq_iff)
  have key: "nat_wan_key (n_flow i x) \<noteq> nat_wan_key ?f" if "n_NatFlowTable i k = Some x" "k \<noteq> h" for k x
    using that inv(3) [of k x h p] p(1) by (auto simp: nat_wan_key_def)
  have "x \<in> flow_ports ?i ip \<longleftrightarrow> x \<in> flow_ports i ip \<and> \<not> (ip = ?ip \<and> x = nf_WanPort ?f)" for x ip
  proof
    assume "x \<in> flow_ports ?i ip"
    then obtain k y where k: "n_NatFlowTable i k = Some y" "k \<noteq> h" "nf_RemoteIpAddr (n_flow i y) = ip" "nf_WanPort (n_flow i y) = x"
      by (auto simp: flow_ports_def t split: if_splits)
    then show "x \<in> flow_ports i ip \<and> \<not> (ip = ?ip \<and> x = nf_WanPort ?f)"
      using inv(3) [OF k(1) p(1)] by (auto simp: flow_ports_def)
  next
    assume x: "x \<in> flow_ports i ip \<and> \<not> (ip = ?ip \<and> x = nf_WanPort ?f)"
    then obtain k y where k: "n_NatFlowTable i k = Some y" "nf_RemoteIpAddr (n_flow i y) = ip" "nf_WanPort (n_flow i y) = x"
      by (auto simp: flow_ports_def)
    then have "k \<noteq> h"
      using x p(1) by auto
    then show "x \<in> flow_ports ?i ip"
      using k unfolding flow_ports_def t by (intro CollectI exI [of _ k] exI [of _ y]) simp
  qed
  then have ports: "flow_ports ?i ip = (if ip = ?ip then flow_ports i ip - {nf_WanPort ?f} else flow_ports i ip)" for ip
    by auto
  show ?thesis
  proof (rule nat_invI)
    show "x < q \<and> flow_ok (n_flow ?i x) \<and> nf_NatFlowHash (n_flow ?i x) = k \<and> n_NatWanFlowTable ?i (nat_wan_key (n_flow ?i x)) = Some x"
      if "n_NatFlowTable ?i k = Some x" for k x
      using that inv(1) [of k x] key [of k x] by (auto simp: t split: if_splits)
    show "n_NatFlowTable ?i (nf_NatFlowHash (n_flow ?i x)) = Some x \<and> nat_wan_key (n_flow ?i x) = w"
      if "n_NatWanFlowTable ?i w = Some x" for w x
      using that inv(2) [of w x] p(1) by (auto simp: t split: if_splits)
    show "k = k'" if "n_NatFlowTable ?i k = Some x" "n_NatFlowTable ?i k' = Some x'"
      "nf_RemoteIpAddr (n_flow ?i x) = nf_RemoteIpAddr (n_flow ?i x')" "nf_WanPort (n_flow ?i x) = nf_WanPort (n_flow ?i x')" for k k' x x'
      using that inv(3) [of k x k' x'] by (auto simp: t split: if_splits)
    show "n_NatPortAlloc ?i ip = (if flow_ports ?i ip = {} then None else Some (flow_ports ?i ip))" for ip
      using inv(4) [of ip] by (simp add: a ports)
  qed
qed

lemma NatTableClear_inv: "nat_inv q i \<Longrightarrow> nat_inv q (NatTableClear now order i)"
  unfolding NatTableClear_def by (induction order arbitrary: i) (auto simp: nat_expire_inv)


abbreviation with_ports :: "u32 \<Rightarrow> NetIf \<Rightarrow> NetIf" where
  "with_ports ip i \<equiv> i\<lparr>n_NatPortAlloc := (n_NatPortAlloc i)(ip \<mapsto> flow_ports i ip)\<rparr>"

lemma nat_port_alloc_result:
  assumes "nat_inv q i" "nat_port_alloc e ip (i, q) = ((i1, q1), r)"
  shows "q \<le> q1" "r = None \<Longrightarrow> i1 = i \<and> (\<exists>k. \<not> e_grant e k)"
    "r = Some new \<Longrightarrow> i1 = with_ports ip i \<and> (new \<longleftrightarrow> flow_ports i ip = {})"
  using assms(2) nat_invD(4) [OF assms(1), of ip]
  by (auto simp: nat_port_alloc_def fun_upd_idem split: if_splits)

lemma port_busy_with [simp]: "port_busy (i\<lparr>n_NatPortAlloc := x\<rparr>) = port_busy i"
  by (simp add: fun_eq_iff port_busy_def CheckNatPortMapping_def)

text \<open>The flow that is made for a key and a port.\<close>

definition made_flow :: "u32 \<Rightarrow> NatFlowHash \<Rightarrow> u16 \<Rightarrow> NetIf \<Rightarrow> NatFlow" where
  "made_flow now h wanPort i = \<lparr>nf_NatFlowHash = h, nf_RemoteIpAddr = nh_RemoteIpAddr h, nf_RemotePort = nh_RemotePort h,
     nf_WanIpAddr = IpAddrToU (n_IpAddr i), nf_WanPort = wanPort, nf_LanHostIpAddr = nh_LanHostIpAddr h,
     nf_LanHostPort = nh_LanHostPort h, nf_Ipv4HeadProto = nh_Ipv4HeadProto h, nf_LastAliveTime = now\<rparr>"

lemma nat_new_flow_result:
  assumes "nat_inv q i" "n_NatFlowTable i h = None" "q \<le> q1"
    and "nat_new_flow e now h (with_ports (nh_RemoteIpAddr h) i, q1) = ((i2, q2), r)"
    and "wanPort = next_port (port_busy i (flow_ports i (nh_RemoteIpAddr h)) (nh_Ipv4HeadProto h)) 32767"
  shows "q1 \<le> q2"
    and "r = None \<Longrightarrow> nat_same (with_ports (nh_RemoteIpAddr h) i) i2 \<and> (wanPort = 0 \<or> (\<exists>k. \<not> e_grant e k))"
    and "r = Some f \<Longrightarrow> wanPort \<noteq> 0 \<and> f = made_flow now h wanPort i \<and> (\<exists>p\<ge>q1. p < q2 \<and>
       n_NatPortAlloc i2 = (n_NatPortAlloc i)(nh_RemoteIpAddr h \<mapsto> insert wanPort (flow_ports i (nh_RemoteIpAddr h))) \<and>
       n_flow i2 = (n_flow i)(p := f) \<and> n_NatFlowTable i2 = (n_NatFlowTable i)(h \<mapsto> p) \<and>
       n_NatWanFlowTable i2 = (n_NatWanFlowTable i)(nat_wan_key f \<mapsto> p) \<and> n_NatType i2 = n_NatType i)"
proof -
  let ?ip = "nh_RemoteIpAddr h"
  have fresh: "wanPort \<notin> flow_ports i ?ip" if "wanPort \<noteq> 0"
    using next_port_free [of "port_busy i (flow_ports i ?ip) (nh_Ipv4HeadProto h)" 32767] that by (auto simp: assms(5) port_busy_def)
  have old: "n_NatFlowTable i k \<noteq> Some (Suc q1)" for k
    using nat_invD(1) [OF assms(1), of k "Suc q1"] assms(3) by auto
  note run = assms(4) [unfolded nat_new_flow_def Let_def prod.case, simplified, folded assms(5)]
  show "q1 \<le> q2"
    using run by (auto split: if_splits)
  show "nat_same (with_ports ?ip i) i2 \<and> (wanPort = 0 \<or> (\<exists>k. \<not> e_grant e k))" if "r = None"
    using run that fresh [unfolded assms(5)] assms(2) old
    by (auto simp: nat_same_def use_ports_def fun_upd_idem assms(5) split: if_splits)
  show "wanPort \<noteq> 0 \<and> f = made_flow now h wanPort i \<and> (\<exists>p\<ge>q1. p < q2 \<and>
       n_NatPortAlloc i2 = (n_NatPortAlloc i)(?ip \<mapsto> insert wanPort (flow_ports i ?ip)) \<and>
       n_flow i2 = (n_flow i)(p := f) \<and> n_NatFlowTable i2 = (n_NatFlowTable i)(h \<mapsto> p) \<and>
       n_NatWanFlowTable i2 = (n_NatWanFlowTable i)(nat_wan_key f \<mapsto> p) \<and> n_NatType i2 = n_NatType i)" if "r = Some f"
    using run that
    by (auto simp: made_flow_def use_ports_def assms(5) split: if_splits intro!: exI [of _ "Suc q1"])
qed


lemma nat_same_drop:
  assumes "nat_inv q i" "nat_same (with_ports ip i) i2" "new \<longleftrightarrow> flow_ports i ip = {}"
  shows "nat_same i (if new then nat_drop_empty ip i2 else i2)"
  using assms(2,3) nat_invD(4) [OF assms(1), of ip]
  by (auto simp: nat_same_def nat_drop_empty_def fun_upd_idem)

lemma nat_same_refl [simp]: "nat_same i i"
  by (simp add: nat_same_def)

lemma nat_same_touch: "nat_same i (touch now p i)"
  by (auto simp: nat_same_def touch_def)

text \<open>A new flow: the key has none, and the port set has been made or found.\<close>

lemma nat_fresh_flow:
  assumes inv: "nat_inv q i" and h: "n_NatFlowTable i h = None"
    and a: "nat_port_alloc e (nh_RemoteIpAddr h) (i, q) = ((i1, q1), Some fresh)"
    and b: "nat_new_flow e now h (i1, q1) = ((i2, q'), Some f)"
    and c: "i' = (if fresh then nat_drop_empty (nh_RemoteIpAddr h) i2 else i2)"
  shows "nat_inv q' i' \<and> q \<le> q' \<and> n_NatType i' = n_NatType i \<and> (\<exists>p. n_NatFlowTable i' h = Some p \<and> n_flow i' p = f) \<and>
    \<not> port_busy i (flow_ports i (nh_RemoteIpAddr h)) (nh_Ipv4HeadProto h) (nf_WanPort f) \<and> nf_WanIpAddr f = IpAddrToU (n_IpAddr i)"
proof -
  let ?ip = "nh_RemoteIpAddr h"
  define w where "w = next_port (port_busy i (flow_ports i ?ip) (nh_Ipv4HeadProto h)) 32767"
  note pa = nat_port_alloc_result [OF inv a]
  note nf = nat_new_flow_result [OF inv h pa(1) b [unfolded conjunct1 [OF pa(3) [OF refl]]] w_def]
  obtain p where p: "q1 \<le> p" "p < q'" "w \<noteq> 0" "f = made_flow now h w i"
    "n_NatPortAlloc i2 = (n_NatPortAlloc i)(?ip \<mapsto> insert w (flow_ports i ?ip))" "n_flow i2 = (n_flow i)(p := f)"
    "n_NatFlowTable i2 = (n_NatFlowTable i)(h \<mapsto> p)" "n_NatWanFlowTable i2 = (n_NatWanFlowTable i)(nat_wan_key f \<mapsto> p)"
    "n_NatType i2 = n_NatType i"
    using nf(3) [OF refl] by blast
  have i': "i' = i2"
    using c p(5) by (simp add: nat_drop_empty_def)
  have w: "\<not> port_busy i (flow_ports i ?ip) (nh_Ipv4HeadProto h) w" "32767 < w"
    using next_port_free p(3) unfolding w_def by blast+
  have f: "nf_WanPort f = w" "nf_RemoteIpAddr f = ?ip" "nf_NatFlowHash f = h" "nf_WanIpAddr f = IpAddrToU (n_IpAddr i)"
    by (simp_all add: p(4) made_flow_def)
  have "flow_ok f"
    using w(2) by (simp add: p(4) made_flow_def flow_ok_def)
  moreover have "nf_WanPort f \<notin> flow_ports i (nf_RemoteIpAddr f)"
    using w(1) by (simp add: f port_busy_def)
  ultimately have "nat_inv q' i2"
    using nat_inv_add [OF inv h _ p(2)] pa(1) p(1) p(5-8) f by simp
  then show ?thesis
    using p(2,6,7,9) f w(1) nf(1) pa(1) by (simp add: i')
qed

text \<open>No flow: some request was refused or every port is busy, and nothing has changed.\<close>

lemma nat_no_flow:
  assumes inv: "nat_inv q i" and h: "n_NatFlowTable i h = None"
    and a: "nat_port_alloc e (nh_RemoteIpAddr h) (i, q) = ((i1, q1), Some fresh)"
    and b: "nat_new_flow e now h (i1, q1) = ((i2, q'), None)"
    and c: "i' = (if fresh then nat_drop_empty (nh_RemoteIpAddr h) i2 else i2)"
  shows "nat_same i i' \<and> q \<le> q' \<and>
    ((\<exists>k. \<not> e_grant e k) \<or> (\<forall>v>32767. port_busy i (flow_ports i (nh_RemoteIpAddr h)) (nh_Ipv4HeadProto h) v))"
proof -
  let ?ip = "nh_RemoteIpAddr h"
  define w where "w = next_port (port_busy i (flow_ports i ?ip) (nh_Ipv4HeadProto h)) 32767"
  note pa = nat_port_alloc_result [OF inv a]
  note nf = nat_new_flow_result [OF inv h pa(1) b [unfolded conjunct1 [OF pa(3) [OF refl]]] w_def]
  have "nat_same i i'"
    unfolding c by (rule nat_same_drop [OF inv conjunct1 [OF nf(2) [OF refl]] conjunct2 [OF pa(3) [OF refl]]])
  moreover have "port_busy i (flow_ports i ?ip) (nh_Ipv4HeadProto h) v" if "w = 0" "32767 < v" for v
    using next_port_none that unfolding w_def by blast
  ultimately show ?thesis
    using order_trans [OF pa(1) nf(1)] nf(2) [OF refl] by blast
qed

lemma NatAddFlow_cases:
  assumes "NatAddFlow e now lan remote lp rp proto (i, q) = ((i', q'), r)"
    and h: "h = nat_flow_hash i remote rp lan lp proto"
  obtains (zero) "lp = 0 \<or> rp = 0" "i' = i" "q' = q" "r = None"
    | (old) p where "n_NatFlowTable i h = Some p" "i' = touch now p i" "q' = q" "r = Some (n_flow i' p)"
    | (no_ports) "n_NatFlowTable i h = None" "nat_port_alloc e (nh_RemoteIpAddr h) (i, q) = ((i', q'), None)" "r = None"
    | (new) i1 q1 fresh i2 where "n_NatFlowTable i h = None"
        "nat_port_alloc e (nh_RemoteIpAddr h) (i, q) = ((i1, q1), Some fresh)"
        "nat_new_flow e now h (i1, q1) = ((i2, q'), r)" "i' = (if fresh then nat_drop_empty (nh_RemoteIpAddr h) i2 else i2)"
proof (cases "lp = 0 \<or> rp = 0")
  case True
  then show thesis
    using assms(1) zero by (simp add: NatAddFlow_def Let_def)
next
  case False
  note run = assms(1) [unfolded NatAddFlow_def Let_def prod.case if_not_P [OF False], folded h]
  show thesis
  proof (cases "n_NatFlowTable i h")
    case (Some p)
    then show thesis
      using run by (intro old) auto
  next
    case None
    obtain i1 q1 a where a: "nat_port_alloc e (nh_RemoteIpAddr h) (i, q) = ((i1, q1), a)"
      by (metis prod.exhaust)
    obtain i2 q2 b where b: "nat_new_flow e now h (i1, q1) = ((i2, q2), b)"
      by (metis prod.exhaust)
    show thesis
      using run no_ports new None a b by (cases a) simp_all
  qed
qed

lemma hash_proto [simp]: "nh_Ipv4HeadProto (nat_flow_hash i remote rp lan lp proto) = proto"
  by (simp add: nat_flow_hash_def split: prod.splits)

lemma NatAddFlow_inv:
  assumes "nat_inv q i" "NatAddFlow e now lan remote lp rp proto (i, q) = ((i', q'), r)"
  shows "nat_inv q' i' \<and> q \<le> q'"
  using assms(2) refl
proof (cases rule: NatAddFlow_cases)
  case zero
  then show ?thesis
    using assms(1) by simp
next
  case (old p)
  then show ?thesis
    using nat_same_inv [OF assms(1) nat_same_touch order_refl] by simp
next
  case no_ports
  then show ?thesis
    using nat_port_alloc_result [OF assms(1) no_ports(2)] nat_same_inv [OF assms(1)] by (simp add: nat_same_def)
next
  case (new i1 q1 fresh i2)
  show ?thesis
  proof (cases r)
    case None
    then show ?thesis
      using nat_no_flow [OF assms(1) new(1,2) _ new(4)] new(3) nat_same_inv [OF assms(1)] by blast
  next
    case (Some f)
    then show ?thesis
      using nat_fresh_flow [OF assms(1) new(1,2) _ new(4)] new(3) by blast
  qed
qed

subsection \<open>Runs\<close>

text \<open>The operations on the tables in any order, with any memory behaviour, and anything else
  that leaves the tables alone: registering services, taking an address, other memory requests.\<close>

inductive nat_step :: "NetIf \<times> nat \<Rightarrow> NetIf \<times> nat \<Rightarrow> bool" where
  add: "NatAddFlow e now lan remote lp rp proto iq = (iq', r) \<Longrightarrow> nat_step iq iq'"
| by_hash: "NatGetFlowByHash now remote rp lan lp proto i = (i', r) \<Longrightarrow> nat_step (i, q) (i', q)"
| by_wan: "NatGetFlowByWan now remote rp wan wp proto i = (i', r) \<Longrightarrow> nat_step (i, q) (i', q)"
| clear: "nat_step (i, q) (NatTableClear now order i, q)"
| other: "nat_same i i' \<Longrightarrow> q \<le> q' \<Longrightarrow> nat_step (i, q) (i', q')"

inductive_cases nat_stepE: "nat_step (i, q) (i', q')"

definition nat_empty :: "NetIf \<Rightarrow> bool" where
  "nat_empty i \<longleftrightarrow> n_NatFlowTable i = Map.empty \<and> n_NatWanFlowTable i = Map.empty \<and> n_NatPortAlloc i = Map.empty"

lemma nat_empty_inv: "nat_empty i \<Longrightarrow> nat_inv q i"
  by (simp add: nat_empty_def nat_inv_def flow_ports_def)

lemma NatGetFlowByHash_same: "NatGetFlowByHash now remote rp lan lp proto i = (i', r) \<Longrightarrow> nat_same i i'"
  by (auto simp: NatGetFlowByHash_def nat_same_touch Let_def split: option.splits)

lemma NatGetFlowByWan_same: "NatGetFlowByWan now remote rp wan wp proto i = (i', r) \<Longrightarrow> nat_same i i'"
  by (auto simp: NatGetFlowByWan_def nat_same_touch Let_def split: option.splits prod.splits)

lemma nat_step_inv: "nat_step (i, q) (i', q') \<Longrightarrow> nat_inv q i \<Longrightarrow> nat_inv q' i'"
  by (erule nat_stepE)
    (auto dest: NatAddFlow_inv NatGetFlowByHash_same NatGetFlowByWan_same intro: NatTableClear_inv nat_same_inv)

lemma nat_reach_inv:
  assumes "nat_step\<^sup>*\<^sup>* (i, q) (i', q')" "nat_inv q i"
  shows "nat_inv q' i'"
  using assms by (induction rule: rtranclp_induct2) (auto intro: nat_step_inv)

text \<open>A flow that is found by its LAN side is found by its WAN side.\<close>

lemma by_hash_by_wan:
  assumes "nat_inv q i" "n_NatFlowTable i (nat_flow_hash i remote rp lan lp proto) = Some p"
  shows "NatGetFlowByWan now remote rp (UToIpAddr (nf_WanIpAddr (n_flow i p))) (nf_WanPort (n_flow i p)) proto i =
    (touch now p i, Some ((n_flow i p)\<lparr>nf_LastAliveTime := now\<rparr>))"
proof -
  have f: "flow_ok (n_flow i p)" "nf_NatFlowHash (n_flow i p) = nat_flow_hash i remote rp lan lp proto"
    "n_NatWanFlowTable i (nat_wan_key (n_flow i p)) = Some p"
    using nat_invD(1) [OF assms] by auto
  have "nat_wan_key (n_flow i p) = (case nat_remote i remote rp proto of (ip, port) \<Rightarrow>
      \<lparr>nw_RemoteIpAddr = ip, nw_RemotePort = port, nw_WanIpAddr = nf_WanIpAddr (n_flow i p),
       nw_WanPort = nf_WanPort (n_flow i p), nw_Ipv4HeadProto = proto\<rparr>)"
    using f(1) unfolding flow_ok_def f(2) by (simp add: nat_wan_key_def nat_flow_hash_def split: prod.splits)
  then show ?thesis
    using f(3) by (simp add: NatGetFlowByWan_def touch_def Let_def split: prod.splits)
qed

lemma by_hash_fields:
  assumes "nat_inv q i" "n_NatFlowTable i (nat_flow_hash i remote rp lan lp proto) = Some p"
  shows "nf_LanHostIpAddr (n_flow i p) = IpAddrToU lan" "nf_LanHostPort (n_flow i p) = lp"
    "nf_RemoteIpAddr (n_flow i p) = fst (nat_remote i remote rp proto)"
  using nat_invD(1) [OF assms] by (auto simp: flow_ok_def nat_flow_hash_def split: prod.splits)


lemma nat_remote_same: "nat_same i i' \<Longrightarrow> nat_remote i' = nat_remote i"
  by (auto simp: nat_remote_def nat_same_def fun_eq_iff)

lemma nat_hash_same: "nat_same i i' \<Longrightarrow> nat_flow_hash i' = nat_flow_hash i"
  by (auto simp: nat_flow_hash_def nat_remote_same fun_eq_iff)

lemma by_hash_found:
  assumes "NatGetFlowByHash now remote rp lan lp proto i = (i', Some f)"
  obtains p where "n_NatFlowTable i (nat_flow_hash i remote rp lan lp proto) = Some p" "i' = touch now p i" "f = n_flow i' p"
    "nat_same i i'"
  using assms that by (auto simp: NatGetFlowByHash_def Let_def nat_same_touch split: option.splits)

lemma nat_flows_apart:
  assumes "nat_empty i0" "nat_step\<^sup>*\<^sup>* (i0, q0) (i, q)" "NatGetFlowByHash now remote rp lan lp proto i = (i', Some f)"
  shows "n_NatType i \<noteq> NatTypeSymmetric \<or> remote' = remote \<and> rp' = rp \<Longrightarrow>
      \<exists>i'' f'. NatGetFlowByWan now' remote' rp' (UToIpAddr (nf_WanIpAddr f)) (nf_WanPort f) proto i' = (i'', Some f') \<and>
        UToIpAddr (nf_LanHostIpAddr f') = lan \<and> nf_LanHostPort f' = lp"
    and "NatGetFlowByHash now' remote rp' lan' lp' proto' i' = (i'', Some f') \<Longrightarrow> (lan', lp', proto') \<noteq> (lan, lp, proto) \<Longrightarrow>
      nf_WanPort f' \<noteq> nf_WanPort f"
proof -
  obtain p where p: "n_NatFlowTable i (nat_flow_hash i remote rp lan lp proto) = Some p" "i' = touch now p i" "f = n_flow i' p"
    and same: "nat_same i i'"
    using assms(3) by (rule by_hash_found)
  have inv: "nat_inv q i'"
    using nat_same_inv [OF nat_reach_inv [OF assms(2) nat_empty_inv [OF assms(1)]] same order_refl] .
  have p': "n_NatFlowTable i' (nat_flow_hash i' remote rp lan lp proto) = Some p"
    using p(1) same nat_hash_same [OF same] by (simp add: nat_same_def)
  note fields = by_hash_fields [OF inv p']
  show "\<exists>i'' f'. NatGetFlowByWan now' remote' rp' (UToIpAddr (nf_WanIpAddr f)) (nf_WanPort f) proto i' = (i'', Some f') \<and>
        UToIpAddr (nf_LanHostIpAddr f') = lan \<and> nf_LanHostPort f' = lp"
    if a: "n_NatType i \<noteq> NatTypeSymmetric \<or> remote' = remote \<and> rp' = rp"
  proof -
    have "nat_remote i' remote' rp' proto = nat_remote i' remote rp proto"
      using a by (auto simp: nat_remote_same [OF same] nat_remote_def)
    then have "NatGetFlowByWan now' remote' rp' wan wp proto i' = NatGetFlowByWan now' remote rp wan wp proto i'" for wan wp
      by (simp add: NatGetFlowByWan_def)
    then show ?thesis
      using by_hash_by_wan [OF inv p'] fields by (simp add: p(3))
  qed
  show "nf_WanPort f' \<noteq> nf_WanPort f" if b: "NatGetFlowByHash now' remote rp' lan' lp' proto' i' = (i'', Some f')"
    and ne: "(lan', lp', proto') \<noteq> (lan, lp, proto)"
  proof
    assume w: "nf_WanPort f' = nf_WanPort f"
    obtain p2 where p2: "n_NatFlowTable i' (nat_flow_hash i' remote rp' lan' lp' proto') = Some p2" "f' = n_flow (touch now' p2 i') p2"
      using b by (elim by_hash_found) blast
    have "nf_WanPort (n_flow i' p2) = nf_WanPort (n_flow i' p)"
      using w p(3) p2(2) by (simp add: touch_def)
    moreover have "nf_RemoteIpAddr (n_flow i' p2) = nf_RemoteIpAddr (n_flow i' p)"
      using fields(3) by_hash_fields(3) [OF inv p2(1)] by (simp add: nat_remote_def split: if_splits)
    ultimately have "nat_flow_hash i' remote rp' lan' lp' proto' = nat_flow_hash i' remote rp lan lp proto"
      using nat_invD(3) [OF inv p2(1) p'] by blast
    then show False
      using ne by (auto simp: nat_flow_hash_def IpAddrToU_inject split: prod.splits)
  qed
qed

lemma NatAddFlow_found:
  assumes inv: "nat_inv q i" and run: "NatAddFlow e now lan remote lp rp proto (i, q) = ((i', q'), Some f)"
    and h: "h = nat_flow_hash i remote rp lan lp proto"
  shows "(\<exists>i''. NatGetFlowByHash now remote rp lan lp proto i' = (i'', Some f)) \<and>
    (n_NatFlowTable i h = None \<longrightarrow> \<not> port_busy i (flow_ports i (nh_RemoteIpAddr h)) proto (nf_WanPort f))"
  using run h
proof (cases rule: NatAddFlow_cases)
  case (old p)
  have "nat_flow_hash i' = nat_flow_hash i"
    using nat_hash_same [OF nat_same_touch] old(2) by simp
  then show ?thesis
    using old h by (auto simp: NatGetFlowByHash_def touch_def Let_def)
next
  case (new i1 q1 fresh i2)
  note r = nat_fresh_flow [OF inv new(1,2) new(3) new(4)]
  then obtain p where p: "n_NatFlowTable i' h = Some p" "n_flow i' p = f"
    by blast
  have "nat_flow_hash i' = nat_flow_hash i"
    using r by (simp add: fun_eq_iff nat_flow_hash_def nat_remote_def)
  moreover have "nf_LastAliveTime f = now"
    using new(3) by (auto simp: nat_new_flow_def Let_def split: if_splits)
  ultimately show ?thesis
    using p r h by (auto simp: NatGetFlowByHash_def touch_def Let_def)
qed simp_all

lemma NatAddFlow_refused:
  assumes inv: "nat_inv q i" and run: "NatAddFlow e now lan remote lp rp proto (i, q) = ((i', q'), None)"
    and h: "h = nat_flow_hash i remote rp lan lp proto"
  shows "nat_same i i' \<and> (lp = 0 \<or> rp = 0 \<or> (\<exists>k. \<not> e_grant e k) \<or>
    (\<forall>v>32767. port_busy i (flow_ports i (nh_RemoteIpAddr h)) proto v))"
  using run h
proof (cases rule: NatAddFlow_cases)
  case no_ports
  then show ?thesis
    using nat_port_alloc_result(2) [OF inv no_ports(2)] by auto
next
  case (new i1 q1 fresh i2)
  then show ?thesis
    using nat_no_flow [OF inv new] h by simp
qed auto

text \<open>A concrete interface with empty tables, and one flow added to it.\<close>

definition zero_flow :: NatFlow where
  "zero_flow = \<lparr>nf_NatFlowHash = \<lparr>nh_RemoteIpAddr = 0, nh_RemotePort = 0, nh_LanHostIpAddr = 0, nh_LanHostPort = 0, nh_Ipv4HeadProto = 0\<rparr>,
     nf_RemoteIpAddr = 0, nf_RemotePort = 0, nf_WanIpAddr = 0, nf_WanPort = 0, nf_LanHostIpAddr = 0, nf_LanHostPort = 0,
     nf_Ipv4HeadProto = 0, nf_LastAliveTime = 0\<rparr>"

definition nat_demo :: NetIf where
  "nat_demo = \<lparr>n_Name = ''wan'', n_NatEnable = True, n_NatType = NatTypeSymmetric, n_DhcpServerEnable = False, n_DhcpClientEnable = False,
     n_MacAddr = MacAddr 2 0 0 0 0 1, n_IpAddr = Ipv4Addr 1 2 3 4, n_NetworkMask = Ipv4Addr 255 255 255 0,
     n_Gateway = Ipv4Addr 1 2 3 1, n_HasGateway = True, n_LoChan = [], n_Ipv6PassthroughPeer = None, n_ArpCacheTable = Map.empty,
     n_NatFlowTable = Map.empty, n_NatWanFlowTable = Map.empty, n_flow = (\<lambda>_. zero_flow), n_NatPortAlloc = Map.empty, n_NatPortMappingTable = [],
     n_DnsServerAddr = Ipv4Addr 8 8 8 8, n_DhcpLeaseTable = Map.empty, n_DhcpClientTransactionId = [],
     n_UdpServiceMap = [32768 \<mapsto> True], n_TcpServiceMap = Map.empty\<rparr>"

definition all_granted :: env where
  "all_granted = \<lparr>e_ce = True, e_grant = (\<lambda>_. True), e_options = (\<lambda>_. []), e_leases = (\<lambda>_. [])\<rparr>"

abbreviation demo_lan :: Ipv4Addr where "demo_lan \<equiv> Ipv4Addr 192 168 0 7"
abbreviation demo_remote :: Ipv4Addr where "demo_remote \<equiv> Ipv4Addr 9 9 9 9"

lemma nat_demo_add:
  "snd (NatAddFlow all_granted 100 demo_lan demo_remote 5000 53 IPH_PROTO_UDP (nat_demo, 0)) \<noteq> None"
  "map_option nf_WanPort (snd (NatAddFlow all_granted 100 demo_lan demo_remote 5000 53 IPH_PROTO_UDP (nat_demo, 0))) = Some 32769"
  by code_simp+

lemma nat_demo_flow:
  obtains i q f where "NatAddFlow all_granted 100 demo_lan demo_remote 5000 53 IPH_PROTO_UDP (nat_demo, 0) = ((i, q), Some f)"
    "nf_WanPort f = 32769" "nat_step\<^sup>*\<^sup>* (nat_demo, 0) (i, q)" "nat_empty nat_demo"
proof -
  obtain i q f where r: "NatAddFlow all_granted 100 demo_lan demo_remote 5000 53 IPH_PROTO_UDP (nat_demo, 0) = ((i, q), Some f)"
    using nat_demo_add(1) by (metis not_None_eq prod.exhaust_sel)
  then show thesis
    using that nat_demo_add(2) nat_step.add [OF r] by (simp add: nat_empty_def nat_demo_def r_into_rtranclp)
qed

subsection \<open>Properties\<close>

text \<open>C34: In every state the NAT tables of an interface can reach, a reply is translated back to
  the host that sent the request, and no two hosts are confused. If a request from a LAN host to
  a remote address has a flow, then a packet from that remote address (from any one, with the
  full-cone type) to the WAN address and port of the flow is translated to that host and port.
  And any other LAN host, port or protocol with a flow to the same remote address has another
  WAN port.\<close>

theorem nat_replies_return:
  assumes "nat_empty i0" "nat_step\<^sup>*\<^sup>* (i0, q0) (i, q)" "NatGetFlowByHash now remote rp lan lp proto i = (i', Some f)"
  shows "(n_NatType i \<noteq> NatTypeSymmetric \<or> remote' = remote \<and> rp' = rp \<longrightarrow>
      (\<exists>i'' f'. NatGetFlowByWan now' remote' rp' (UToIpAddr (nf_WanIpAddr f)) (nf_WanPort f) proto i' = (i'', Some f') \<and>
        UToIpAddr (nf_LanHostIpAddr f') = lan \<and> nf_LanHostPort f' = lp)) \<and>
    (\<forall>rp' lan' lp' proto' i'' f'. NatGetFlowByHash now' remote rp' lan' lp' proto' i' = (i'', Some f') \<longrightarrow>
      (lan', lp', proto') \<noteq> (lan, lp, proto) \<longrightarrow> nf_WanPort f' \<noteq> nf_WanPort f)"
  by (intro conjI impI allI; (rule nat_flows_apart(1) [OF assms], assumption | rule nat_flows_apart(2) [OF assms], assumption+))

theorem nat_replies_return_witness:
  "\<exists>i q i' f i'' f'. nat_step\<^sup>*\<^sup>* (nat_demo, 0) (i, q) \<and>
     NatGetFlowByHash 100 demo_remote 53 demo_lan 5000 IPH_PROTO_UDP i = (i', Some f) \<and>
     NatGetFlowByWan 101 demo_remote 53 (UToIpAddr (nf_WanIpAddr f)) (nf_WanPort f) IPH_PROTO_UDP i' = (i'', Some f') \<and>
     UToIpAddr (nf_LanHostIpAddr f') = demo_lan \<and> nf_LanHostPort f' = 5000"
proof -
  obtain i q f where r: "NatAddFlow all_granted 100 demo_lan demo_remote 5000 53 IPH_PROTO_UDP (nat_demo, 0) = ((i, q), Some f)"
    "nat_step\<^sup>*\<^sup>* (nat_demo, 0) (i, q)" "nat_empty nat_demo"
    by (rule nat_demo_flow)
  obtain i' where i': "NatGetFlowByHash 100 demo_remote 53 demo_lan 5000 IPH_PROTO_UDP i = (i', Some f)"
    using NatAddFlow_found [OF nat_empty_inv [OF r(3)] r(1) refl] by blast
  show ?thesis
    using r(2) i' nat_replies_return [OF r(3,2) i', of demo_remote 53 101] by blast
qed

text \<open>C35: Adding a flow, in every state the NAT tables can reach. If it succeeds, looking the
  flow up finds what was returned, and a new flow has a port that no flow to that remote address,
  no registered service and no static mapping uses. If it fails, all tables are as before, whichever
  step failed, and there is a reason: a zero port, a refused memory request, or no free port
  above 32767.\<close>

theorem nat_add_outcome:
  assumes "nat_empty i0" "nat_step\<^sup>*\<^sup>* (i0, q0) (i, q)" "NatAddFlow e now lan remote lp rp proto (i, q) = ((i', q'), r)"
    and "h = nat_flow_hash i remote rp lan lp proto"
  shows "case r of
      Some f \<Rightarrow> (\<exists>i''. NatGetFlowByHash now remote rp lan lp proto i' = (i'', Some f)) \<and>
        (n_NatFlowTable i h = None \<longrightarrow> \<not> port_busy i (flow_ports i (nh_RemoteIpAddr h)) proto (nf_WanPort f))
    | None \<Rightarrow> nat_same i i' \<and> (lp = 0 \<or> rp = 0 \<or> (\<exists>k. \<not> e_grant e k) \<or>
        (\<forall>v>32767. port_busy i (flow_ports i (nh_RemoteIpAddr h)) proto v))"
  using NatAddFlow_found [OF nat_reach_inv [OF assms(2) nat_empty_inv [OF assms(1)]] _ assms(4)]
    NatAddFlow_refused [OF nat_reach_inv [OF assms(2) nat_empty_inv [OF assms(1)]] _ assms(4)] assms(3)
  by (cases r) auto

theorem nat_add_outcome_witness:
  "\<exists>i q i' q' f i''. nat_step\<^sup>*\<^sup>* (nat_demo, 0) (i, q) \<and>
     NatAddFlow all_granted 101 (Ipv4Addr 192 168 0 8) demo_remote 5000 53 IPH_PROTO_UDP (i, q) = ((i', q'), Some f) \<and>
     NatGetFlowByHash 101 demo_remote 53 (Ipv4Addr 192 168 0 8) 5000 IPH_PROTO_UDP i' = (i'', Some f) \<and> nf_WanPort f = 32770"
proof -
  let ?run = "NatAddFlow all_granted 101 (Ipv4Addr 192 168 0 8) demo_remote 5000 53 IPH_PROTO_UDP"
  obtain i q f where r: "NatAddFlow all_granted 100 demo_lan demo_remote 5000 53 IPH_PROTO_UDP (nat_demo, 0) = ((i, q), Some f)"
    "nat_step\<^sup>*\<^sup>* (nat_demo, 0) (i, q)" "nat_empty nat_demo"
    by (rule nat_demo_flow)
  have "map_option nf_WanPort (snd (?run (fst (NatAddFlow all_granted 100 demo_lan demo_remote 5000 53 IPH_PROTO_UDP (nat_demo, 0))))) =
      Some 32770"
    by code_simp
  then have run: "map_option nf_WanPort (snd (?run (i, q))) = Some 32770"
    by (simp only: r(1) fst_conv)
  obtain i' q' x where x: "?run (i, q) = ((i', q'), x)"
    by (metis prod.exhaust)
  then obtain f' where s: "?run (i, q) = ((i', q'), Some f')" "nf_WanPort f' = 32770"
    using run by (simp only: x snd_conv) (cases x; simp)
  then show ?thesis
    using nat_add_outcome [OF r(3,2) s(1) refl, unfolded option.case] r(2) by blast
qed

end
