(* ===== verification/Engine_Send.thy ===== *)
theory Engine_Send
  imports Nat_Table
begin

text \<open>
  What the router sends and the services on its interfaces, from \<^verbatim>\<open>ipv4_engine.go\<close>, \<^verbatim>\<open>icmp_engine.go\<close>,
  \<^verbatim>\<open>udp_engine.go\<close> and \<^verbatim>\<open>tcp_engine.go\<close> of \<^verbatim>\<open>src/engine\<close>: IPv4 packets routed to an interface and
  resolved to a link address, the loopback queue, echo replies, and the functions registered for
  ports, whose calls are events. The flag of a sending function is its result.
\<close>

subsection \<open>Sending\<close>

definition NetIf_FindRoute :: "Router \<Rightarrow> Ipv4Addr \<Rightarrow> (Ipv4Addr \<times> string \<times> bool) option" where
  "NetIf_FindRoute s ipv4DstAddr =
     map_option (\<lambda>route. case route of
         None \<Rightarrow> (Ipv4Addr 0 0 0 0, '''', False)
       | Some r \<Rightarrow> (NextHop r, NetIfName r, HasNextHop r))
     (FindRoute (r_RouteTable s) ipv4DstAddr)"

definition LoChan_cap :: nat where "LoChan_cap = 1024"

text \<open>The non-blocking send to the loopback channel.\<close>

definition lo_send :: "string \<Rightarrow> NetIf \<Rightarrow> bytes \<Rightarrow> Router \<Rightarrow> Router \<times> bool" where
  "lo_send n i pkt s =
     (if length (n_LoChan i) < LoChan_cap then (put_if n (i\<lparr>n_LoChan := n_LoChan i @ [pkt]\<rparr>) s, True) else (s, False))"

definition TxIpv4 :: "env \<Rightarrow> string \<Rightarrow> bytes \<Rightarrow> u8 \<Rightarrow> Ipv4Addr \<Rightarrow> Router \<Rightarrow> (Router \<times> bool) option" where
  "TxIpv4 e n ipv4Payload ipv4HeadProto ipv4DstAddr s =
     do {
       i \<leftarrow> r_NetIfMap s n;
       let (iphId, built) = BuildIpv4Pkt (e_ce e) (r_iphId s) []
             \<lparr>ip_Payload = ipv4Payload, ip_IpHeadProto = ipv4HeadProto, ip_SrcAddr = n_IpAddr i, ip_DstAddr = ipv4DstAddr\<rparr>;
       let s = s\<lparr>r_iphId := iphId\<rparr>;
       case built of
         Inl err \<Rightarrow> Some (s, False)
       | Inr ipv4Pkt \<Rightarrow>
           if ipv4DstAddr = BROADCAST_IPV4_ADDR then TxEthernet n ipv4Pkt BROADCAST_MAC_ADDR ETH_PROTO_IPV4 s
           else do {
             (nextHopIpAddr, outNetIfName, hasNextHop) \<leftarrow> NetIf_FindRoute s ipv4DstAddr;
             if outNetIfName = '''' then Some (s, False)
             else do {
               outNetIf \<leftarrow> r_NetIfMap s outNetIfName;
               if IpAddrToU ipv4DstAddr = IpAddrToU (n_IpAddr outNetIf) then Some (lo_send outNetIfName outNetIf ipv4Pkt s)
               else do {
                 (s, arpCache) \<leftarrow> GetArpCache outNetIfName (if hasNextHop then nextHopIpAddr else ipv4DstAddr) s;
                 case arpCache of
                   None \<Rightarrow> Some (s, False)
                 | Some c \<Rightarrow> TxEthernet outNetIfName ipv4Pkt (ac_MacAddr c) ETH_PROTO_IPV4 s
               }
             }
           }
     }"

definition TxIcmp :: "env \<Rightarrow> string \<Rightarrow> bytes \<Rightarrow> u8 \<Rightarrow> bytes \<Rightarrow> u16 \<Rightarrow> Ipv4Addr \<Rightarrow> Router \<Rightarrow> (Router \<times> bool) option" where
  "TxIcmp e n icmpPayload icmpType icmpId icmpSeq ipv4DstAddr s =
     (case BuildIcmpPkt [] \<lparr>icmp_Payload = icmpPayload, icmp_IcmpType = icmpType, icmp_IcmpId = icmpId, icmp_IcmpSeq = icmpSeq\<rparr> of
        Inl err \<Rightarrow> Some (s, False)
      | Inr icmpPkt \<Rightarrow> TxIpv4 e n icmpPkt IPH_PROTO_ICMP ipv4DstAddr s)"

definition TxUdp :: "env \<Rightarrow> string \<Rightarrow> bytes \<Rightarrow> u16 \<Rightarrow> u16 \<Rightarrow> Ipv4Addr \<Rightarrow> Router \<Rightarrow> (Router \<times> bool) option" where
  "TxUdp e n udpPayload udpSrcPort udpDstPort ipv4DstAddr s =
     do {
       i \<leftarrow> r_NetIfMap s n;
       case BuildUdpPkt (e_ce e) [] \<lparr>udp_Payload = udpPayload, udp_SrcPort = udpSrcPort, udp_DstPort = udpDstPort\<rparr>
              \<lparr>pair_SrcAddr = n_IpAddr i, pair_DstAddr = ipv4DstAddr\<rparr> of
         Inl err \<Rightarrow> Some (s, False)
       | Inr udpPkt \<Rightarrow> TxIpv4 e n udpPkt IPH_PROTO_UDP ipv4DstAddr s
     }"

definition SendUdp :: "env \<Rightarrow> string \<Rightarrow> u16 \<Rightarrow> UdpSession \<Rightarrow> bytes \<Rightarrow> Router \<Rightarrow> (Router \<times> bool) option" where
  "SendUdp e n udpPort session payload s = TxUdp e n payload udpPort (us_RemotePort session) (UToIpAddr (us_RemoteIp session)) s"

definition SendTcp :: "env \<Rightarrow> string \<Rightarrow> Ipv4Addr \<Rightarrow> bytes \<Rightarrow> Router \<Rightarrow> (Router \<times> bool) option" where
  "SendTcp e n remoteIp packet s =
     do {
       i \<leftarrow> r_NetIfMap s n;
       parsed \<leftarrow> ParseTcpPkt (e_ce e) packet \<lparr>pair_SrcAddr = n_IpAddr i, pair_DstAddr = remoteIp\<rparr>;
       case parsed of
         Inl err \<Rightarrow> Some (s, False)
       | Inr _ \<Rightarrow> TxIpv4 e n packet IPH_PROTO_TCP remoteIp s
     }"

text \<open>One turn of \<^verbatim>\<open>Ping\<close>, with the identifier it drew and the sequence number of the turn.\<close>

definition Ping :: "env \<Rightarrow> string \<Rightarrow> Ipv4Addr \<Rightarrow> bytes \<Rightarrow> u16 \<Rightarrow> Router \<Rightarrow> (Router \<times> bool) option" where
  "Ping e n ipv4DstAddr randByte icmpSeq s = TxIcmp e n ICMP_DEFAULT_PAYLOAD ICMP_REQUEST randByte icmpSeq ipv4DstAddr s"

subsection \<open>Services\<close>

definition RecvUdp :: "string \<Rightarrow> u16 \<Rightarrow> bool \<Rightarrow> Router \<Rightarrow> Router option" where
  "RecvUdp n udpPort handleFunc s =
     map_option (\<lambda>i. put_if n (i\<lparr>n_UdpServiceMap := (n_UdpServiceMap i)(udpPort \<mapsto> handleFunc)\<rparr>) s) (r_NetIfMap s n)"

definition RecvTcp :: "string \<Rightarrow> u16 \<Rightarrow> bool \<Rightarrow> Router \<Rightarrow> Router option" where
  "RecvTcp n tcpPort handleFunc s =
     map_option (\<lambda>i. put_if n (i\<lparr>n_TcpServiceMap := (n_TcpServiceMap i)(tcpPort := if handleFunc then Some True else None)\<rparr>) s)
       (r_NetIfMap s n)"

definition RxIcmp :: "env \<Rightarrow> string \<Rightarrow> bytes \<Rightarrow> Ipv4Addr \<Rightarrow> Router \<Rightarrow> Router option" where
  "RxIcmp e n ipv4Payload ipv4SrcAddr s =
     (case ParseIcmpPkt ipv4Payload of
        Inl err \<Rightarrow> Some s
      | Inr icmp \<Rightarrow>
          if icmp_IcmpType icmp = ICMP_REQUEST
          then map_option fst (TxIcmp e n (icmp_Payload icmp) ICMP_REPLY (icmp_IcmpId icmp) (icmp_IcmpSeq icmp) ipv4SrcAddr s)
          else Some s)"

definition RxTcp :: "env \<Rightarrow> string \<Rightarrow> bytes \<Rightarrow> Ipv4Addr \<Rightarrow> Router \<Rightarrow> Router option" where
  "RxTcp e n ipv4Payload ipv4SrcAddr s =
     do {
       i \<leftarrow> r_NetIfMap s n;
       parsed \<leftarrow> ParseTcpPkt (e_ce e) ipv4Payload \<lparr>pair_SrcAddr = ipv4SrcAddr, pair_DstAddr = n_IpAddr i\<rparr>;
       Some (case parsed of
               Inl err \<Rightarrow> s
             | Inr tcp \<Rightarrow>
                 if n_TcpServiceMap i (tcp_DstPort tcp) = Some True
                 then emit_event (TcpCall n (tcp_DstPort tcp) ipv4SrcAddr ipv4Payload) s else s)
     }"

end
