(* ===== verification/Router_Handlers.thy ===== *)
theory Router_Handlers
  imports Dhcp_Engine
begin

text \<open>
  The receiving side of the router, \<^verbatim>\<open>ipv4_engine.go\<close>, \<^verbatim>\<open>icmp_engine.go\<close>, \<^verbatim>\<open>udp_engine.go\<close>,
  \<^verbatim>\<open>ethernet_engine.go\<close> and \<^verbatim>\<open>engine.go\<close> of \<^verbatim>\<open>src/engine\<close>: a frame is parsed, an ARP packet updates the
  cache, an IPv4 packet is handled locally or forwarded. Forwarding is split at the code's
  comments: translation of the destination, lifetime and hook, choice of the outgoing interface,
  translation of the source, link address. A step that drops the packet gives no continuation.
\<close>

subsection \<open>Local delivery\<close>

definition RxUdp :: "env \<Rightarrow> string \<Rightarrow> bytes \<Rightarrow> Ipv4Addr \<Rightarrow> Router \<Rightarrow> Router option" where
  "RxUdp e n ipv4Payload ipv4SrcAddr s =
     do {
       i \<leftarrow> r_NetIfMap s n;
       case ParseUdpPkt (e_ce e) ipv4Payload \<lparr>pair_SrcAddr = ipv4SrcAddr, pair_DstAddr = n_IpAddr i\<rparr> of
         Inl err \<Rightarrow> Some s
       | Inr udp \<Rightarrow>
           if n_DhcpServerEnable i \<and> udp_SrcPort udp = DhcpClientPort \<and> udp_DstPort udp = DhcpServerPort
           then RxDhcp e n (udp_Payload udp) (udp_SrcPort udp) (udp_DstPort udp) s
           else case n_UdpServiceMap i (udp_DstPort udp) of
             None \<Rightarrow> Some s
           | Some False \<Rightarrow> None
           | Some True \<Rightarrow> Some (emit_event (UdpCall n (udp_DstPort udp)
               \<lparr>us_RemoteIp = IpAddrToU ipv4SrcAddr, us_RemotePort = udp_SrcPort udp\<rparr> (udp_Payload udp)) s)
     }"

definition RxUdpBroadcast :: "env \<Rightarrow> string \<Rightarrow> bytes \<Rightarrow> Ipv4Addr \<Rightarrow> Ipv4Addr \<Rightarrow> Router \<Rightarrow> Router option" where
  "RxUdpBroadcast e n ipv4Payload ipv4SrcAddr ipv4DstAddr s =
     (case ParseUdpPkt (e_ce e) ipv4Payload \<lparr>pair_SrcAddr = ipv4SrcAddr, pair_DstAddr = ipv4DstAddr\<rparr> of
        Inl err \<Rightarrow> Some s
      | Inr udp \<Rightarrow>
          if udp_DstPort udp = DhcpClientPort \<or> udp_DstPort udp = DhcpServerPort
          then RxDhcp e n (udp_Payload udp) (udp_SrcPort udp) (udp_DstPort udp) s
          else Some s)"

text \<open>One packet of the loopback queue.\<close>

definition LoHandle :: "env \<Rightarrow> string \<Rightarrow> Router \<Rightarrow> Router option" where
  "LoHandle e n s =
     do {
       i \<leftarrow> r_NetIfMap s n;
       case n_LoChan i of
         [] \<Rightarrow> Some s
       | ipv4Pkt # rest \<Rightarrow> do {
           let s = put_if n (i\<lparr>n_LoChan := rest\<rparr>) s;
           case ParseIpv4Pkt (e_ce e) ipv4Pkt of
             Inl err \<Rightarrow> Some s
           | Inr ipv4 \<Rightarrow>
               if ip_DstAddr ipv4 \<noteq> n_IpAddr i then Some s
               else if ip_IpHeadProto ipv4 = IPH_PROTO_ICMP then RxIcmp e n (ip_Payload ipv4) (ip_SrcAddr ipv4) s
               else if ip_IpHeadProto ipv4 = IPH_PROTO_UDP then RxUdp e n (ip_Payload ipv4) (ip_SrcAddr ipv4) s
               else if ip_IpHeadProto ipv4 = IPH_PROTO_TCP then RxTcp e n (ip_Payload ipv4) (ip_SrcAddr ipv4) s
               else Some s
         }
     }"

subsection \<open>Forwarding\<close>

definition nat_by_wan :: "string \<Rightarrow> Ipv4Addr \<Rightarrow> u16 \<Rightarrow> Ipv4Addr \<Rightarrow> u16 \<Rightarrow> u8 \<Rightarrow> Router \<Rightarrow> (Router \<times> NatFlow option) option" where
  "nat_by_wan n remoteIpAddr remotePort wanIpAddr wanPort proto s =
     do {
       i \<leftarrow> r_NetIfMap s n;
       let (i, r) = NatGetFlowByWan (r_TimeNow s) remoteIpAddr remotePort wanIpAddr wanPort proto i;
       Some (put_if n i s, r)
     }"

definition nat_by_hash :: "string \<Rightarrow> Ipv4Addr \<Rightarrow> u16 \<Rightarrow> Ipv4Addr \<Rightarrow> u16 \<Rightarrow> u8 \<Rightarrow> Router \<Rightarrow> (Router \<times> NatFlow option) option" where
  "nat_by_hash n remoteIpAddr remotePort lanHostIpAddr lanHostPort proto s =
     do {
       i \<leftarrow> r_NetIfMap s n;
       let (i, r) = NatGetFlowByHash (r_TimeNow s) remoteIpAddr remotePort lanHostIpAddr lanHostPort proto i;
       Some (put_if n i s, r)
     }"

definition nat_add :: "env \<Rightarrow> string \<Rightarrow> Ipv4Addr \<Rightarrow> Ipv4Addr \<Rightarrow> u16 \<Rightarrow> u16 \<Rightarrow> u8 \<Rightarrow> Router \<Rightarrow> (Router \<times> NatFlow option) option" where
  "nat_add e n lanHostIpAddr remoteIpAddr lanHostPort remotePort proto s =
     do {
       i \<leftarrow> r_NetIfMap s n;
       let ((i, q), r) = NatAddFlow e (r_TimeNow s) lanHostIpAddr remoteIpAddr lanHostPort remotePort proto (i, r_req s);
       Some (put_if n i (s\<lparr>r_req := q\<rparr>), r)
     }"

text \<open>The flow of a request, made when there is none.\<close>

definition nat_flow_for :: "env \<Rightarrow> string \<Rightarrow> Ipv4Addr \<Rightarrow> u16 \<Rightarrow> Ipv4Addr \<Rightarrow> u16 \<Rightarrow> u8 \<Rightarrow> Router \<Rightarrow> (Router \<times> NatFlow option) option" where
  "nat_flow_for e n remoteIpAddr remotePort lanHostIpAddr lanHostPort proto s =
     do {
       (s, r) \<leftarrow> nat_by_hash n remoteIpAddr remotePort lanHostIpAddr lanHostPort proto s;
       case r of
         Some f \<Rightarrow> Some (s, Some f)
       | None \<Rightarrow> nat_add e n lanHostIpAddr remoteIpAddr lanHostPort remotePort proto s
     }"

text \<open>The payload of the message shares its bytes with the packet, so that the first rewriting is
  seen by the second.\<close>

definition IcmpTtlDeepNat :: "env \<Rightarrow> string \<Rightarrow> bytes \<Rightarrow> Router \<Rightarrow> (Router \<times> bytes \<times> bool) option" where
  "IcmpTtlDeepNat e n ethPayload s =
     (case ParseIpv4Pkt (e_ce e) ethPayload of
        Inl err \<Rightarrow> Some (s, ethPayload, False)
      | Inr ipv4 \<Rightarrow>
          if ip_IpHeadProto ipv4 \<noteq> IPH_PROTO_ICMP then Some (s, ethPayload, False)
          else case ParseIcmpPkt (ip_Payload ipv4) of
            Inl err \<Rightarrow> Some (s, ethPayload, False)
          | Inr icmp \<Rightarrow>
              if icmp_IcmpType icmp \<noteq> ICMP_TTL then Some (s, ethPayload, False)
              else if length (icmp_Payload icmp) < 28 then Some (s, ethPayload, False)
              else do {
                let pl = icmp_Payload icmp;
                let wanIpAddr = ip_of_bytes (go_slice pl 12 16);
                let remoteIpAddr = ip_of_bytes (go_slice pl 16 20);
                let (wanPort, remotePort) = NatGetSrcDstPort pl;
                (s, r) \<leftarrow> nat_by_wan n remoteIpAddr remotePort wanIpAddr wanPort (pl ! 9) s;
                case r of
                  None \<Rightarrow> Some (s, ethPayload, False)
                | Some f \<Rightarrow> do {
                    let pl = NatChangeSrc (e_ce e) pl (UToIpAddr (nf_LanHostIpAddr f)) (nf_LanHostPort f);
                    let ethPayload = go_copy ethPayload 28 pl;
                    Some (s, NatChangeDst (e_ce e) ethPayload (UToIpAddr (nf_LanHostIpAddr f)) 0, True)
                  }
              })"

text \<open>The destination of a packet that arrives on an interface with translation. The inner
  \<^const>\<open>None\<close> is the drop of a packet without a flow.\<close>

definition forward_dnat :: "env \<Rightarrow> string \<Rightarrow> bytes \<Rightarrow> Ipv4Addr \<Rightarrow> Ipv4Addr \<Rightarrow> u8 \<Rightarrow> Router \<Rightarrow>
    (Router \<times> (bytes \<times> NatPortMappingEntry option) option) option" where
  "forward_dnat e n ethPayload ipv4SrcAddr ipv4DstAddr proto s =
     do {
       i \<leftarrow> r_NetIfMap s n;
       if \<not> n_NatEnable i then Some (s, Some (ethPayload, None))
       else do {
         let (srcPort, dstPort) = NatGetSrcDstPort ethPayload;
         (s, ethPayload, isIcmpTtl) \<leftarrow> IcmpTtlDeepNat e n ethPayload s;
         if isIcmpTtl then Some (s, Some (ethPayload, None))
         else case CheckNatPortMapping WanToLan (n_IpAddr i) dstPort proto i of
           Some entry \<Rightarrow>
             Some (s, Some (NatChangeDst (e_ce e) ethPayload (UToIpAddr (pm_LanHostIpAddr entry)) (pm_LanHostPort entry), Some entry))
         | None \<Rightarrow> do {
             (s, r) \<leftarrow> nat_by_wan n ipv4SrcAddr srcPort ipv4DstAddr dstPort proto s;
             Some (s, map_option (\<lambda>f. (NatChangeDst (e_ce e) ethPayload (UToIpAddr (nf_LanHostIpAddr f)) (nf_LanHostPort f), None)) r)
           }
       }
     }"

text \<open>The return flow of a static mapping, for a packet from a LAN interface.\<close>

definition mapping_flow :: "bool \<Rightarrow> bytes \<Rightarrow> Ipv4Pkt \<Rightarrow> Router \<Rightarrow> Router \<times> NatPortMappingFlow option" where
  "mapping_flow natEnable ethPayload ipv4 s =
     (if natEnable then (s, None)
      else
        let (srcPort, dstPort) = NatGetSrcDstPort ethPayload;
            h = \<lparr>nh_RemoteIpAddr = IpAddrToU (ip_DstAddr ipv4), nh_RemotePort = dstPort,
              nh_LanHostIpAddr = IpAddrToU (ip_SrcAddr ipv4), nh_LanHostPort = srcPort, nh_Ipv4HeadProto = ip_IpHeadProto ipv4\<rparr>
        in case r_NatPortMappingFlowTable s h of
             None \<Rightarrow> (s, None)
           | Some f \<Rightarrow>
               let f = f\<lparr>pf_LastAliveTime := r_TimeNow s\<rparr>
               in (s\<lparr>r_NatPortMappingFlowTable := (r_NatPortMappingFlowTable s)(h \<mapsto> f)\<rparr>, Some f))"

text \<open>The outgoing interface and the next hop.\<close>

definition out_route :: "NatPortMappingFlow option \<Rightarrow> Ipv4Addr \<Rightarrow> Router \<Rightarrow> (Ipv4Addr \<times> string \<times> bool) option option" where
  "out_route flow ipv4DstAddr s =
     do {
       (nextHopIpAddr, outNetIfName, hasNextHop) \<leftarrow> NetIf_FindRoute s ipv4DstAddr;
       Some (case flow of
               Some f \<Rightarrow>
                 if outNetIfName \<noteq> pf_WanNetIf f then
                   (case r_NetIfMap s (pf_WanNetIf f) of
                      None \<Rightarrow> None
                    | Some wanNetIf \<Rightarrow>
                        if \<not> n_HasGateway wanNetIf then None
                        else if pf_WanNetIf f = '''' then None
                        else Some (n_Gateway wanNetIf, pf_WanNetIf f, True))
                 else if outNetIfName = '''' then None
                 else Some (nextHopIpAddr, outNetIfName, hasNextHop)
             | None \<Rightarrow> if outNetIfName = '''' then None else Some (nextHopIpAddr, outNetIfName, hasNextHop))
     }"

definition forward_snat :: "env \<Rightarrow> string \<Rightarrow> NetIf \<Rightarrow> NatPortMappingFlow option \<Rightarrow> bytes \<Rightarrow> Ipv4Pkt \<Rightarrow> Router \<Rightarrow> (Router \<times> bytes option) option" where
  "forward_snat e out outNetIf flow ethPayload ipv4 s =
     (if \<not> n_NatEnable outNetIf then Some (s, Some ethPayload)
      else case flow of
        Some f \<Rightarrow> Some (s, Some (NatChangeSrc (e_ce e) ethPayload (n_IpAddr outNetIf) (pf_WanPort f)))
      | None \<Rightarrow>
          let (srcPort, dstPort) = NatGetSrcDstPort ethPayload in
          (case CheckNatPortMapping LanToWan (ip_SrcAddr ipv4) srcPort (ip_IpHeadProto ipv4) outNetIf of
             Some entry \<Rightarrow> Some (s, Some (NatChangeSrc (e_ce e) ethPayload (n_IpAddr outNetIf) (pm_WanPort entry)))
           | None \<Rightarrow> do {
               (s, r) \<leftarrow> nat_flow_for e out (ip_DstAddr ipv4) dstPort (ip_SrcAddr ipv4) srcPort (ip_IpHeadProto ipv4) s;
               Some (s, map_option (\<lambda>f. NatChangeSrc (e_ce e) ethPayload (UToIpAddr (nf_WanIpAddr f)) (nf_WanPort f)) r)
             }))"

text \<open>Remembering where a packet to a static mapping came in; the flag says whether to go on.\<close>

definition record_mapping :: "env \<Rightarrow> string \<Rightarrow> NatPortMappingEntry option \<Rightarrow> bytes \<Rightarrow> u8 \<Rightarrow> Router \<Rightarrow> Router \<times> bool" where
  "record_mapping e name entry ethPayload proto s =
     (case entry of
        None \<Rightarrow> (s, True)
      | Some en \<Rightarrow>
          let (remotePort, _) = NatGetSrcDstPort ethPayload;
              h = \<lparr>nh_RemoteIpAddr = IpAddrToU (ip_of_bytes (go_slice ethPayload 12 16)), nh_RemotePort = remotePort,
                nh_LanHostIpAddr = pm_LanHostIpAddr en, nh_LanHostPort = pm_LanHostPort en, nh_Ipv4HeadProto = proto\<rparr>;
              (ok, s) = (if r_NatPortMappingFlowTable s h \<noteq> None then (True, s) else request e s);
              (ok, s) = (if r_NatPortMappingFlowTable s h \<noteq> None \<or> \<not> ok then (ok, s) else request e s)
          in if \<not> ok then (s, False)
             else (s\<lparr>r_NatPortMappingFlowTable := (r_NatPortMappingFlowTable s)
                       (h \<mapsto> \<lparr>pf_WanNetIf = name, pf_WanPort = pm_WanPort en, pf_LastAliveTime = r_TimeNow s\<rparr>)\<rparr>, True))"

text \<open>From the choice of the interface on.\<close>

definition forward_out :: "env \<Rightarrow> string \<Rightarrow> NetIf \<Rightarrow> NatPortMappingEntry option \<Rightarrow> bytes \<Rightarrow> Ipv4Pkt \<Rightarrow> Router \<Rightarrow> Router option" where
  "forward_out e n i entry ethPayload ipv4 s =
     do {
       let (s, flow) = mapping_flow (n_NatEnable i) ethPayload ipv4 s;
       route \<leftarrow> out_route flow (ip_DstAddr ipv4) s;
       case route of
         None \<Rightarrow> Some s
       | Some (nextHopIpAddr, out, hasNextHop) \<Rightarrow> do {
           outNetIf \<leftarrow> r_NetIfMap s out;
           if IpAddrToU (ip_DstAddr ipv4) = IpAddrToU (n_IpAddr outNetIf) \<and> \<not> n_NatEnable i
           then Some (fst (lo_send out outNetIf ethPayload s))
           else do {
             (s, changed) \<leftarrow> forward_snat e out outNetIf flow ethPayload ipv4 s;
             case changed of
               None \<Rightarrow> Some s
             | Some ethPayload \<Rightarrow> do {
                 (s, arpCache) \<leftarrow> GetArpCache out (if hasNextHop then nextHopIpAddr else ip_DstAddr ipv4) s;
                 case arpCache of
                   None \<Rightarrow> Some s
                 | Some c \<Rightarrow> do {
                     let (s, go) = record_mapping e (n_Name i) entry ethPayload (ip_IpHeadProto ipv4) s;
                     if \<not> go then Some s
                     else map_option fst (TxEthernet out ethPayload (ac_MacAddr c) ETH_PROTO_IPV4 s)
                   }
               }
           }
         }
     }"

definition Ipv4RouteForward :: "env \<Rightarrow> string \<Rightarrow> bytes \<Rightarrow> Ipv4Addr \<Rightarrow> Ipv4Addr \<Rightarrow> u8 \<Rightarrow> Router \<Rightarrow> Router option" where
  "Ipv4RouteForward e n ethPayload ipv4SrcAddr ipv4DstAddr proto s =
     do {
       (s, dnat) \<leftarrow> forward_dnat e n ethPayload ipv4SrcAddr ipv4DstAddr proto s;
       case dnat of
         None \<Rightarrow> Some s
       | Some (ethPayload, entry) \<Rightarrow> do {
           let (ethPayload, alive) = HandleIpv4PktTtl (e_ce e) ethPayload;
           if \<not> alive then map_option fst (TxIcmp e n (take 28 ethPayload) ICMP_TTL [0x00, 0x00] 0 ipv4SrcAddr s)
           else do {
             i \<leftarrow> r_NetIfMap s n;
             let (drop_pkt, ethPayload) =
               (case r_Ipv4PktFwdHook s of
                  None \<Rightarrow> (False, ethPayload)
                | Some hook \<Rightarrow> hook ethPayload (if n_NatEnable i then WanToLan else LanToWan));
             if drop_pkt then Some s
             else case ParseIpv4Pkt (e_ce e) ethPayload of
               Inl err \<Rightarrow> Some s
             | Inr ipv4 \<Rightarrow> forward_out e n i entry ethPayload ipv4 s
           }
         }
     }"

subsection \<open>Receiving\<close>

definition RxIpv4 :: "env \<Rightarrow> string \<Rightarrow> bytes \<Rightarrow> Router \<Rightarrow> Router option" where
  "RxIpv4 e n ethPayload s =
     do {
       i \<leftarrow> r_NetIfMap s n;
       case ParseIpv4Pkt (e_ce e) ethPayload of
         Inl err \<Rightarrow> Some s
       | Inr ipv4 \<Rightarrow> do {
           let src = ip_SrcAddr ipv4;
           let dst = ip_DstAddr ipv4;
           let proto = ip_IpHeadProto ipv4;
           let forward = Ipv4RouteForward e n ethPayload src dst proto s;
           if dst = BROADCAST_IPV4_ADDR then
             (if proto = IPH_PROTO_UDP then RxUdpBroadcast e n (ip_Payload ipv4) src dst s else Some s)
           else if dst \<noteq> n_IpAddr i then forward
           else if proto = IPH_PROTO_ICMP then
             (case ParseIcmpPkt (ip_Payload ipv4) of
                Inl err \<Rightarrow> Some s
              | Inr icmp \<Rightarrow>
                  if \<not> n_NatEnable i \<or> icmp_IcmpType icmp = ICMP_REQUEST then RxIcmp e n (ip_Payload ipv4) src s else forward)
           else if proto = IPH_PROTO_UDP then
             (if \<not> n_NatEnable i \<or> n_UdpServiceMap i (snd (NatGetSrcDstPort ethPayload)) = Some True
              then RxUdp e n (ip_Payload ipv4) src s else forward)
           else if proto = IPH_PROTO_TCP then
             (if \<not> n_NatEnable i \<or> n_TcpServiceMap i (snd (NatGetSrcDstPort ethPayload)) = Some True
              then RxTcp e n (ip_Payload ipv4) src s else forward)
           else Some s
         }
     }"

definition RxEthernet :: "env \<Rightarrow> string \<Rightarrow> bytes \<Rightarrow> Router \<Rightarrow> Router option" where
  "RxEthernet e n ethFrm s =
     do {
       i \<leftarrow> r_NetIfMap s n;
       case ParseEthFrm ethFrm of
         Inl err \<Rightarrow> Some s
       | Inr eth \<Rightarrow>
           if eth_EthProto eth = ETH_PROTO_IPV6 then
             Some (case n_Ipv6PassthroughPeer i of None \<Rightarrow> s | Some peer \<Rightarrow> emit_event (EthTx peer ethFrm) s)
           else if eth_DstMac eth = n_MacAddr i \<or> eth_DstMac eth = BROADCAST_MAC_ADDR then
             (if eth_EthProto eth = ETH_PROTO_ARP then HandleArp e n (eth_Payload eth) (eth_SrcMac eth) s
              else if eth_EthProto eth = ETH_PROTO_IPV4 then RxIpv4 e n (eth_Payload eth) s
              else Some s)
           else Some s
     }"

definition NatPortMappingFlowClear :: "NatFlowHash list \<Rightarrow> Router \<Rightarrow> Router" where
  "NatPortMappingFlowClear order s =
     s\<lparr>r_NatPortMappingFlowTable := expire (\<lambda>f. r_TimeNow s - pf_LastAliveTime f > 60) order (r_NatPortMappingFlowTable s)\<rparr>"

definition Router_Monitor :: "u32 \<Rightarrow> Router \<Rightarrow> Router" where
  "Router_Monitor now s = s\<lparr>r_TimeNow := now\<rparr>"

subsection \<open>Sending by flow\<close>

definition flow_pkt :: "env \<Rightarrow> u16 \<Rightarrow> u16 \<Rightarrow> Ipv4Addr \<Rightarrow> Ipv4Addr \<Rightarrow> bytes \<Rightarrow> Router \<Rightarrow> Router \<times> bytes option" where
  "flow_pkt e srcPort dstPort src dst udpPayload s =
     (case BuildUdpPkt (e_ce e) [] \<lparr>udp_Payload = udpPayload, udp_SrcPort = srcPort, udp_DstPort = dstPort\<rparr>
             \<lparr>pair_SrcAddr = src, pair_DstAddr = dst\<rparr> of
        Inl err \<Rightarrow> (s, None)
      | Inr udpPkt \<Rightarrow>
          let (iphId, built) = BuildIpv4Pkt (e_ce e) (r_iphId s) []
                \<lparr>ip_Payload = udpPkt, ip_IpHeadProto = IPH_PROTO_UDP, ip_SrcAddr = src, ip_DstAddr = dst\<rparr>
          in (s\<lparr>r_iphId := iphId\<rparr>, case built of Inl err \<Rightarrow> None | Inr ipv4Pkt \<Rightarrow> Some ipv4Pkt))"

definition send_resolved :: "string \<Rightarrow> Ipv4Addr \<Rightarrow> bytes \<Rightarrow> Router \<Rightarrow> Router option" where
  "send_resolved n hop ipv4Pkt s =
     do {
       (s, arpCache) \<leftarrow> GetArpCache n hop s;
       case arpCache of
         None \<Rightarrow> Some s
       | Some c \<Rightarrow> map_option fst (TxEthernet n ipv4Pkt (ac_MacAddr c) ETH_PROTO_IPV4 s)
     }"

definition SendUdpPktByFlow :: "env \<Rightarrow> string \<Rightarrow> NatFlowHash \<Rightarrow> nat \<Rightarrow> bytes \<Rightarrow> Router \<Rightarrow> Router option" where
  "SendUdpPktByFlow e n h dir udpPayload s =
     do {
       let remoteIpAddr = UToIpAddr (nh_RemoteIpAddr h);
       let lanHostIpAddr = UToIpAddr (nh_LanHostIpAddr h);
       (s, r) \<leftarrow> nat_flow_for e n remoteIpAddr (nh_RemotePort h) lanHostIpAddr (nh_LanHostPort h) IPH_PROTO_UDP s;
       i \<leftarrow> r_NetIfMap s n;
       case r of
         None \<Rightarrow> Some s
       | Some f \<Rightarrow>
           if dir = LanToWan then
             (case flow_pkt e (nf_WanPort f) (nf_RemotePort f) (n_IpAddr i) remoteIpAddr udpPayload s of
                (s, None) \<Rightarrow> Some s
              | (s, Some ipv4Pkt) \<Rightarrow> do {
                  (nextHopIpAddr, _, hasNextHop) \<leftarrow> NetIf_FindRoute s remoteIpAddr;
                  if \<not> hasNextHop then Some s else send_resolved n nextHopIpAddr ipv4Pkt s
                })
           else if dir = WanToLan then
             (case flow_pkt e (nf_RemotePort f) (nf_LanHostPort f) remoteIpAddr lanHostIpAddr udpPayload s of
                (s, None) \<Rightarrow> Some s
              | (s, Some ipv4Pkt) \<Rightarrow> do {
                  (_, out, _) \<leftarrow> NetIf_FindRoute s lanHostIpAddr;
                  if out = '''' then Some s else send_resolved out lanHostIpAddr ipv4Pkt s
                })
           else Some s
     }"

subsection \<open>Initialisation\<close>

record NatPortMappingEntryConfig =
  pc_WanPort :: u16
  pc_LanHostIpAddr :: string
  pc_LanHostPort :: u16
  pc_Ipv4HeadProto :: u8

text \<open>The packet functions of the driver are whether they are not nil.\<close>

record NetIfConfig =
  nc_Name :: string
  nc_MacAddr :: string
  nc_IpAddr :: string
  nc_NetworkMask :: string
  nc_Gateway :: string
  nc_NatEnable :: bool
  nc_NatType :: int
  nc_NatPortMappingList :: "NatPortMappingEntryConfig list"
  nc_DnsServerAddr :: string
  nc_DhcpServerEnable :: bool
  nc_DhcpClientEnable :: bool
  nc_EthRxFunc :: bool
  nc_EthTxFunc :: bool

record RouteEntryConfig =
  rc_DstIpAddr :: string
  rc_NetworkMask :: string
  rc_NextHop :: string
  rc_NetIf :: string

record RouterConfig =
  cf_NetIfList :: "NetIfConfig list"
  cf_RouteList :: "RouteEntryConfig list"
  cf_WanNetIf :: string
  cf_LanNetIf :: string

datatype init_error = AddrError addr_error | InitError string

definition parse_addr :: "string \<Rightarrow> init_error + Ipv4Addr" where
  "parse_addr a = (case ParseIpAddr a of Inl err \<Rightarrow> Err (AddrError err) | Inr ip \<Rightarrow> Ok ip)"

text \<open>An address that may be left out.\<close>

definition optional_addr :: "string \<Rightarrow> init_error + Ipv4Addr" where
  "optional_addr a = (if a = '''' then Ok zero_ip else parse_addr a)"

definition and_then :: "'e + 'a \<Rightarrow> ('a \<Rightarrow> 'e + 'b) \<Rightarrow> 'e + 'b" where
  "and_then r f = (case r of Inl err \<Rightarrow> Inl err | Inr x \<Rightarrow> f x)"

fun init_mappings :: "NatPortMappingEntryConfig list \<Rightarrow> init_error + NatPortMappingEntry list" where
  "init_mappings [] = Ok []"
| "init_mappings (c # cs) =
     and_then (parse_addr (pc_LanHostIpAddr c)) (\<lambda>ip.
     and_then (init_mappings cs) (\<lambda>es.
     Ok (\<lparr>pm_WanPort = pc_WanPort c, pm_LanHostIpAddr = IpAddrToU ip, pm_LanHostPort = pc_LanHostPort c,
          pm_Ipv4HeadProto = pc_Ipv4HeadProto c\<rparr> # es)))"

definition init_netif :: "NetIfConfig \<Rightarrow> init_error + NetIf" where
  "init_netif c =
     (case ParseMacAddr (nc_MacAddr c) of
        Inl err \<Rightarrow> Err (AddrError err)
      | Inr mac \<Rightarrow>
          and_then (optional_addr (nc_IpAddr c)) (\<lambda>ip.
          and_then (optional_addr (nc_NetworkMask c)) (\<lambda>mask.
          and_then (optional_addr (nc_Gateway c)) (\<lambda>gw.
          and_then (optional_addr (nc_DnsServerAddr c)) (\<lambda>dns.
          if \<not> nc_EthRxFunc c \<or> \<not> nc_EthTxFunc c
          then Err (InitError ''network interface receive and transmit functions must not be nil'')
          else and_then (init_mappings (nc_NatPortMappingList c)) (\<lambda>mappings.
          Ok \<lparr>n_Name = nc_Name c, n_NatEnable = nc_NatEnable c, n_NatType = nc_NatType c,
              n_DhcpServerEnable = nc_DhcpServerEnable c, n_DhcpClientEnable = nc_DhcpClientEnable c, n_MacAddr = mac,
              n_IpAddr = ip, n_NetworkMask = mask, n_Gateway = gw, n_HasGateway = (nc_Gateway c \<noteq> ''''), n_LoChan = [],
              n_Ipv6PassthroughPeer = None, n_ArpCacheTable = Map.empty, n_NatFlowTable = Map.empty,
              n_NatWanFlowTable = Map.empty, n_flow = (\<lambda>_. zero_flow), n_NatPortAlloc = Map.empty,
              n_NatPortMappingTable = mappings, n_DnsServerAddr = dns, n_DhcpLeaseTable = Map.empty,
              n_DhcpClientTransactionId = [], n_UdpServiceMap = Map.empty, n_TcpServiceMap = Map.empty\<rparr>))))))"

fun init_netifs :: "NetIfConfig list \<Rightarrow> (string \<rightharpoonup> NetIf) \<Rightarrow> init_error + (string \<rightharpoonup> NetIf)" where
  "init_netifs [] m = Ok m"
| "init_netifs (c # cs) m = and_then (init_netif c) (\<lambda>i. init_netifs cs (m(n_Name i \<mapsto> i)))"

definition init_passthrough :: "RouterConfig \<Rightarrow> (string \<rightharpoonup> NetIf) \<Rightarrow> init_error + (string \<rightharpoonup> NetIf)" where
  "init_passthrough c m =
     (if cf_WanNetIf c \<noteq> '''' \<and> cf_LanNetIf c \<noteq> '''' then
        (case (m (cf_WanNetIf c), m (cf_LanNetIf c)) of
           (Some wan, Some lan) \<Rightarrow>
             if cf_WanNetIf c = cf_LanNetIf c then Err (InitError ''invalid IPv6 passthrough interface configuration'')
             else Ok (m(cf_WanNetIf c \<mapsto> wan\<lparr>n_Ipv6PassthroughPeer := Some (cf_LanNetIf c)\<rparr>,
                        cf_LanNetIf c \<mapsto> lan\<lparr>n_Ipv6PassthroughPeer := Some (cf_WanNetIf c)\<rparr>))
         | _ \<Rightarrow> Err (InitError ''invalid IPv6 passthrough interface configuration''))
      else Ok m)"

fun init_routes :: "RouteEntryConfig list \<Rightarrow> TrieNode \<Rightarrow> init_error + TrieNode" where
  "init_routes [] t = Ok t"
| "init_routes (c # cs) t =
     and_then (parse_addr (rc_DstIpAddr c)) (\<lambda>dst.
     and_then (parse_addr (rc_NetworkMask c)) (\<lambda>mask.
     and_then (optional_addr (rc_NextHop c)) (\<lambda>hop.
     init_routes cs (AddRoute \<lparr>DstIpAddr = dst, NetworkMask = mask, NextHop = hop, HasNextHop = (rc_NextHop c \<noteq> ''''),
       NetIfName = rc_NetIf c\<rparr> t))))"

text \<open>The routes to the networks of the interfaces, in the order of the walk over their names.\<close>

definition direct_route :: "NetIf \<Rightarrow> RouteEntry" where
  "direct_route i = \<lparr>DstIpAddr = UToIpAddr (IpAddrToU (n_IpAddr i) AND IpAddrToU (n_NetworkMask i)), NetworkMask = n_NetworkMask i,
     NextHop = zero_ip, HasNextHop = False, NetIfName = n_Name i\<rparr>"

fun init_direct :: "(string \<rightharpoonup> NetIf) \<Rightarrow> string list \<Rightarrow> TrieNode \<Rightarrow> TrieNode" where
  "init_direct m [] t = t"
| "init_direct m (n # ns) t =
     init_direct m ns (case m n of
       None \<Rightarrow> t
     | Some i \<Rightarrow> if n_DhcpClientEnable i then t else AddRoute (direct_route i) t)"

definition InitRouter :: "string list \<Rightarrow> u32 \<Rightarrow> (u8 \<times> u8) option \<Rightarrow> RouterConfig \<Rightarrow> init_error + Router" where
  "InitRouter order now rnd config =
     and_then (init_netifs (cf_NetIfList config) Map.empty) (\<lambda>m.
     and_then (init_passthrough config m) (\<lambda>m.
     and_then (init_routes (cf_RouteList config) new_node) (\<lambda>t.
     Ok \<lparr>r_NetIfMap = m, r_RouteTable = init_direct m order t, r_NatPortMappingFlowTable = Map.empty, r_Ipv4PktFwdHook = None,
         r_TimeNow = now, r_iphId = SetRandIpHeaderId rnd, r_req = 0, r_events = []\<rparr>)))"

end
