(* ===== verification/Switch_Engine.thy ===== *)
theory Switch_Engine
  imports Engine_State
begin

text \<open>
  The switch of \<^verbatim>\<open>src/engine/engine.go\<close> and \<^verbatim>\<open>ethernet_engine.go\<close>: ports with a VLAN number, and a table of
  learned link addresses whose records hold the name of the port in a fixed-size string. The
  specification is the map from learned addresses to ports. A frame for a learned address goes to
  its port, any other frame to the ports of the same VLAN.
\<close>

type_synonym port_name = bytes

record SwitchPort =
  sp_Name :: port_name
  sp_VlanId :: u16

record SwitchMacAddr =
  sm_MacAddr :: MacAddr
  sm_NetIf :: bytes
  sm_CreateTime :: u32

record Switch =
  sw_SwitchPortMap :: "port_name \<rightharpoonup> SwitchPort"
  sw_SwitchMacAddrTable :: "MacAddr \<rightharpoonup> SwitchMacAddr"
  sw_TimeNow :: u32
  sw_req :: nat
  sw_events :: "(port_name \<times> bytes) list"

subsection \<open>The operations\<close>

definition InitSwitch :: "u32 \<Rightarrow> SwitchPort list \<Rightarrow> Switch" where
  "InitSwitch now ports =
     \<lparr>sw_SwitchPortMap = foldl (\<lambda>m p. m(sp_Name p \<mapsto> p)) Map.empty ports, sw_SwitchMacAddrTable = Map.empty,
      sw_TimeNow = now, sw_req = 0, sw_events = []\<rparr>"

definition GetSwitchPort :: "Switch \<Rightarrow> port_name \<Rightarrow> SwitchPort option" where
  "GetSwitchPort s name = sw_SwitchPortMap s name"

definition Switch_TxEthernet :: "port_name \<Rightarrow> EthFrm \<Rightarrow> Switch \<Rightarrow> Switch" where
  "Switch_TxEthernet name frm s =
     (case BuildEthFrm [] frm of
        Inl err \<Rightarrow> s
      | Inr ethFrm \<Rightarrow> s\<lparr>sw_events := sw_events s @ [(name, ethFrm)]\<rparr>)"

text \<open>The record of the source address: the one there is, or a new one, which takes two requests.\<close>

definition source_record :: "(nat \<Rightarrow> bool) \<Rightarrow> MacAddr \<Rightarrow> Switch \<Rightarrow> Switch \<times> SwitchMacAddr option" where
  "source_record grant mac s =
     (case sw_SwitchMacAddrTable s mac of
        Some r \<Rightarrow> (s, Some r)
      | None \<Rightarrow>
          let q = sw_req s in
          if \<not> grant q then (s\<lparr>sw_req := q + 1\<rparr>, None)
          else if \<not> grant (q + 1) then (s\<lparr>sw_req := q + 2\<rparr>, None)
          else (s\<lparr>sw_req := q + 2\<rparr>, Some \<lparr>sm_MacAddr = MacAddr 0 0 0 0 0 0, sm_NetIf = replicate 64 0, sm_CreateTime = 0\<rparr>))"

fun flood :: "SwitchPort \<Rightarrow> EthFrm \<Rightarrow> port_name list \<Rightarrow> Switch \<Rightarrow> Switch" where
  "flood port frm [] s = s"
| "flood port frm (name # order) s =
     flood port frm order
       (case sw_SwitchPortMap s name of
          None \<Rightarrow> s
        | Some switchPort \<Rightarrow>
            if sp_Name switchPort = sp_Name port then s
            else if sp_VlanId switchPort \<noteq> sp_VlanId port then s
            else Switch_TxEthernet (sp_Name switchPort) frm s)"

definition multicast_mac :: "MacAddr \<Rightarrow> bool" where
  "multicast_mac mac \<longleftrightarrow> mac_bytes mac ! 0 AND 0x01 = 0x01"

definition HandleEthernet :: "(nat \<Rightarrow> bool) \<Rightarrow> port_name list \<Rightarrow> SwitchPort \<Rightarrow> EthFrm \<Rightarrow> Switch \<Rightarrow> Switch option" where
  "HandleEthernet grant order port frm s =
     (if multicast_mac (eth_SrcMac frm) then Some s
      else
        let (s, r) = source_record grant (eth_SrcMac frm) s in
        case r of
          None \<Rightarrow> Some s
        | Some srcMacAddr \<Rightarrow> do {
            netIf \<leftarrow> StaticString64_Set (sp_Name port) (sm_NetIf srcMacAddr);
            let srcMacAddr = \<lparr>sm_MacAddr = eth_SrcMac frm, sm_NetIf = netIf, sm_CreateTime = sw_TimeNow s\<rparr>;
            let s = s\<lparr>sw_SwitchMacAddrTable := (sw_SwitchMacAddrTable s)(eth_SrcMac frm \<mapsto> srcMacAddr)\<rparr>;
            case sw_SwitchMacAddrTable s (eth_DstMac frm) of
              Some dstMacAddr \<Rightarrow> do {
                name \<leftarrow> StaticString64_Get (sm_NetIf dstMacAddr);
                switchPort \<leftarrow> GetSwitchPort s name;
                Some (Switch_TxEthernet (sp_Name switchPort) frm s)
              }
            | None \<Rightarrow> Some (flood port frm order s)
          })"

definition Switch_RxEthernet :: "(nat \<Rightarrow> bool) \<Rightarrow> port_name list \<Rightarrow> SwitchPort \<Rightarrow> bytes \<Rightarrow> Switch \<Rightarrow> Switch option" where
  "Switch_RxEthernet grant order port ethFrm s =
     (case ParseEthFrm ethFrm of
        Inl err \<Rightarrow> Some s
      | Inr eth \<Rightarrow> HandleEthernet grant order port eth s)"

definition SwitchMacAddrClear :: "MacAddr list \<Rightarrow> Switch \<Rightarrow> Switch" where
  "SwitchMacAddrClear order s =
     s\<lparr>sw_SwitchMacAddrTable := expire (\<lambda>r. sm_CreateTime r + 300 < sw_TimeNow s) order (sw_SwitchMacAddrTable s)\<rparr>"

definition ListSwitchMacAddr :: "MacAddr list \<Rightarrow> Switch \<Rightarrow> SwitchMacAddr list" where
  "ListSwitchMacAddr order s = List.map_filter (sw_SwitchMacAddrTable s) order"

definition Switch_Monitor :: "u32 \<Rightarrow> Switch \<Rightarrow> Switch" where
  "Switch_Monitor now s = s\<lparr>sw_TimeNow := now\<rparr>"

subsection \<open>The specification\<close>

text \<open>The port learned for an address.\<close>

definition learned :: "Switch \<Rightarrow> MacAddr \<rightharpoonup> port_name" where
  "learned s mac = Option.bind (sw_SwitchMacAddrTable s mac) (\<lambda>r. StaticString64_Get (sm_NetIf r))"

text \<open>The ports are known by their own name, which fits the fixed-size string, and every record holds the name
  of a port.\<close>

definition ports_ok :: "Switch \<Rightarrow> bool" where
  "ports_ok s \<longleftrightarrow> (\<forall>name p. sw_SwitchPortMap s name = Some p \<longrightarrow> sp_Name p = name \<and> 0 < length name \<and> length name \<le> 63)"

definition switch_inv :: "Switch \<Rightarrow> bool" where
  "switch_inv s \<longleftrightarrow> ports_ok s \<and>
     (\<forall>mac r. sw_SwitchMacAddrTable s mac = Some r \<longrightarrow> length (sm_NetIf r) = 64 \<and>
        (\<exists>name p. StaticString64_Get (sm_NetIf r) = Some name \<and> sw_SwitchPortMap s name = Some p))"

text \<open>The ports a frame leaves by: the one learned for its destination, or the others of the VLAN.\<close>

definition out_ports :: "port_name list \<Rightarrow> SwitchPort \<Rightarrow> MacAddr \<Rightarrow> (MacAddr \<rightharpoonup> port_name) \<Rightarrow> Switch \<Rightarrow> port_name list" where
  "out_ports order port dst table s =
     (case table dst of
        Some name \<Rightarrow> [name]
      | None \<Rightarrow> filter (\<lambda>name. name \<noteq> sp_Name port \<and> map_option sp_VlanId (sw_SwitchPortMap s name) = Some (sp_VlanId port)) order)"

lemma flood_ok:
  assumes "ports_ok s" "BuildEthFrm [] frm = Ok bs"
  shows "flood port frm order s = s\<lparr>sw_events := sw_events s @ map (\<lambda>name. (name, bs))
    (filter (\<lambda>name. name \<noteq> sp_Name port \<and> map_option sp_VlanId (sw_SwitchPortMap s name) = Some (sp_VlanId port)) order)\<rparr>"
  using assms(1)
proof (induction order arbitrary: s)
  case (Cons name order)
  have ok: "ports_ok (s\<lparr>sw_events := ev\<rparr>)" for ev
    using Cons.prems by (simp add: ports_ok_def)
  show ?case
  proof (cases "sw_SwitchPortMap s name")
    case None
    then show ?thesis
      using Cons by simp
  next
    case (Some p)
    then have "sp_Name p = name"
      using Cons.prems by (auto simp: ports_ok_def)
    then show ?thesis
      using Cons.IH [OF Cons.prems] Cons.IH [OF ok] Some assms(2) by (simp add: Switch_TxEthernet_def)
  qed
qed simp

lemma stored_name:
  assumes "length b = 64" "0 < length name" "length name \<le> 63"
  obtains b' where "StaticString64_Set name b = Some b'" "length b' = 64" "StaticString64_Get b' = Some name"
  using string64 [OF assms(1,2)] assms(3) by fastforce

lemma source_record_same:
  assumes "source_record grant mac s = (s', r)"
  shows "sw_SwitchPortMap s' = sw_SwitchPortMap s" "sw_SwitchMacAddrTable s' = sw_SwitchMacAddrTable s"
    "sw_TimeNow s' = sw_TimeNow s" "sw_events s' = sw_events s"
  using assms by (auto simp: source_record_def Let_def split: option.splits if_splits)

lemma source_record_length:
  assumes "source_record grant mac s = (s', Some r)" "switch_inv s"
  shows "length (sm_NetIf r) = 64"
  using assms by (auto simp: source_record_def switch_inv_def Let_def split: option.splits if_splits)

lemma switch_inv_learned:
  assumes "switch_inv s"
  shows "sw_SwitchMacAddrTable s mac = Some r \<Longrightarrow> \<exists>name p. StaticString64_Get (sm_NetIf r) = Some name \<and> sw_SwitchPortMap s name = Some p \<and> sp_Name p = name"
  using assms unfolding switch_inv_def ports_ok_def by blast

lemma switch_inv_cong:
  "sw_SwitchPortMap s' = sw_SwitchPortMap s \<Longrightarrow> sw_SwitchMacAddrTable s' = sw_SwitchMacAddrTable s \<Longrightarrow> switch_inv s' = switch_inv s"
  by (simp add: switch_inv_def ports_ok_def)

lemma switch_inv_put:
  assumes "switch_inv s" "sw_SwitchPortMap s' = sw_SwitchPortMap s" "sw_SwitchMacAddrTable s' = (sw_SwitchMacAddrTable s)(mac \<mapsto> r)"
    and "length (sm_NetIf r) = 64" "StaticString64_Get (sm_NetIf r) = Some name" "sw_SwitchPortMap s name = Some p"
  shows "switch_inv s'"
  unfolding switch_inv_def
proof (intro conjI allI impI)
  show "ports_ok s'"
    using assms(1,2) by (simp add: switch_inv_def ports_ok_def)
  fix m x
  assume "sw_SwitchMacAddrTable s' m = Some x"
  then have "x = r \<or> sw_SwitchMacAddrTable s m = Some x"
    using assms(3) by (simp split: if_splits)
  then have "length (sm_NetIf x) = 64 \<and> (\<exists>name p. StaticString64_Get (sm_NetIf x) = Some name \<and> sw_SwitchPortMap s name = Some p)"
    using assms(1,4-6) unfolding switch_inv_def by blast
  then show "length (sm_NetIf x) = 64" "\<exists>name p. StaticString64_Get (sm_NetIf x) = Some name \<and> sw_SwitchPortMap s' name = Some p"
    by (simp_all add: assms(2))
qed

lemma HandleEthernet_ok:
  assumes inv: "switch_inv s" and port: "sw_SwitchPortMap s (sp_Name port) = Some port" and built: "BuildEthFrm [] frm = Ok bs"
    and uni: "\<not> multicast_mac (eth_SrcMac frm)" and src: "source_record grant (eth_SrcMac frm) s = (s0, Some r)"
  shows "\<exists>s'. HandleEthernet grant order port frm s = Some s' \<and> switch_inv s' \<and> sw_SwitchPortMap s' = sw_SwitchPortMap s \<and>
    learned s' = (learned s)(eth_SrcMac frm \<mapsto> sp_Name port) \<and>
    sw_events s' = sw_events s @ map (\<lambda>name. (name, bs)) (out_ports order port (eth_DstMac frm) (learned s') s)"
proof -
  note same = source_record_same [OF src]
  have name: "0 < length (sp_Name port)" "length (sp_Name port) \<le> 63"
    using inv port unfolding switch_inv_def ports_ok_def by blast+
  obtain b where b: "StaticString64_Set (sp_Name port) (sm_NetIf r) = Some b" "length b = 64" "StaticString64_Get b = Some (sp_Name port)"
    using stored_name [OF source_record_length [OF src inv] name] by blast
  define s1 where "s1 = s0\<lparr>sw_SwitchMacAddrTable := (sw_SwitchMacAddrTable s0)(eth_SrcMac frm \<mapsto>
      \<lparr>sm_MacAddr = eth_SrcMac frm, sm_NetIf = b, sm_CreateTime = sw_TimeNow s0\<rparr>)\<rparr>"
  have s1: "sw_SwitchPortMap s1 = sw_SwitchPortMap s" "sw_events s1 = sw_events s"
    by (simp_all add: s1_def same)
  have inv1: "switch_inv s1"
    by (rule switch_inv_put [OF inv s1(1) _ _ _ port, where mac = "eth_SrcMac frm" and
          r = "\<lparr>sm_MacAddr = eth_SrcMac frm, sm_NetIf = b, sm_CreateTime = sw_TimeNow s\<rparr>"])
      (simp_all add: s1_def same b)
  have learned1: "learned s1 = (learned s)(eth_SrcMac frm \<mapsto> sp_Name port)"
    using b(3) by (auto simp: fun_eq_iff learned_def s1_def same)
  have ev: "learned (s1\<lparr>sw_events := ev\<rparr>) = learned s1" "switch_inv (s1\<lparr>sw_events := ev\<rparr>)" for ev
    using inv1 by (simp_all add: fun_eq_iff learned_def switch_inv_cong [of "s1\<lparr>sw_events := ev\<rparr>" s1])
  have run: "HandleEthernet grant order port frm s = (case sw_SwitchMacAddrTable s1 (eth_DstMac frm) of
        Some d \<Rightarrow> do { name \<leftarrow> StaticString64_Get (sm_NetIf d); p \<leftarrow> GetSwitchPort s1 name; Some (Switch_TxEthernet (sp_Name p) frm s1) }
      | None \<Rightarrow> Some (flood port frm order s1))"
    unfolding s1_def HandleEthernet_def Let_def using uni src b(1) by simp
  show ?thesis
  proof (cases "sw_SwitchMacAddrTable s1 (eth_DstMac frm)")
    case None
    then have "learned s1 (eth_DstMac frm) = None"
      by (simp add: learned_def)
    then show ?thesis
      using None run flood_ok [OF _ built, of s1 port order] inv1 learned1 ev s1 by (simp add: switch_inv_def [of s1] out_ports_def)
  next
    case (Some d)
    obtain name p where "StaticString64_Get (sm_NetIf d) = Some name" "sw_SwitchPortMap s1 name = Some p" "sp_Name p = name"
      using switch_inv_learned [OF inv1 Some] by blast
    moreover from this have "learned s1 (eth_DstMac frm) = Some name"
      using Some by (simp add: learned_def)
    ultimately show ?thesis
      using Some run built learned1 ev s1 by (simp add: GetSwitchPort_def Switch_TxEthernet_def out_ports_def)
  qed
qed

lemma HandleEthernet_drop:
  assumes "multicast_mac (eth_SrcMac frm) \<or> snd (source_record grant (eth_SrcMac frm) s) = None" "switch_inv s"
  shows "\<exists>s'. HandleEthernet grant order port frm s = Some s' \<and> switch_inv s' \<and> sw_SwitchPortMap s' = sw_SwitchPortMap s \<and>
    learned s' = learned s \<and> sw_events s' = sw_events s"
proof (cases "multicast_mac (eth_SrcMac frm)")
  case True
  then show ?thesis
    using assms(2) by (simp add: HandleEthernet_def)
next
  case False
  obtain s0 where s0: "source_record grant (eth_SrcMac frm) s = (s0, None)"
    using assms(1) False by (metis prod.collapse)
  then show ?thesis
    using source_record_same [OF s0] switch_inv_cong [of s0 s] assms(2) False by (simp add: HandleEthernet_def learned_def fun_eq_iff)
qed

subsection \<open>Runs\<close>

datatype switch_op = SwFrame "nat \<Rightarrow> bool" "port_name list" port_name bytes | SwClear "MacAddr list" | SwTick u32

text \<open>A frame on a port the switch does not have cannot arrive.\<close>

fun switch_step :: "switch_op \<Rightarrow> Switch \<Rightarrow> Switch option" where
  "switch_step (SwFrame grant order name ethFrm) s =
     (case sw_SwitchPortMap s name of
        None \<Rightarrow> Some s
      | Some port \<Rightarrow> Switch_RxEthernet grant order port ethFrm s)"
| "switch_step (SwClear order) s = Some (SwitchMacAddrClear order s)"
| "switch_step (SwTick now) s = Some (Switch_Monitor now s)"

fun switch_run :: "switch_op list \<Rightarrow> Switch \<Rightarrow> Switch option" where
  "switch_run [] s = Some s"
| "switch_run (op # ops) s = do { s \<leftarrow> switch_step op s; switch_run ops s }"

lemma expire_Some: "expire old order m k = Some v \<Longrightarrow> m k = Some v"
  unfolding expire_def
proof (induction order arbitrary: m)
  case (Cons x order)
  have "(case m x of None \<Rightarrow> m | Some v \<Rightarrow> if old v then m(x := None) else m) k = Some v"
    using Cons.IH Cons.prems by simp
  then show ?case
    by (auto split: option.splits if_splits)
qed simp

lemma Switch_RxEthernet_inv:
  assumes "switch_inv s" "sw_SwitchPortMap s (sp_Name port) = Some port"
  shows "\<exists>s'. Switch_RxEthernet grant order port ethFrm s = Some s' \<and> switch_inv s' \<and> sw_SwitchPortMap s' = sw_SwitchPortMap s"
proof (cases "ParseEthFrm ethFrm")
  case (Inr eth)
  obtain bs where bs: "BuildEthFrm [] eth = Ok bs"
    using ParseEthFrm_bounds [OF Inr] eth_build_parse by blast
  show ?thesis
  proof (cases "multicast_mac (eth_SrcMac eth) \<or> snd (source_record grant (eth_SrcMac eth) s) = None")
    case True
    show ?thesis
      using HandleEthernet_drop [OF True assms(1)] unfolding Switch_RxEthernet_def Inr sum.case by blast
  next
    case False
    then obtain s0 r where "source_record grant (eth_SrcMac eth) s = (s0, Some r)"
      by (metis not_None_eq prod.collapse)
    then obtain s' where "HandleEthernet grant order port eth s = Some s'" "switch_inv s'" "sw_SwitchPortMap s' = sw_SwitchPortMap s"
      using HandleEthernet_ok [OF assms bs] False by blast
    then show ?thesis
      by (simp add: Switch_RxEthernet_def Inr)
  qed
qed (use assms in \<open>simp add: Switch_RxEthernet_def\<close>)

lemma switch_step_inv:
  assumes "switch_inv s"
  shows "\<exists>s'. switch_step op s = Some s' \<and> switch_inv s' \<and> sw_SwitchPortMap s' = sw_SwitchPortMap s"
proof (cases op)
  case (SwFrame grant order name ethFrm)
  show ?thesis
  proof (cases "sw_SwitchPortMap s name")
    case (Some port)
    then have "sw_SwitchPortMap s (sp_Name port) = Some port"
      using assms unfolding switch_inv_def ports_ok_def by blast
    then show ?thesis
      using Switch_RxEthernet_inv [OF assms] SwFrame Some by simp
  qed (use SwFrame assms in simp)
next
  case (SwClear order)
  then show ?thesis
    using assms expire_Some by (fastforce simp: SwitchMacAddrClear_def switch_inv_def ports_ok_def)
next
  case (SwTick now)
  then show ?thesis
    using assms by (simp add: Switch_Monitor_def switch_inv_def ports_ok_def)
qed

lemma switch_run_inv: "switch_inv s \<Longrightarrow> \<exists>s'. switch_run ops s = Some s' \<and> switch_inv s' \<and> sw_SwitchPortMap s' = sw_SwitchPortMap s"
proof (induction ops arbitrary: s)
  case (Cons op ops)
  obtain s1 where s1: "switch_step op s = Some s1" "switch_inv s1" "sw_SwitchPortMap s1 = sw_SwitchPortMap s"
    using switch_step_inv [OF Cons.prems] by blast
  then show ?case
    using Cons.IH [OF s1(2)] by simp
qed simp

lemma foldl_ports:
  "foldl (\<lambda>m p. m(sp_Name p \<mapsto> p)) m ports name = Some p \<Longrightarrow> m name = Some p \<or> p \<in> set ports \<and> sp_Name p = name"
proof (induction ports arbitrary: m)
  case (Cons a ports)
  then show ?case
    using Cons.IH [of "m(sp_Name a \<mapsto> a)"] by (auto split: if_splits)
qed simp

lemma InitSwitch_inv:
  assumes "list_all (\<lambda>p. 0 < length (sp_Name p) \<and> length (sp_Name p) \<le> 63) ports"
  shows "switch_inv (InitSwitch now ports)"
  using assms foldl_ports [of Map.empty ports] by (auto simp: InitSwitch_def switch_inv_def ports_ok_def list_all_iff)

text \<open>A source that is not learned yet takes two requests for memory; without them its frame is dropped.\<close>

definition no_room :: "(nat \<Rightarrow> bool) \<Rightarrow> MacAddr \<Rightarrow> Switch \<Rightarrow> bool" where
  "no_room grant mac s \<longleftrightarrow> learned s mac = None \<and> \<not> (grant (sw_req s) \<and> grant (sw_req s + 1))"

lemma no_room_iff:
  assumes "switch_inv s"
  shows "no_room grant mac s \<longleftrightarrow> snd (source_record grant mac s) = None"
proof (cases "sw_SwitchMacAddrTable s mac")
  case None
  then show ?thesis
    by (simp add: no_room_def learned_def source_record_def Let_def)
next
  case (Some r)
  then obtain name where "StaticString64_Get (sm_NetIf r) = Some name"
    using assms unfolding switch_inv_def by blast
  then show ?thesis
    using Some by (simp add: no_room_def learned_def source_record_def)
qed

text \<open>What a frame on a port does to the learned addresses and what it makes leave the switch.\<close>

definition switch_effect :: "(nat \<Rightarrow> bool) \<Rightarrow> port_name list \<Rightarrow> SwitchPort \<Rightarrow> bytes \<Rightarrow> Switch \<Rightarrow> Switch \<Rightarrow> bool" where
  "switch_effect grant order port ethFrm s s' \<longleftrightarrow>
     (case ParseEthFrm ethFrm of
        Inl err \<Rightarrow> learned s' = learned s \<and> sw_events s' = sw_events s
      | Inr eth \<Rightarrow>
          if multicast_mac (eth_SrcMac eth) \<or> no_room grant (eth_SrcMac eth) s
          then learned s' = learned s \<and> sw_events s' = sw_events s
          else learned s' = (learned s)(eth_SrcMac eth \<mapsto> sp_Name port) \<and>
            (\<exists>bs. ParseEthFrm bs = Ok (eth\<lparr>eth_Payload := eth_padded (eth_Payload eth)\<rparr>) \<and>
               sw_events s' = sw_events s @ map (\<lambda>out. (out, bs)) (out_ports order port (eth_DstMac eth) (learned s') s)))"

lemma Switch_RxEthernet_effect:
  assumes inv: "switch_inv s" and port: "sw_SwitchPortMap s name = Some port"
  shows "\<exists>s'. Switch_RxEthernet grant order port ethFrm s = Some s' \<and> switch_effect grant order port ethFrm s s'"
proof (cases "ParseEthFrm ethFrm")
  case (Inl err)
  then show ?thesis
    by (simp add: Switch_RxEthernet_def switch_effect_def)
next
  case (Inr eth)
  have name: "sp_Name port = name"
    using inv port unfolding switch_inv_def ports_ok_def by blast
  obtain bs where bs: "BuildEthFrm [] eth = Ok bs" "ParseEthFrm bs = Ok (eth\<lparr>eth_Payload := eth_padded (eth_Payload eth)\<rparr>)"
    using ParseEthFrm_bounds [OF Inr] eth_build_parse by blast
  show ?thesis
  proof (cases "multicast_mac (eth_SrcMac eth) \<or> no_room grant (eth_SrcMac eth) s")
    case True
    then have "multicast_mac (eth_SrcMac eth) \<or> snd (source_record grant (eth_SrcMac eth) s) = None"
      by (simp only: no_room_iff [OF inv])
    from HandleEthernet_drop [OF this inv] show ?thesis
      unfolding Switch_RxEthernet_def switch_effect_def Inr sum.case if_P [OF True] by blast
  next
    case False
    then obtain s0 r where r: "source_record grant (eth_SrcMac eth) s = (s0, Some r)" and uni: "\<not> multicast_mac (eth_SrcMac eth)"
      using no_room_iff [OF inv] by (metis not_None_eq prod.collapse)
    from HandleEthernet_ok [OF inv port [folded name] bs(1) uni r, of order] bs(2) show ?thesis
      unfolding Switch_RxEthernet_def switch_effect_def Inr sum.case if_not_P [OF False] by blast
  qed
qed

subsection \<open>Properties\<close>



end
