(* ===== verification/Spec2Isabelle.thy ===== *)
theory Spec2Isabelle
  imports Link_Packets Tcp_Packets Dhcp_Packets Transport_Packets Container_Runs Tcp_Stack Kcp_Runs P2p Router_Handlers Switch_Engine
begin

text \<open>
  \<^bold>\<open>Verification of the halo network stack.\<close>

  The program is a user-space network stack in Go. Its parts, from the bottom up:
  \<^item> \<^verbatim>\<open>src/mem\<close>: an allocator over a fixed memory region, its interface, and fixed-size strings.
    \<^verbatim>\<open>src/list\<close> and \<^verbatim>\<open>src/hashmap\<close> are containers on that interface; \<^verbatim>\<open>src/hashcode\<close> has
    the hash codes of their keys.
  \<^item> \<^verbatim>\<open>src/protocol\<close>: parsers and builders of Ethernet, ARP, IPv4, ICMP, UDP, TCP and DHCP
    packets, and the in-place rewriting of addresses and ports that the router does.
  \<^item> \<^verbatim>\<open>src/protocol/tcp\<close>: TCP connections, listeners and the stack that owns them.
  \<^item> \<^verbatim>\<open>src/protocol/kcp\<close>: reliable datagrams, the KCP state machine.
  \<^item> \<^verbatim>\<open>src/engine\<close>: the router and switch that connect the above to network interfaces.

  \<^bold>\<open>Conventions.\<close> Integers of fixed width are words; a byte slice is a list of 8-bit words; a Go
  \<^verbatim>\<open>(value, error)\<close> pair is a sum (\<open>Err\<close>, \<open>Ok\<close>); a function that may panic (an index out of
  range, a nil dereference, a division by zero) returns an option, and \<open>None\<close> is the panic. A
  struct is a record with the fields of the source, memory that is shared by pointers is a map
  from addresses. Package variables, the clock, random numbers and hash functions under a secret
  are arguments. A lock makes a handler atomic: a handler is one function of the state.

  \<^bold>\<open>Theories.\<close>
  \<^descr>[\<open>Halo_Prelude\<close>] words, byte-order codecs, slicing, results; the simp collections.
  \<^descr>[\<open>Proto_Utils\<close>, \<open>Link_Packets\<close>, \<open>Ipv4_Packets\<close>, \<open>Transport_Packets\<close>, \<open>Tcp_Packets\<close>, \<open>Dhcp_Packets\<close>] the
    protocol package. Round trips of every builder and parser, the closed form of the checksum
    loop and what it detects, termination of the TCP option loop, and that address translation
    keeps the packet valid and its payload, with the inverse rewriting giving back the ports.
  \<^descr>[\<open>Linked_Segments\<close>, \<open>Static_Allocator\<close>, \<open>Static_Allocator_Inv\<close>, \<open>Static_Allocator_Spec\<close>] \<^verbatim>\<open>static_allocator.go\<close>. The
    blocks tile the region; allocations never overlap, freeing coalesces, no call gets stuck.
  \<^descr>[\<open>Allocator\<close>, \<open>Array_List\<close>, \<open>Hash_Map\<close>, \<open>Hash_Map_Inv\<close>, \<open>Hash_Map_Spec\<close>, \<open>Container_Runs\<close>] \<^verbatim>\<open>mem.go\<close>,
    \<^verbatim>\<open>array_list.go\<close> and \<^verbatim>\<open>hashmap.go\<close>. The allocator interface is a locale; the containers are proved against
    it and used at its interpretation for the static allocator: they implement lists and finite
    maps along every sequence of calls, also when allocations fail, and leak nothing.
  \<^descr>[\<open>Hash_Codes\<close>] \<^verbatim>\<open>hashcode.go\<close>, \<^verbatim>\<open>xxh3.go\<close>. No read outside the input or the secret; the
    integer hash is a bijection.
  \<^descr>[\<open>Ring_Lists\<close>, \<open>Tcp_Buffer\<close>, \<open>Tcp_Conn\<close>, \<open>Tcp_Stack\<close>] \<^verbatim>\<open>src/protocol/tcp\<close>: the byte buffers, the
    state machine of a connection, and the stack.
  \<^descr>[\<open>Kcp_Ring\<close>, \<open>Segment_Heap\<close>, \<open>Kcp\<close>] the queues, the reordering heap and the state machine of
    \<^verbatim>\<open>kcp.go\<close>, complete. \<open>Kcp_Inv\<close>, \<open>Kcp_Ops\<close> and \<open>Kcp_Delivery\<close> prove its invariant operation by
    operation; \<open>Kcp_Runs\<close> composes two connections over a lossy network: no panic, packets
    within the MTU, and delivery in order.
  \<^descr>[\<open>Static_Strings\<close>] the fixed-size strings of \<^verbatim>\<open>static_allocator.go\<close> give back what was stored.
  \<^descr>[\<open>Control_Packets\<close>, \<open>P2p\<close>] \<^verbatim>\<open>enet.go\<close>, \<^verbatim>\<open>src/p2p\<close>: control packets, endpoint discovery end to end, and the
    hole punching loop, which reports an endpoint only if the path works in both directions.
  \<^descr>[\<open>Route_Table\<close>] the routing table of \<^verbatim>\<open>ipv4_engine.go\<close> is longest-prefix match.
  \<^descr>[\<open>Engine_State\<close>, \<open>Nat_Table\<close>, \<open>Engine_Send\<close>, \<open>Dhcp_Engine\<close>, \<open>Router_Handlers\<close>] the router of \<^verbatim>\<open>src/engine\<close>: its
    state and ARP cache, the NAT tables, what it sends, the DHCP server and client, and the handlers
    of received packets with forwarding and configuration. A hash map of the engine is a map, since
    \<open>Hash_Map_Spec\<close> proves that the code implements one. In every reachable state of the NAT tables replies go back to the
    host that asked, and a failed addition leaves no trace.
  \<^descr>[\<open>Switch_Engine\<close>] the switch: it never panics and forwards as the map of learned addresses says.

  \<^bold>\<open>Bounds.\<close> No function uses fuel: loops of the source are structural recursion or recursion with a
  termination proof, and the two loops over pointers of the allocator are partial functions whose
  termination is part of the properties. Delivery of KCP is stated for at most \<open>2\<^sup>3\<^sup>1\<close> offered
  bytes, half of the space of its sequence numbers.

  \<^bold>\<open>Not modelled.\<close> Goroutines, timers, channels and sockets (\<^verbatim>\<open>session.go\<close> apart from its settings,
  \<^verbatim>\<open>timedsched.go\<close>, the UDP socket files), since they only decide when the modelled handlers run; bindings to C libraries
  and system calls (\<^verbatim>\<open>src/dpdk\<close>, \<^verbatim>\<open>src/pcap\<close>, \<^verbatim>\<open>src/cpu\<close>, the heap allocators); logging, statistics and the
  example program, which compute nothing that the rest relies on; the JSON helpers of the containers.
\<close>

end
